(* ===== verification/Prelude.thy ===== *)
theory Prelude
  imports Complex_Main "HOL-Library.AList"
begin

section \<open>Prelude: what every component shares\<close>

text \<open>
  The JavaScript containers the sources use, with the observations the code makes on them.
  A \<open>Map\<close> is an association list in insertion order: \<open>Map.set\<close> is
  \<^const>\<open>AList.update\<close> (a known key keeps its place, a new one goes to the end) and
  \<open>Map.get\<close> is \<^const>\<open>map_of\<close>, whose \<^const>\<open>None\<close> is \<open>undefined\<close>.  A \<open>Set\<close> is a list
  without repetitions in insertion order.  Array reads out of range give \<open>undefined\<close>
  (\<open>js_index\<close>), and \<open>Array.indexOf\<close> gives -1 for a missing element.

  The collection \<open>js_simps\<close> holds the lemmas on these containers that proofs hand to the
  simplifier.
\<close>

named_theorems js_simps

subsection \<open>Sets in insertion order\<close>

definition set_add :: "'a \<Rightarrow> 'a list \<Rightarrow> 'a list" where
  "set_add x xs = (if x \<in> set xs then xs else xs @ [x])"

fun set_add_all :: "'a list \<Rightarrow> 'a list \<Rightarrow> 'a list" where
  "set_add_all [] acc = acc"
| "set_add_all (x # xs) acc = set_add_all xs (set_add x acc)"

lemma set_set_add [simp]: "set (set_add x xs) = insert x (set xs)"
  by (auto simp: set_add_def)

lemma set_add_nonempty [simp]: "set_add x xs \<noteq> []"
  by (auto simp: set_add_def)

lemma distinct_set_add [simp]: "distinct (set_add x xs) = distinct xs"
  by (auto simp: set_add_def)

lemma set_set_add_all [simp]: "set (set_add_all xs acc) = set xs \<union> set acc"
  by (induction xs arbitrary: acc) auto

lemma distinct_set_add_all [simp]: "distinct (set_add_all xs acc) = distinct acc"
  by (induction xs arbitrary: acc) auto

lemma set_add_all_distinct:
  "distinct (acc @ xs) \<Longrightarrow> set_add_all xs acc = acc @ xs"
  by (induction xs arbitrary: acc) (auto simp: set_add_def)

lemma set_add_mem [js_simps]: "x \<in> set xs \<Longrightarrow> set_add x xs = xs"
  by (simp add: set_add_def)

subsection \<open>Arrays\<close>

fun index_from :: "int \<Rightarrow> 'a \<Rightarrow> 'a list \<Rightarrow> int" where
  "index_from i x [] = -1"
| "index_from i x (y # ys) = (if y = x then i else index_from (i + 1) x ys)"

definition js_indexOf :: "'a \<Rightarrow> 'a list \<Rightarrow> int" where
  "js_indexOf x xs = index_from 0 x xs"

definition js_index :: "'a list \<Rightarrow> int \<Rightarrow> 'a option" where
  "js_index xs i = (if 0 \<le> i \<and> i < int (length xs) then Some (xs ! nat i) else None)"

lemma index_from_split:
  "x \<notin> set ys \<Longrightarrow> index_from i x (ys @ x # zs) = i + int (length ys)"
  by (induction ys arbitrary: i) auto

lemma index_from_missing: "x \<notin> set ys \<Longrightarrow> index_from i x ys = -1"
  by (induction ys arbitrary: i) auto

lemma js_indexOf_split [js_simps]:
  "x \<notin> set ys \<Longrightarrow> js_indexOf x (ys @ x # zs) = int (length ys)"
  by (simp add: js_indexOf_def index_from_split)

lemma js_indexOf_missing [js_simps]: "x \<notin> set ys \<Longrightarrow> js_indexOf x ys = -1"
  by (simp add: js_indexOf_def index_from_missing)

text \<open>Reading the indices from the length of a prefix to the end gives the suffix.\<close>

lemma map_js_index_suffix:
  "map (js_index (ys @ zs)) [int (length ys) .. int (length (ys @ zs)) - 1] = map Some zs"
proof (induction zs rule: rev_induct)
  case Nil
  then show ?case by simp
next
  case (snoc z zs)
  have upto: "[int (length ys) .. int (length (ys @ zs @ [z])) - 1]
      = [int (length ys) .. int (length (ys @ zs)) - 1] @ [int (length (ys @ zs))]"
    by (simp add: upto_rec2)
  have front: "map (js_index (ys @ zs @ [z])) [int (length ys) .. int (length (ys @ zs)) - 1]
      = map (js_index (ys @ zs)) [int (length ys) .. int (length (ys @ zs)) - 1]"
    by (rule map_cong [OF refl]) (auto simp: js_index_def nth_append)
  have "(ys @ zs @ [z]) ! (length ys + length zs) = z"
    by (simp add: nth_append)
  then have end_val: "js_index (ys @ zs @ [z]) (int (length (ys @ zs))) = Some z"
    by (simp add: js_index_def nat_add_distrib)
  show ?case by (simp only: upto map_append front snoc.IH) (simp add: end_val del: length_append)
qed

subsection \<open>Maps\<close>

lemma map_of_update [simp]: "map_of (AList.update k v al) = (map_of al)(k \<mapsto> v)"
  by (rule update_conv')

text \<open>How many keys carry a value: overwriting a key that carries it loses one.\<close>

definition count_value :: "'v \<Rightarrow> ('k \<times> 'v) list \<Rightarrow> nat" where
  "count_value v al = length (filter (\<lambda>p. snd p = v) al)"

lemma count_value_update_less:
  "map_of al k = Some v \<Longrightarrow> w \<noteq> v \<Longrightarrow> count_value v (AList.update k w al) < count_value v al"
  by (induction al) (auto simp: count_value_def split: if_splits)

lemma count_value_update_le:
  "w \<noteq> v \<Longrightarrow> count_value v (AList.update k w al) \<le> count_value v al"
  by (induction al) (auto simp: count_value_def)

subsection \<open>Numbers in template strings\<close>

text \<open>\<open>${n}\<close> for a natural number.\<close>

definition digit_char :: "nat \<Rightarrow> char" where
  "digit_char d = char_of (48 + d)"

fun show_nat :: "nat \<Rightarrow> string" where
  "show_nat n = (if n < 10 then [digit_char n] else show_nat (n div 10) @ [digit_char (n mod 10)])"

declare show_nat.simps [simp del]

subsection \<open>Walks in finite graphs\<close>

text \<open>A closed walk without repetition: consecutive nodes and the last and first are edges.\<close>

definition is_cycle :: "('a \<times> 'a) set \<Rightarrow> 'a list \<Rightarrow> bool" where
  "is_cycle E ns \<longleftrightarrow>
     ns \<noteq> [] \<and> distinct ns \<and> successively (\<lambda>u v. (u, v) \<in> E) ns \<and> (last ns, hd ns) \<in> E"

definition reaches_cycle :: "('a \<times> 'a) set \<Rightarrow> 'a \<Rightarrow> bool" where
  "reaches_cycle E x \<longleftrightarrow> (\<exists>y. (x, y) \<in> E\<^sup>* \<and> (y, y) \<in> E\<^sup>+)"

lemma successively_rtrancl:
  "successively (\<lambda>u v. (u, v) \<in> E) (x # xs) \<Longrightarrow> y \<in> set (x # xs) \<Longrightarrow> (x, y) \<in> E\<^sup>*"
proof (induction xs arbitrary: x)
  case Nil
  then show ?case by simp
next
  case (Cons z xs)
  then have "y = x \<or> (z, y) \<in> E\<^sup>*" and "(x, z) \<in> E" by auto
  then show ?case by (auto intro: converse_rtrancl_into_rtrancl)
qed

lemma successively_last_rtrancl:
  "successively (\<lambda>u v. (u, v) \<in> E) xs \<Longrightarrow> x \<in> set xs \<Longrightarrow> (x, last xs) \<in> E\<^sup>*"
proof (induction xs)
  case Nil
  then show ?case by simp
next
  case (Cons z xs)
  show ?case
  proof (cases "x = z")
    case True
    then show ?thesis using successively_rtrancl [OF Cons.prems(1), of "last (z # xs)"] by simp
  next
    case False
    then have "x \<in> set xs" and "xs \<noteq> []" using Cons.prems(2) by auto
    then show ?thesis using Cons by (cases xs) auto
  qed
qed

lemma is_cycle_trancl:
  assumes "is_cycle E ns" shows "(hd ns, hd ns) \<in> E\<^sup>+"
proof -
  obtain x xs where ns: "ns = x # xs" using assms by (cases ns) (auto simp: is_cycle_def)
  have "(x, last ns) \<in> E\<^sup>*"
    using assms successively_rtrancl [of E x xs "last ns"] by (simp add: is_cycle_def ns)
  moreover have "(last ns, x) \<in> E" using assms by (simp add: is_cycle_def ns)
  ultimately show ?thesis by (simp add: ns rtrancl_into_trancl1)
qed

lemma is_cycle_not_acyclic: "is_cycle E ns \<Longrightarrow> \<not> acyclic E"
  using is_cycle_trancl by (auto simp: acyclic_def)

lemma reaches_cycle_step: "(x, y) \<in> E \<Longrightarrow> reaches_cycle E y \<Longrightarrow> reaches_cycle E x"
  unfolding reaches_cycle_def by (blast intro: converse_rtrancl_into_rtrancl)

lemma reaches_cycle_rtrancl: "(x, y) \<in> E\<^sup>* \<Longrightarrow> reaches_cycle E y \<Longrightarrow> reaches_cycle E x"
  unfolding reaches_cycle_def by (blast intro: rtrancl_trans)

text \<open>The order of a list: \<open>u\<close> occurs before a later \<open>v\<close>.\<close>

definition before :: "'a list \<Rightarrow> 'a \<Rightarrow> 'a \<Rightarrow> bool" where
  "before xs u v \<longleftrightarrow> (\<exists>as bs. xs = as @ bs \<and> u \<in> set as \<and> v \<in> set bs)"

lemma before_rev: "before (rev xs) u v \<longleftrightarrow> before xs v u"
proof -
  have *: "before (rev xs) u v \<Longrightarrow> before xs v u" for xs :: "'a list" and u v
  proof -
    assume "before (rev xs) u v"
    then obtain as bs where "rev xs = as @ bs" "u \<in> set as" "v \<in> set bs"
      by (auto simp: before_def)
    then have "xs = rev bs @ rev as" and "u \<in> set (rev as)" and "v \<in> set (rev bs)"
      by (auto simp: rev_swap)
    then show ?thesis unfolding before_def by blast
  qed
  show ?thesis using * [of xs u v] * [of "rev xs" v u] by auto
qed

end
