(* ===== verification/JsNumber.thy ===== *)
theory JsNumber
  imports Prelude
begin

section \<open>JavaScript numbers\<close>

text \<open>
  A JavaScript number is an IEEE 754 double.  A finite one is modelled by the rational it
  stands for; the result of an arithmetic operation is the exact rational rounded to the
  nearest double, ties to even (\<open>fl\<close>), and a result beyond the largest double is an infinity.
  The sign of zero is not represented: no code under src/ observes it.

  The locale \<open>rounding\<close> is the interface the components use: rounding is monotone, leaves
  the integers up to \<open>2 ^ 53\<close> alone, and leaves a value it produced alone.  It is
  interpreted on \<open>fl\<close> at the end of the theory.
\<close>

datatype jsnum = NaN | PosInf | NegInf | Fin rat

subsection \<open>Rounding to 53 significant bits\<close>

text \<open>\<open>binade x\<close> is the \<open>k\<close> with \<open>2 powi k \<le> x < 2 powi (k + 1)\<close>, for positive \<open>x\<close>.\<close>

function binade :: "rat \<Rightarrow> int" where
  "binade x =
     (if x \<le> 0 then 0
      else if 2 \<le> x then binade (x / 2) + 1
      else if x < 1 then binade (2 * x) - 1
      else 0)"
  by pat_completeness auto
termination
proof (relation "measure (\<lambda>x. if 2 \<le> x then 2 * nat \<lfloor>x\<rfloor> + 1 else if x < 1 then 2 * nat \<lfloor>1 / x\<rfloor> else 0)")
  show "wf (measure (\<lambda>x. if 2 \<le> x then 2 * nat \<lfloor>x\<rfloor> + 1 else if x < 1 then 2 * nat \<lfloor>1 / x\<rfloor> else 0) :: (rat \<times> rat) set)"
    by simp
next
  fix x :: rat
  assume "\<not> x \<le> 0" and two: "2 \<le> x"
  have "\<lfloor>x / 2\<rfloor> \<le> \<lfloor>x\<rfloor> - 1" using two by linarith
  moreover have "1 \<le> \<lfloor>x / 2\<rfloor>" using two by simp
  ultimately show "(x / 2, x) \<in> measure (\<lambda>x. if 2 \<le> x then 2 * nat \<lfloor>x\<rfloor> + 1 else if x < 1 then 2 * nat \<lfloor>1 / x\<rfloor> else 0)"
    using two by simp
next
  fix x :: rat
  assume pos: "\<not> x \<le> 0" and "\<not> 2 \<le> x" and one: "x < 1"
  define y where "y = 1 / x"
  have y: "1 < y" and half: "1 / (2 * x) = y / 2" using pos one by (simp_all add: y_def)
  have "\<lfloor>y / 2\<rfloor> \<le> \<lfloor>y\<rfloor> - 1 \<or> y < 2" by linarith
  moreover have "1 \<le> \<lfloor>y\<rfloor>" using y by simp
  ultimately have "nat \<lfloor>y / 2\<rfloor> < nat \<lfloor>y\<rfloor>" using y by linarith
  then have "nat \<lfloor>1 / (2 * x)\<rfloor> < nat \<lfloor>1 / x\<rfloor>" by (simp only: half y_def)
  then show "(2 * x, x) \<in> measure (\<lambda>x. if 2 \<le> x then 2 * nat \<lfloor>x\<rfloor> + 1 else if x < 1 then 2 * nat \<lfloor>1 / x\<rfloor> else 0)"
    using pos one by simp
qed

declare binade.simps [simp del]

lemma binade_bounds: "0 < x \<Longrightarrow> 2 powi binade x \<le> x \<and> x < 2 powi (binade x + 1)"
proof (induction x rule: binade.induct)
  case (1 x)
  consider "2 \<le> x" | "x < 1" | "1 \<le> x" "x < 2" by linarith
  then show ?case
  proof cases
    case 1
    then have "2 powi binade (x / 2) \<le> x / 2 \<and> x / 2 < 2 powi (binade (x / 2) + 1)"
      using "1.IH"(1) "1.prems" by simp
    moreover have "binade x = binade (x / 2) + 1" using 1 "1.prems" by (simp add: binade.simps [of x])
    ultimately show ?thesis by (simp add: power_int_add)
  next
    case 2
    then have "2 powi binade (2 * x) \<le> 2 * x \<and> 2 * x < 2 powi (binade (2 * x) + 1)"
      using "1.IH"(2) "1.prems" by simp
    moreover have "binade x = binade (2 * x) - 1" using 2 "1.prems" by (simp add: binade.simps [of x])
    ultimately show ?thesis by (simp add: power_int_add power_int_diff)
  next
    case 3
    then have "binade x = 0" by (simp add: binade.simps [of x])
    then show ?thesis using 3 by simp
  qed
qed

definition round_even :: "rat \<Rightarrow> int" where
  "round_even x =
     (let f = \<lfloor>x\<rfloor>; r = x - of_int f
      in if r < 1 / 2 then f else if 1 / 2 < r then f + 1 else if even f then f else f + 1)"

lemma round_even_of_int [simp]: "round_even (of_int n) = n"
  by (simp add: round_even_def)

lemma round_even_bounds: "of_int (round_even x) \<le> x + 1 / 2 \<and> x - 1 / 2 \<le> of_int (round_even x)"
proof -
  show ?thesis unfolding round_even_def Let_def by (auto; linarith)
qed

lemma round_even_mono:
  assumes "x \<le> y" shows "round_even x \<le> round_even y"
proof (cases "\<lfloor>x\<rfloor> = \<lfloor>y\<rfloor>")
  case True
  then show ?thesis using assms by (auto simp: round_even_def Let_def)
next
  case False
  then have less: "\<lfloor>x\<rfloor> + 1 \<le> \<lfloor>y\<rfloor>" using floor_mono [OF assms] by linarith
  have "round_even x \<le> \<lfloor>x\<rfloor> + 1" and "\<lfloor>y\<rfloor> \<le> round_even y"
    by (auto simp: round_even_def Let_def)
  then show ?thesis using less by linarith
qed

text \<open>
  The spacing of the doubles around \<open>x\<close>: \<open>2 powi (binade \<bar>x\<bar> - 52)\<close>, and never below
  \<open>2 powi (- 1074)\<close>, the spacing of the subnormal numbers.
\<close>

definition spacing :: "rat \<Rightarrow> rat" where
  "spacing x = 2 powi (max (binade \<bar>x\<bar> - 52) (- 1074))"

definition fl :: "rat \<Rightarrow> rat" where
  "fl x = of_int (round_even (x / spacing x)) * spacing x"

definition max_double :: rat where
  "max_double = (2 ^ 53 - 1) * 2 ^ 971"

definition js_fin :: "rat \<Rightarrow> jsnum" where
  "js_fin x = (let y = fl x in if max_double < y then PosInf else if y < - max_double then NegInf else Fin y)"

subsection \<open>Rounding is monotone and exact on the grid\<close>

lemma round_even_minus: "round_even (- x) = - round_even x"
proof (cases "x = of_int \<lfloor>x\<rfloor>")
  case True
  then have "round_even x = \<lfloor>x\<rfloor>" and "round_even (- x) = - \<lfloor>x\<rfloor>"
    by (metis round_even_of_int) (metis True of_int_minus round_even_of_int)
  then show ?thesis by simp
next
  case False
  then have f: "\<lfloor>- x\<rfloor> = - \<lfloor>x\<rfloor> - 1" by linarith
  show ?thesis unfolding round_even_def Let_def f by (auto simp: field_simps)
qed

lemma spacing_pos [simp]: "0 < spacing x"
  by (simp add: spacing_def)

lemma spacing_minus [simp]: "spacing (- x) = spacing x"
  by (simp add: spacing_def)

lemma fl_minus: "fl (- x) = - fl x"
  by (simp add: fl_def round_even_minus)

lemma fl_0 [simp]: "fl 0 = 0"
  using round_even_of_int [of 0] by (simp add: fl_def)

lemma fl_grid: "x = of_int n * spacing x \<Longrightarrow> fl x = x"
  using spacing_pos [of x] by (metis fl_def nonzero_mult_div_cancel_right order_less_irrefl round_even_of_int)

lemma fl_le_grid:
  assumes "x \<le> of_int n * spacing x" shows "fl x \<le> of_int n * spacing x"
proof -
  have "x / spacing x \<le> of_int n" using assms by (simp add: divide_le_eq)
  then have "round_even (x / spacing x) \<le> n" by (metis round_even_mono round_even_of_int)
  then show ?thesis by (simp add: fl_def)
qed

lemma fl_ge_grid:
  assumes "of_int n * spacing x \<le> x" shows "of_int n * spacing x \<le> fl x"
proof -
  have "of_int n \<le> x / spacing x" using assms by (simp add: le_divide_eq)
  then have "n \<le> round_even (x / spacing x)" by (metis round_even_mono round_even_of_int)
  then show ?thesis by (simp add: fl_def)
qed

lemma powi_grid:
  assumes "e \<le> b" shows "\<exists>n. (2::rat) powi b = of_int n * 2 powi e"
proof
  have "(2::rat) powi b = 2 powi (b - e) * 2 powi e"
    by (simp flip: power_int_add)
  also have "(2::rat) powi (b - e) = of_int (2 ^ nat (b - e))"
    using assms by (simp add: power_int_def)
  finally show "(2::rat) powi b = of_int (2 ^ nat (b - e)) * 2 powi e" .
qed

lemma binade_mono:
  assumes "0 < x" "x \<le> y" shows "binade x \<le> binade y"
proof (rule ccontr)
  assume "\<not> binade x \<le> binade y"
  then have "(2::rat) powi (binade y + 1) \<le> 2 powi binade x" by (intro power_int_increasing) auto
  moreover have "2 powi binade x \<le> x" "y < 2 powi (binade y + 1)"
    using binade_bounds assms by auto
  ultimately show False using assms by linarith
qed

lemma fl_mono_pos:
  assumes "0 < x" "x \<le> y" shows "fl x \<le> fl y"
proof (cases "spacing x = spacing y")
  case True
  have "x / spacing y \<le> y / spacing y"
    by (rule divide_right_mono) (use assms less_imp_le [OF spacing_pos] in auto)
  then show ?thesis by (simp add: fl_def True round_even_mono)
next
  case False
  let ?b = "binade y"
  have le: "binade x \<le> ?b" using assms by (rule binade_mono)
  have ne: "max (binade x - 52) (- 1074) \<noteq> max (?b - 52) (- 1074)"
    using False assms by (auto simp: spacing_def)
  then have e: "max (binade x - 52) (- 1074) < ?b - 52" and ey: "spacing y = 2 powi (?b - 52)"
    using le assms by (auto simp: spacing_def max_def split: if_splits)
  obtain n where n: "(2::rat) powi ?b = of_int n * 2 powi (max (binade x - 52) (- 1074))"
    using powi_grid [of "max (binade x - 52) (- 1074)" ?b] e by auto
  obtain m where m: "(2::rat) powi ?b = of_int m * 2 powi (?b - 52)"
    using powi_grid [of "?b - 52" ?b] by auto
  have "binade x + 1 \<le> ?b" using e by auto
  then have "(2::rat) powi (binade x + 1) \<le> 2 powi ?b" by (intro power_int_increasing) auto
  then have "x \<le> 2 powi ?b" using binade_bounds [of x] assms by linarith
  then have "fl x \<le> 2 powi ?b"
    using fl_le_grid [of x n] n assms by (simp add: spacing_def)
  moreover have "2 powi ?b \<le> fl y"
    using fl_ge_grid [of m y] m ey binade_bounds [of y] assms by simp
  ultimately show ?thesis by linarith
qed

lemma fl_nonneg: "0 \<le> x \<Longrightarrow> 0 \<le> fl x"
  using fl_ge_grid [of 0 x] by simp

lemma fl_mono: "x \<le> y \<Longrightarrow> fl x \<le> fl y"
proof -
  assume le: "x \<le> y"
  consider "0 < x" | "x \<le> 0" "0 \<le> y" | "y < 0" using le by linarith
  then show ?thesis
  proof cases
    case 1
    then show ?thesis using le by (rule fl_mono_pos)
  next
    case 2
    then show ?thesis using fl_nonneg [of "- x"] fl_nonneg [of y] by (simp add: fl_minus)
  next
    case 3
    then show ?thesis using fl_mono_pos [of "- y" "- x"] le by (simp add: fl_minus)
  qed
qed

lemma fl_of_int:
  assumes "\<bar>n\<bar> \<le> 2 ^ 53" shows "fl (of_int n) = of_int n"
proof -
  have pos: "fl (of_int n) = of_int n" if "0 < n" "n \<le> 2 ^ 53" for n
  proof -
    have b: "2 powi binade (of_int n) \<le> (of_int n :: rat)" "(of_int n :: rat) < 2 powi (binade (of_int n) + 1)"
      using binade_bounds [of "of_int n"] that by auto
    have "(of_int n :: rat) \<le> 2 ^ 53" using that(2) by (metis of_int_le_iff of_int_numeral of_int_power)
    then have "(2::rat) powi binade (of_int n) \<le> 2 powi 53" using b(1) by simp
    then have hi: "binade (of_int n :: rat) \<le> 53"
      by (rule power_int_le_imp_le_exp [rotated]) simp_all
    have "(2::rat) powi 0 < 2 powi (binade (of_int n) + 1)" using b(2) that(1) by simp
    then have lo: "0 \<le> binade (of_int n :: rat)"
      using power_int_increasing [of "binade (of_int n :: rat) + 1" 0 "2 :: rat"] by fastforce
    show ?thesis
    proof (cases "binade (of_int n) = 53")
      case True
      then have "n = 2 ^ 53" using b(1) that(2) by (simp add: power_int_def)
      then have "(of_int n :: rat) = of_int (2 ^ 52) * spacing (of_int n)"
        using True that by (simp add: spacing_def power_int_def)
      then show ?thesis by (rule fl_grid)
    next
      case False
      then have s: "spacing (of_int n) = 2 powi (binade (of_int n) - 52)" and le: "binade (of_int n) - 52 \<le> 0"
        using hi lo that by (auto simp: spacing_def)
      obtain m where "(2::rat) powi 0 = of_int m * 2 powi (binade (of_int n) - 52)"
        using powi_grid [OF le] by auto
      then have "(of_int n :: rat) = of_int (n * m) * spacing (of_int n)" by (simp add: s)
      then show ?thesis by (rule fl_grid)
    qed
  qed
  consider "0 < n" | "n = 0" | "0 < - n" by linarith
  then show ?thesis
  proof cases
    case 1
    then show ?thesis using pos assms by simp
  next
    case 2
    then show ?thesis by simp
  next
    case 3
    then show ?thesis using pos [of "- n"] assms by (simp add: fl_minus)
  qed
qed

subsection \<open>Arithmetic and comparisons of the code\<close>

definition js_isFinite :: "jsnum \<Rightarrow> bool" where
  "js_isFinite a = (case a of Fin _ \<Rightarrow> True | _ \<Rightarrow> False)"

definition js_isInteger :: "jsnum \<Rightarrow> bool" where
  "js_isInteger a = (case a of Fin x \<Rightarrow> of_int \<lfloor>x\<rfloor> = x | _ \<Rightarrow> False)"

fun js_less :: "jsnum \<Rightarrow> jsnum \<Rightarrow> bool" where
  "js_less (Fin x) (Fin y) = (x < y)"
| "js_less NaN b = False"
| "js_less a NaN = False"
| "js_less PosInf b = False"
| "js_less a PosInf = True"
| "js_less NegInf NegInf = False"
| "js_less NegInf (Fin y) = True"
| "js_less (Fin x) NegInf = False"

text \<open>\<open>a * b\<close>: an infinity times zero is \<open>NaN\<close>, otherwise the signs decide.\<close>

fun js_sign :: "jsnum \<Rightarrow> int" where
  "js_sign NaN = 0"
| "js_sign PosInf = 1"
| "js_sign NegInf = -1"
| "js_sign (Fin x) = (if 0 < x then 1 else if x < 0 then -1 else 0)"

definition js_mul :: "jsnum \<Rightarrow> jsnum \<Rightarrow> jsnum" where
  "js_mul a b = (case (a, b) of
       (Fin x, Fin y) \<Rightarrow> js_fin (x * y)
     | _ \<Rightarrow> if js_sign a * js_sign b = 0 then NaN
           else if 0 < js_sign a * js_sign b then PosInf else NegInf)"

text \<open>\<open>Math.min(a, b)\<close>: \<open>NaN\<close> if either is.\<close>

definition js_min :: "jsnum \<Rightarrow> jsnum \<Rightarrow> jsnum" where
  "js_min a b = (if a = NaN \<or> b = NaN then NaN else if js_less b a then b else a)"

text \<open>\<open>Math.pow(2, n)\<close> for an integer \<open>n\<close>.\<close>

definition js_pow2 :: "int \<Rightarrow> jsnum" where
  "js_pow2 n = js_fin (2 powi n)"

lemma js_min_Fin: "js_min (Fin x) (Fin y) = Fin (min x y)"
  by (simp add: js_min_def min_def)

lemma js_min_PosInf: "js_min PosInf (Fin y) = Fin y"
  by (simp add: js_min_def)

lemma js_fin_cases:
  "0 \<le> x \<Longrightarrow> js_fin x = Fin (fl x) \<and> fl x \<le> max_double \<or> js_fin x = PosInf \<and> max_double < fl x"
proof -
  assume "0 \<le> x"
  then have "0 \<le> fl x" by (rule fl_nonneg)
  moreover have "0 \<le> max_double" by (simp add: max_double_def)
  ultimately show ?thesis by (auto simp: js_fin_def Let_def)
qed

subsection \<open>The interface of rounding\<close>

text \<open>
  What the components rely on.  \<open>cap\<close> is a bound the code takes a minimum with: below it a
  rounded value is finite and keeps its order.
\<close>

locale rounding =
  fixes rnd :: "rat \<Rightarrow> rat"
  assumes rnd_mono: "x \<le> y \<Longrightarrow> rnd x \<le> rnd y"
    and rnd_int: "\<bar>n\<bar> \<le> 2 ^ 53 \<Longrightarrow> rnd (of_int n) = of_int n"
begin

lemma rnd_ge_int: "\<bar>n\<bar> \<le> 2 ^ 53 \<Longrightarrow> of_int n \<le> x \<Longrightarrow> of_int n \<le> rnd x"
  using rnd_mono [of "of_int n" x] rnd_int [of n] by simp

lemma rnd_le_int: "\<bar>n\<bar> \<le> 2 ^ 53 \<Longrightarrow> x \<le> of_int n \<Longrightarrow> rnd x \<le> of_int n"
  using rnd_mono [of x "of_int n"] rnd_int [of n] by simp

end

interpretation dbl: rounding fl
  by unfold_locales (auto intro: fl_mono fl_of_int)

lemma js_min_js_fin:
  assumes "0 \<le> x" "0 \<le> n" "n \<le> 2 ^ 53"
  shows "js_min (js_fin x) (Fin (of_int n)) = Fin (min (fl x) (of_int n))"
proof -
  have "(of_int n :: rat) \<le> 2 ^ 53" using assms(3) by (metis of_int_le_iff of_int_numeral of_int_power)
  also have "\<dots> \<le> max_double" by (simp add: max_double_def)
  finally have "of_int n \<le> max_double" .
  then show ?thesis using js_fin_cases [OF assms(1)]
    by (auto simp: js_min_Fin js_min_PosInf min_def)
qed

end
