(* ===== verification/Types.thy ===== *)
theory Types
  imports JsNumber
begin

section \<open>The domain types (packages/shared/src/types.ts)\<close>

text \<open>
  The interfaces of \<open>types.ts\<close> as records, its unions of string literals as datatypes.
  Field names carry a prefix, since a record field is a global constant.  An optional field
  \<open>f?: T\<close> is a \<open>T option\<close>; a \<open>Date\<close> is the number of milliseconds since the epoch;
  an \<open>unknown\<close> value is a \<open>jsval\<close>, and \<open>Record<string, unknown>\<close> an association list in
  the order of \<open>Object.keys\<close>.
\<close>

datatype jsval =
    JUndefined
  | JNull
  | JBool bool
  | JNum jsnum
  | JStr string
  | JArr "jsval list"
  | JObj "(string \<times> jsval) list"

text \<open>\<open>!!v\<close>: the values JavaScript treats as false are undefined, null, false, 0, NaN and the
  empty string.\<close>

fun truthy :: "jsval \<Rightarrow> bool" where
  "truthy JUndefined = False"
| "truthy JNull = False"
| "truthy (JBool b) = b"
| "truthy (JNum n) = (n \<noteq> NaN \<and> n \<noteq> Fin 0)"
| "truthy (JStr s) = (s \<noteq> [])"
| "truthy (JArr vs) = True"
| "truthy (JObj ps) = True"

text \<open>A string value, or a missing one, in a condition: \<open>if (s)\<close>.\<close>

definition truthy_str :: "string option \<Rightarrow> bool" where
  "truthy_str s = (case s of None \<Rightarrow> False | Some cs \<Rightarrow> cs \<noteq> [])"

type_synonym js_record = "(string \<times> jsval) list"
type_synonym date = int

datatype Strategy = Fixed | Exponential | Linear

record RetryPolicy =
  strategy :: Strategy
  maxAttempts :: jsnum
  baseDelay :: jsnum

record TaskDefinition =
  td_id :: string
  td_workflowId :: string
  td_name :: string
  td_type :: string
  td_config :: js_record
  td_timeoutMs :: jsnum
  td_retryPolicy :: "RetryPolicy option"

record Edge =
  e_id :: string
  e_workflowId :: string
  sourceTaskId :: string
  targetTaskId :: string
  conditionExpr :: "string option"

datatype ExecutionStatus = ExPending | ExRunning | ExCompleted | ExFailed | ExCancelled

datatype TaskStatus = Pending | Running | Completed | Failed | Cancelled | TimedOut | Skipped

record Execution =
  ex_id :: string
  ex_workflowId :: string
  ex_status :: ExecutionStatus
  ex_input :: "jsval option"
  ex_startedAt :: "date option"
  ex_completedAt :: "date option"
  ex_createdAt :: date

record TaskState =
  ts_id :: string
  ts_executionId :: string
  ts_taskDefinitionId :: string
  ts_status :: TaskStatus
  ts_attemptCount :: int
  ts_output :: "jsval option"
  ts_error :: "string option"
  ts_startedAt :: "date option"
  ts_completedAt :: "date option"

text \<open>The names of the task statuses, as template strings and the database show them.\<close>

fun show_status :: "TaskStatus \<Rightarrow> string" where
  "show_status Pending = ''pending''"
| "show_status Running = ''running''"
| "show_status Completed = ''completed''"
| "show_status Failed = ''failed''"
| "show_status Cancelled = ''cancelled''"
| "show_status TimedOut = ''timed_out''"
| "show_status Skipped = ''skipped''"

lemma show_status_inj: "show_status s = show_status t \<Longrightarrow> s = t"
  by (cases s; cases t) simp_all

text \<open>A task and an edge with nothing but their identifiers, for the examples.\<close>

definition plain_task :: "string \<Rightarrow> TaskDefinition" where
  "plain_task i = \<lparr>td_id = i, td_workflowId = ''w'', td_name = i, td_type = ''http'', td_config = [],
     td_timeoutMs = Fin 300000, td_retryPolicy = None\<rparr>"

definition plain_edge :: "string \<Rightarrow> string \<Rightarrow> Edge" where
  "plain_edge u v = \<lparr>e_id = [], e_workflowId = ''w'', sourceTaskId = u, targetTaskId = v,
     conditionExpr = None\<rparr>"

lemma plain_simps [simp]:
  "td_id (plain_task i) = i" "td_name (plain_task i) = i" "td_type (plain_task i) = ''http''"
  "sourceTaskId (plain_edge u v) = u" "targetTaskId (plain_edge u v) = v"
  "conditionExpr (plain_edge u v) = None"
  by (simp_all add: plain_task_def plain_edge_def)

end
