(* ===== verification/DagValidator.thy ===== *)
theory DagValidator
  imports Types
begin

section \<open>DAG validation (packages/shared/src/dag/dag-validator.ts)\<close>

text \<open>
  The three checks of \<open>validateDAG\<close>: edge references, cycles (a depth-first search that
  colours nodes white, gray and black), and reachability from the roots (a breadth-first
  search).  The search state is a record: the \<open>color\<close> map, the current \<open>path\<close> and the set
  \<open>cycleNodes\<close>, all mutated by the inner function \<open>dfs\<close> of the source.  An element of
  \<open>cycleNodes\<close> is an option, since the source can add \<open>path[-1]\<close>, which is \<open>undefined\<close>.
\<close>

datatype error_type = cycle_detected | invalid_edge_reference | unreachable_nodes

record DAGValidationError =
  dv_type :: error_type
  dv_message :: string
  dv_nodes :: "string option list option"
  dv_edges :: "(string \<times> string) list option"

record DAGValidationResult =
  dv_valid :: bool
  dv_errors :: "DAGValidationError list"

subsection \<open>The adjacency list\<close>

definition add_edge :: "Edge \<Rightarrow> (string \<times> string list) list \<Rightarrow> (string \<times> string list) list" where
  "add_edge e adjacency = (case map_of adjacency (sourceTaskId e) of
       None \<Rightarrow> adjacency
     | Some neighbors \<Rightarrow> AList.update (sourceTaskId e) (neighbors @ [targetTaskId e]) adjacency)"

definition init_map :: "'v \<Rightarrow> TaskDefinition list \<Rightarrow> (string \<times> 'v) list" where
  "init_map v tasks = fold (\<lambda>t. AList.update (td_id t) v) tasks []"

definition buildAdjacencyList :: "TaskDefinition list \<Rightarrow> Edge list \<Rightarrow> (string \<times> string list) list" where
  "buildAdjacencyList tasks edges = fold add_edge edges (init_map [] tasks)"

subsection \<open>Cycle detection\<close>

datatype color = WHITE | GRAY | BLACK

record dfs_state =
  color :: "(string \<times> color) list"
  path :: "string list"
  cycleNodes :: "string option list"

definition neighbors_of :: "(string \<times> string list) list \<Rightarrow> string \<Rightarrow> string list" where
  "neighbors_of adjacency nodeId = (case map_of adjacency nodeId of None \<Rightarrow> [] | Some ns \<Rightarrow> ns)"

definition enter :: "string \<Rightarrow> ('a dfs_state_scheme) \<Rightarrow> 'a dfs_state_scheme" where
  "enter nodeId st = st\<lparr>color := AList.update nodeId GRAY (color st), path := path st @ [nodeId]\<rparr>"

definition leave :: "string \<Rightarrow> ('a dfs_state_scheme) \<Rightarrow> 'a dfs_state_scheme" where
  "leave nodeId st = st\<lparr>color := AList.update nodeId BLACK (color st), path := butlast (path st)\<rparr>"

text \<open>
  The cycle found at a gray neighbour: \<open>path\<close> from the neighbour's index on, then the
  neighbour.  When the neighbour is not on the path the index is -1 and \<open>path[-1]\<close> is added.
\<close>

definition collect_cycle :: "string \<Rightarrow> ('a dfs_state_scheme) \<Rightarrow> 'a dfs_state_scheme" where
  "collect_cycle neighbor st =
     (let cycleStart = js_indexOf neighbor (path st)
      in st\<lparr>cycleNodes := set_add (Some neighbor)
             (set_add_all (map (js_index (path st)) [cycleStart .. int (length (path st)) - 1])
               (cycleNodes st))\<rparr>)"

text \<open>The inner function \<open>dfs\<close> and its loop over the neighbours; \<open>True\<close> says a cycle was found.\<close>

function dfs :: "(string \<times> string list) list \<Rightarrow> string \<Rightarrow> dfs_state \<Rightarrow> bool \<times> dfs_state"
  and dfs_loop :: "(string \<times> string list) list \<Rightarrow> string list \<Rightarrow> dfs_state \<Rightarrow> bool \<times> dfs_state" where
  "dfs adjacency nodeId st =
     (case dfs_loop adjacency (neighbors_of adjacency nodeId) (enter nodeId st) of
        (True, st') \<Rightarrow> (True, st')
      | (False, st') \<Rightarrow> (False, leave nodeId st'))"
| "dfs_loop adjacency [] st = (False, st)"
| "dfs_loop adjacency (neighbor # neighbors) st =
     (if map_of (color st) neighbor = Some GRAY then (True, collect_cycle neighbor st)
      else if map_of (color st) neighbor = Some WHITE then
        (case dfs adjacency neighbor st of
           (True, st') \<Rightarrow> (True, st')
         | (False, st') \<Rightarrow> dfs_loop adjacency neighbors st')
      else dfs_loop adjacency neighbors st)"
  by pat_completeness auto

definition whites :: "'a dfs_state_scheme \<Rightarrow> nat" where
  "whites st = count_value WHITE (color st)"

lemma whites_enter_le: "whites (enter n st) \<le> whites st"
  by (simp add: whites_def enter_def count_value_update_le)

lemma whites_enter_less: "map_of (color st) n = Some WHITE \<Longrightarrow> whites (enter n st) < whites st"
  by (simp add: whites_def enter_def count_value_update_less)

lemma whites_leave_le: "whites (leave n st) \<le> whites st"
  by (simp add: whites_def leave_def count_value_update_le)

lemma whites_collect [simp]: "whites (collect_cycle n st) = whites st"
  by (simp add: whites_def collect_cycle_def Let_def)

text \<open>A call never makes a node white again: what the nested recursion terminates by.\<close>

lemma dfs_whites_dom:
  "dfs_dfs_loop_dom (Inl (adjacency, n, st)) \<Longrightarrow> whites (snd (dfs adjacency n st)) \<le> whites st"
  "dfs_dfs_loop_dom (Inr (adjacency, ns, st)) \<Longrightarrow> whites (snd (dfs_loop adjacency ns st)) \<le> whites st"
proof (induction adjacency n st and adjacency ns st rule: dfs_dfs_loop.pinduct)
  case (1 adjacency n st)
  then have "whites (snd (dfs_loop adjacency (neighbors_of adjacency n) (enter n st))) \<le> whites st"
    using whites_enter_le order_trans by blast
  then show ?case using 1(1) whites_leave_le order_trans
    by (fastforce simp: dfs.psimps split: prod.splits bool.splits)
next
  case (2 adjacency st)
  then show ?case by (simp add: dfs_loop.psimps)
next
  case (3 adjacency n ns st)
  then show ?case
    by (fastforce simp: dfs_loop.psimps split: prod.splits bool.splits)
qed

termination dfs
proof (relation "inv_image (less_than <*lex*> less_than <*lex*> less_than)
    (\<lambda>x. case x of Inl (adjacency, n, st) \<Rightarrow> (whites (enter n st), Suc 0, 0)
       | Inr (adjacency, ns, st) \<Rightarrow> (whites st, 0, length ns))", goal_cases)
  case 1
  then show ?case by (auto intro!: wf_inv_image)
next
  case (2 adjacency n st)
  then show ?case by simp
next
  case (3 adjacency n ns st)
  then show ?case by (simp add: whites_enter_less)
next
  case (4 adjacency n ns st x st')
  then show ?case using dfs_whites_dom(1) [of adjacency n st]
    by (cases "dfs adjacency n st") (auto simp: le_less)
next
  case (5 adjacency n ns st)
  then show ?case by simp
qed

declare dfs.simps [simp del] dfs_loop.simps [simp del]

definition detectCycles_step ::
    "(string \<times> string list) list \<Rightarrow> TaskDefinition \<Rightarrow> dfs_state \<Rightarrow> dfs_state" where
  "detectCycles_step adjacency task st =
     (if map_of (color st) (td_id task) = Some WHITE
      then snd (dfs adjacency (td_id task) (st\<lparr>path := []\<rparr>)) else st)"

definition detectCycles :: "TaskDefinition list \<Rightarrow> Edge list \<Rightarrow> string option list" where
  "detectCycles tasks edges =
     (let adjacency = buildAdjacencyList tasks edges
      in cycleNodes (fold (detectCycles_step adjacency) tasks
           \<lparr>color = init_map WHITE tasks, path = [], cycleNodes = []\<rparr>))"

subsection \<open>Edge references\<close>

definition validateEdgeReferences :: "TaskDefinition list \<Rightarrow> Edge list \<Rightarrow> (string \<times> string) list" where
  "validateEdgeReferences tasks edges =
     (let taskIds = td_id ` set tasks
      in map (\<lambda>e. (sourceTaskId e, targetTaskId e))
           (filter (\<lambda>e. sourceTaskId e \<notin> taskIds \<or> targetTaskId e \<notin> taskIds) edges))"

subsection \<open>Reachability\<close>

definition count_incoming :: "Edge \<Rightarrow> (string \<times> nat) list \<Rightarrow> (string \<times> nat) list" where
  "count_incoming e incomingCount = (case map_of incomingCount (targetTaskId e) of
       None \<Rightarrow> incomingCount
     | Some n \<Rightarrow> AList.update (targetTaskId e) (n + 1) incomingCount)"

text \<open>The \<open>while (queue.length > 0)\<close> loop; \<open>visited\<close> is a set in insertion order.\<close>

function bfs :: "Edge list \<Rightarrow> string list \<Rightarrow> string list \<Rightarrow> string list" where
  "bfs edges [] visited = visited"
| "bfs edges (current # queue) visited =
     (if current \<in> set visited then bfs edges queue visited
      else let visited' = visited @ [current];
               neighbors = map targetTaskId (filter (\<lambda>e. sourceTaskId e = current) edges)
           in bfs edges (queue @ filter (\<lambda>n. n \<notin> set visited') neighbors) visited')"
  by pat_completeness auto
termination bfs
proof (relation "inv_image (finite_psubset <*lex*> less_than)
    (\<lambda>(edges, queue, visited). ((set queue \<union> targetTaskId ` set edges) - set visited, length queue))", goal_cases)
  case 1
  then show ?case by (auto intro!: wf_inv_image)
next
  case (2 edges current queue visited)
  then have "(set (current # queue) \<union> targetTaskId ` set edges) - set visited
      = (set queue \<union> targetTaskId ` set edges) - set visited" by auto
  then show ?case by simp
next
  case (3 edges current queue visited visited' neighbors)
  then show ?case by (auto simp: finite_psubset_def)
qed

definition checkReachability :: "TaskDefinition list \<Rightarrow> Edge list \<Rightarrow> string list" where
  "checkReachability tasks edges =
     (let incomingCount = fold count_incoming edges (init_map 0 tasks);
          roots = filter (\<lambda>t. map_of incomingCount (td_id t) = Some 0) tasks;
          visited = bfs edges (map td_id roots) []
      in map td_id (filter (\<lambda>t. td_id t \<notin> set visited) tasks))"

subsection \<open>The orchestration\<close>

definition validateDAG :: "TaskDefinition list \<Rightarrow> Edge list \<Rightarrow> DAGValidationResult" where
  "validateDAG tasks edges =
     (let invalidEdges = validateEdgeReferences tasks edges;
          errors1 = (if invalidEdges = [] then [] else
            [\<lparr>dv_type = invalid_edge_reference,
              dv_message = ''Found '' @ show_nat (length invalidEdges)
                 @ '' edge(s) referencing non-existent task definitions'',
              dv_nodes = None, dv_edges = Some invalidEdges\<rparr>]);
          taskIds = td_id ` set tasks;
          validEdges = filter (\<lambda>e. sourceTaskId e \<in> taskIds \<and> targetTaskId e \<in> taskIds) edges;
          cycle = detectCycles tasks validEdges;
          errors2 = (if cycle = [] then [] else
            [\<lparr>dv_type = cycle_detected,
              dv_message = ''Cycle detected involving '' @ show_nat (length cycle) @ '' node(s)'',
              dv_nodes = Some cycle, dv_edges = None\<rparr>]);
          unreachable = checkReachability tasks validEdges;
          errors3 = (if cycle = [] \<and> unreachable \<noteq> [] then
            [\<lparr>dv_type = unreachable_nodes,
              dv_message = ''Found '' @ show_nat (length unreachable)
                 @ '' node(s) not reachable from any root task'',
              dv_nodes = Some (map Some unreachable), dv_edges = None\<rparr>] else []);
          errors = errors1 @ errors2 @ errors3
      in \<lparr>dv_valid = (errors = []), dv_errors = errors\<rparr>)"

end
