(* ===== verification/DagSearch.thy ===== *)
theory DagSearch
  imports DagValidator
begin

section \<open>What the depth-first search finds\<close>

text \<open>
  The invariant of \<open>dfs\<close> on the graph of the adjacency list, and its two outcomes: without a
  cycle the node and everything below it is black, and no black node lies on a cycle; with a
  cycle, every node still gray reaches one.  The latter also covers a search that meets the
  gray nodes an earlier, aborted search left behind.
\<close>

definition adj_graph :: "(string \<times> string list) list \<Rightarrow> string set \<Rightarrow> (string \<times> string) set" where
  "adj_graph adjacency K = {(u, v). u \<in> K \<and> v \<in> K \<and> v \<in> set (neighbors_of adjacency u)}"

definition grays :: "'a dfs_state_scheme \<Rightarrow> string set" where
  "grays st = {u. map_of (color st) u = Some GRAY}"

definition blacks :: "'a dfs_state_scheme \<Rightarrow> string set" where
  "blacks st = {u. map_of (color st) u = Some BLACK}"

text \<open>What holds between any two steps of the search, on a path or after an aborted one.\<close>

definition base_inv :: "(string \<times> string) set \<Rightarrow> string set \<Rightarrow> 'a dfs_state_scheme \<Rightarrow> bool" where
  "base_inv E K st \<longleftrightarrow>
     dom (map_of (color st)) = K \<and>
     E `` blacks st \<subseteq> blacks st \<and>
     (\<forall>u\<in>blacks st. (u, u) \<notin> E\<^sup>+) \<and>
     (\<forall>x. Some x \<in> set (cycleNodes st) \<longrightarrow> reaches_cycle E x)"

definition search_inv :: "(string \<times> string) set \<Rightarrow> string set \<Rightarrow> 'a dfs_state_scheme \<Rightarrow> bool" where
  "search_inv E K st \<longleftrightarrow>
     base_inv E K st \<and>
     set (path st) \<subseteq> grays st \<and> distinct (path st) \<and>
     successively (\<lambda>u v. (u, v) \<in> E) (path st) \<and>
     (\<forall>u\<in>grays st - set (path st). reaches_cycle E u)"

text \<open>The outcome of a search that found a cycle, started from \<open>st\<close>.\<close>

definition found_cycle :: "(string \<times> string) set \<Rightarrow> string set \<Rightarrow> 'a dfs_state_scheme \<Rightarrow> 'b dfs_state_scheme \<Rightarrow> bool" where
  "found_cycle E K st st' \<longleftrightarrow>
     base_inv E K st' \<and> (\<forall>u\<in>grays st'. reaches_cycle E u) \<and>
     cycleNodes st' \<noteq> [] \<and> \<not> acyclic E \<and>
     (grays st = set (path st) \<and> cycleNodes st = [] \<longrightarrow>
        (\<exists>c. cycleNodes st' = map Some c \<and> is_cycle E c))"

text \<open>The outcome of a search that found none: nothing but blackened nodes has changed.\<close>

definition no_cycle :: "(string \<times> string) set \<Rightarrow> string set \<Rightarrow> 'a dfs_state_scheme \<Rightarrow> 'b dfs_state_scheme \<Rightarrow> bool" where
  "no_cycle E K st st' \<longleftrightarrow>
     search_inv E K st' \<and> path st' = path st \<and> grays st' = grays st \<and>
     blacks st \<subseteq> blacks st' \<and> cycleNodes st' = cycleNodes st"

lemmas search_defs = search_inv_def base_inv_def

lemma color_enter [simp]: "map_of (color (enter n st)) = (map_of (color st))(n \<mapsto> GRAY)"
  by (simp add: enter_def)

lemma color_leave [simp]: "map_of (color (leave n st)) = (map_of (color st))(n \<mapsto> BLACK)"
  by (simp add: leave_def)

lemma path_enter [simp]: "path (enter n st) = path st @ [n]"
  by (simp add: enter_def)

lemma path_leave [simp]: "path (leave n st) = butlast (path st)"
  by (simp add: leave_def)

lemma cycleNodes_enter [simp]: "cycleNodes (enter n st) = cycleNodes st"
  by (simp add: enter_def)

lemma cycleNodes_leave [simp]: "cycleNodes (leave n st) = cycleNodes st"
  by (simp add: leave_def)

lemma color_collect [simp]: "color (collect_cycle n st) = color st"
  by (simp add: collect_cycle_def Let_def)

lemma grays_enter: "grays (enter n st) = insert n (grays st)"
  by (auto simp: grays_def)

lemma blacks_enter: "map_of (color st) n \<noteq> Some BLACK \<Longrightarrow> blacks (enter n st) = blacks st"
  by (auto simp: blacks_def)

lemma grays_leave: "grays (leave n st) = grays st - {n}"
  by (auto simp: grays_def)

lemma blacks_leave: "blacks (leave n st) = insert n (blacks st)"
  by (auto simp: blacks_def)

lemma grays_collect [simp]: "grays (collect_cycle n st) = grays st"
  by (simp add: grays_def)

lemma blacks_collect [simp]: "blacks (collect_cycle n st) = blacks st"
  by (simp add: blacks_def)

subsection \<open>Entering a white node\<close>

lemma search_inv_enter:
  assumes inv: "search_inv E K st" and white: "map_of (color st) n = Some WHITE"
    and edge: "path st \<noteq> [] \<Longrightarrow> (last (path st), n) \<in> E"
  shows "search_inv E K (enter n st)"
proof -
  have fresh: "n \<notin> set (path st)" using inv white by (auto simp: search_inv_def grays_def)
  have "n \<in> K" using inv white by (auto simp: search_defs)
  then have "dom (map_of (color (enter n st))) = K" using inv by (auto simp: search_defs)
  moreover have "blacks (enter n st) = blacks st" using white by (simp add: blacks_enter)
  moreover have "successively (\<lambda>u v. (u, v) \<in> E) (path st @ [n])"
    using inv edge by (auto simp: search_inv_def successively_append_iff)
  ultimately show ?thesis using inv fresh by (auto simp: search_defs grays_enter)
qed

subsection \<open>Leaving a node all of whose neighbours are black\<close>

lemma black_not_reaching:
  assumes "E `` B \<subseteq> B" "u \<in> B" "(u, v) \<in> E\<^sup>*" shows "v \<in> B"
  using assms(3,2) by (induction rule: rtrancl_induct) (use assms(1) in auto)

lemma base_inv_leave:
  assumes inv: "base_inv E K st" and n: "n \<in> grays st" and succ: "E `` {n} \<subseteq> blacks st"
  shows "base_inv E K (leave n st)"
proof -
  have notblack: "n \<notin> blacks st" using n by (auto simp: grays_def blacks_def)
  have "(n, n) \<notin> E\<^sup>+"
  proof
    assume "(n, n) \<in> E\<^sup>+"
    then obtain v where "(n, v) \<in> E" "(v, n) \<in> E\<^sup>*" by (auto dest: tranclD)
    then show False using black_not_reaching [of E "blacks st" v n] inv succ notblack
      by (auto simp: base_inv_def)
  qed
  moreover have "dom (map_of (color (leave n st))) = K"
    using inv n by (auto simp: base_inv_def grays_def)
  ultimately show ?thesis using inv succ by (auto simp: base_inv_def blacks_leave)
qed

lemma no_cycle_leave:
  assumes nc: "no_cycle E K (enter n st) st'" and white: "map_of (color st) n = Some WHITE"
    and succ: "E `` {n} \<subseteq> blacks st'"
  shows "no_cycle E K st (leave n st')" and "n \<in> blacks (leave n st')"
proof -
  have p: "path st' = path st @ [n]" and g: "grays st' = insert n (grays st)"
    and b: "blacks st \<subseteq> blacks st'" and c: "cycleNodes st' = cycleNodes st"
    using nc white by (auto simp: no_cycle_def grays_enter blacks_enter)
  have nogray: "n \<notin> grays st" using white by (auto simp: grays_def)
  have inv': "search_inv E K st'" using nc by (simp add: no_cycle_def)
  then have "base_inv E K (leave n st')"
    using base_inv_leave [of E K st' n] succ g by (simp add: search_inv_def)
  moreover have "grays (leave n st') = grays st" using g nogray by (auto simp: grays_leave)
  moreover have "successively (\<lambda>u v. (u, v) \<in> E) (path st)"
    using inv' p by (auto simp: search_inv_def successively_append_iff)
  moreover have "set (path st) \<subseteq> grays st"
    using inv' p g by (auto simp: search_inv_def)
  ultimately show "no_cycle E K st (leave n st')"
    using inv' p g b c nogray by (auto simp: no_cycle_def search_inv_def blacks_leave)
  show "n \<in> blacks (leave n st')" by (simp add: blacks_leave)
qed

subsection \<open>Meeting a gray node\<close>

lemma collect_on_path:
  assumes "path st = as @ v # bs" "v \<notin> set as"
  shows "cycleNodes (collect_cycle v st) = set_add_all (map Some (v # bs)) (cycleNodes st)"
proof -
  have "map (js_index (path st)) [js_indexOf v (path st) .. int (length (path st)) - 1] = map Some (v # bs)"
    using map_js_index_suffix [of as "v # bs"] js_indexOf_split [of v as bs] assms by simp
  then show ?thesis by (simp add: collect_cycle_def Let_def js_simps)
qed

lemma set_collect_subset:
  "Some x \<in> set (cycleNodes (collect_cycle v st)) \<Longrightarrow>
     x = v \<or> x \<in> set (path st) \<or> Some x \<in> set (cycleNodes st)"
  by (auto simp: collect_cycle_def Let_def js_index_def split: if_splits)

lemma found_cycle_collect:
  assumes inv: "search_inv E K st" and gray: "v \<in> grays st"
    and edge: "path st \<noteq> []" "(last (path st), v) \<in> E"
  shows "found_cycle E K st (collect_cycle v st)"
proof -
  have chain: "successively (\<lambda>u v. (u, v) \<in> E) (path st)" using inv by (simp add: search_inv_def)
  have cyc: "is_cycle E (v # bs)" if "path st = as @ v # bs" for as bs
    using inv chain edge that by (auto simp: is_cycle_def search_inv_def successively_append_iff)
  have rv: "reaches_cycle E v"
  proof (cases "v \<in> set (path st)")
    case True
    then obtain as bs where "path st = as @ v # bs" by (auto dest: split_list)
    then have "(v, v) \<in> E\<^sup>+" using is_cycle_trancl [OF cyc] by simp
    then show ?thesis by (auto simp: reaches_cycle_def)
  next
    case False
    then show ?thesis using inv gray by (auto simp: search_inv_def)
  qed
  have rp: "reaches_cycle E u" if "u \<in> set (path st)" for u
    using successively_last_rtrancl [OF chain that] reaches_cycle_step [OF edge(2) rv]
    by (rule reaches_cycle_rtrancl)
  have "\<forall>x. Some x \<in> set (cycleNodes (collect_cycle v st)) \<longrightarrow> reaches_cycle E x"
    using rv rp inv by (auto dest!: set_collect_subset simp: search_defs)
  then have "base_inv E K (collect_cycle v st)" using inv by (auto simp: search_defs)
  moreover have "\<forall>u\<in>grays st. reaches_cycle E u" using inv rp by (auto simp: search_inv_def)
  moreover have "cycleNodes (collect_cycle v st) \<noteq> []"
    by (simp add: collect_cycle_def Let_def)
  moreover have "\<not> acyclic E" using rv by (auto simp: reaches_cycle_def acyclic_def)
  moreover have "\<exists>c. cycleNodes (collect_cycle v st) = map Some c \<and> is_cycle E c"
    if fresh: "grays st = set (path st)" "cycleNodes st = []"
  proof -
    obtain as bs where split: "path st = as @ v # bs" and "v \<notin> set as"
      using gray fresh by (auto dest!: split_list_first)
    have "distinct (v # bs)" using inv split by (auto simp: search_inv_def)
    then have "set_add_all (map Some (v # bs)) [] = map Some (v # bs)"
      using set_add_all_distinct [of "[]" "map Some (v # bs)"]
      by (simp only: append_Nil distinct_map) (simp add: inj_on_def)
    then have "cycleNodes (collect_cycle v st) = map Some (v # bs)"
      using collect_on_path [OF split \<open>v \<notin> set as\<close>] fresh by simp
    then show ?thesis using cyc [OF split] by blast
  qed
  ultimately show ?thesis by (auto simp: found_cycle_def)
qed

subsection \<open>The search\<close>

lemma no_cycle_trans:
  "no_cycle E K st st' \<Longrightarrow> no_cycle E K st' st'' \<Longrightarrow> no_cycle E K st st''"
  by (auto simp: no_cycle_def)

lemma found_cycle_after:
  "no_cycle E K st st' \<Longrightarrow> found_cycle E K st' st'' \<Longrightarrow> found_cycle E K st st''"
  by (auto simp: no_cycle_def found_cycle_def)

lemma found_cycle_enter:
  "found_cycle E K (enter n st) st' \<Longrightarrow> found_cycle E K st st'"
  by (auto simp: found_cycle_def grays_enter)

text \<open>What a search started at \<open>st\<close> gives: \<open>done\<close> says what is black when no cycle was found.\<close>

definition outcome ::
    "(string \<times> string) set \<Rightarrow> string set \<Rightarrow> string set \<Rightarrow> 'a dfs_state_scheme \<Rightarrow> bool \<times> 'b dfs_state_scheme \<Rightarrow> bool" where
  "outcome E K finished st r \<longleftrightarrow>
     (if fst r then found_cycle E K st (snd r)
      else no_cycle E K st (snd r) \<and> finished \<subseteq> blacks (snd r))"

lemma dfs_correct:
  "search_inv (adj_graph adjacency K) K st \<Longrightarrow> map_of (color st) n = Some WHITE \<Longrightarrow>
     (path st \<noteq> [] \<Longrightarrow> (last (path st), n) \<in> adj_graph adjacency K) \<Longrightarrow>
     outcome (adj_graph adjacency K) K {n} st (dfs adjacency n st)"
  "search_inv (adj_graph adjacency K) K st \<Longrightarrow> path st \<noteq> [] \<Longrightarrow>
     set ns \<subseteq> set (neighbors_of adjacency (last (path st))) \<Longrightarrow>
     outcome (adj_graph adjacency K) K (set ns \<inter> K) st (dfs_loop adjacency ns st)"
proof (induction adjacency n st and adjacency ns st rule: dfs_dfs_loop.induct)
  case (1 adjacency n st)
  let ?E = "adj_graph adjacency K" and ?ns = "neighbors_of adjacency n"
  have "search_inv ?E K (enter n st)" using "1.prems" by (rule search_inv_enter)
  then have IH: "outcome ?E K (set ?ns \<inter> K) (enter n st) (dfs_loop adjacency ?ns (enter n st))"
    using "1.IH" by simp
  obtain r st' where r: "dfs_loop adjacency ?ns (enter n st) = (r, st')" by fastforce
  show ?case
  proof (cases r)
    case True
    then show ?thesis using IH r
      by (auto simp: dfs.simps outcome_def intro: found_cycle_enter)
  next
    case False
    then have "no_cycle ?E K (enter n st) st'" "?E `` {n} \<subseteq> blacks st'"
      using IH r by (auto simp: outcome_def adj_graph_def)
    then have "no_cycle ?E K st (leave n st')" "n \<in> blacks (leave n st')"
      using no_cycle_leave [OF _ "1.prems"(2)] by blast+
    then show ?thesis using False r by (simp add: dfs.simps outcome_def)
  qed
next
  case (2 adjacency st)
  then show ?case by (simp add: dfs_loop.simps no_cycle_def outcome_def)
next
  case (3 adjacency n ns st)
  let ?E = "adj_graph adjacency K" and ?u = "last (path st)"
  have "?u \<in> set (path st)" using "3.prems"(2) by simp
  then have "?u \<in> grays st" using "3.prems"(1) by (auto simp: search_inv_def)
  then have u: "?u \<in> K" using "3.prems"(1) by (auto simp: search_defs grays_def)
  have edge: "n \<in> K \<Longrightarrow> (?u, n) \<in> ?E" using "3.prems" u by (auto simp: adj_graph_def)
  have K: "dom (map_of (color st)) = K" using "3.prems" by (simp add: search_defs)
  consider (gray) "map_of (color st) n = Some GRAY" | (white) "map_of (color st) n = Some WHITE"
    | (other) "map_of (color st) n \<noteq> Some GRAY" "map_of (color st) n \<noteq> Some WHITE" by blast
  then show ?case
  proof cases
    case gray
    then have "found_cycle ?E K st (collect_cycle n st)"
      using "3.prems" edge K by (intro found_cycle_collect) (auto simp: grays_def)
    then show ?thesis using gray by (simp add: dfs_loop.simps outcome_def)
  next
    case white
    then have "n \<in> K" using K by auto
    obtain r st' where r: "dfs adjacency n st = (r, st')" by fastforce
    have o1: "outcome ?E K {n} st (r, st')"
      using "3.IH"(1) [OF _ white "3.prems"(1) white] edge \<open>n \<in> K\<close> white r by simp
    show ?thesis
    proof (cases r)
      case True
      then show ?thesis using o1 r white by (simp add: dfs_loop.simps outcome_def)
    next
      case False
      then have nc: "no_cycle ?E K st st'" "n \<in> blacks st'" using o1 by (auto simp: outcome_def)
      then have "outcome ?E K (set ns \<inter> K) st' (dfs_loop adjacency ns st')"
        using "3.IH"(2) r False white "3.prems" by (auto simp: no_cycle_def)
      then show ?thesis using nc r False white
        by (auto simp: dfs_loop.simps outcome_def intro: no_cycle_trans found_cycle_after)
           (auto simp: no_cycle_def)
    qed
  next
    case other
    then have "outcome ?E K (set ns \<inter> K) st (dfs_loop adjacency ns st)"
      using "3.IH"(3) "3.prems" by simp
    moreover have "n \<in> K \<Longrightarrow> n \<in> blacks st" using other K
      by (auto simp: blacks_def dom_def) (metis (full_types) color.exhaust)
    ultimately show ?thesis using other
      by (auto simp: dfs_loop.simps outcome_def no_cycle_def)
  qed
qed

subsection \<open>The graph of a workflow\<close>

definition task_ids :: "TaskDefinition list \<Rightarrow> string set" where
  "task_ids tasks = td_id ` set tasks"

definition task_graph :: "TaskDefinition list \<Rightarrow> Edge list \<Rightarrow> (string \<times> string) set" where
  "task_graph tasks edges =
     (\<lambda>e. (sourceTaskId e, targetTaskId e)) ` set edges \<inter> task_ids tasks \<times> task_ids tasks"

lemma map_of_init_map_fold:
  "map_of (fold (\<lambda>t. AList.update (td_id t) v) tasks m) k =
     (if k \<in> task_ids tasks then Some v else map_of m k)"
  by (induction tasks arbitrary: m) (auto simp: task_ids_def)

lemma map_of_init_map [simp]:
  "map_of (init_map v tasks) k = (if k \<in> task_ids tasks then Some v else None)"
  by (simp add: init_map_def map_of_init_map_fold)

lemma map_of_add_edges:
  "map_of (fold add_edge edges adjacency) k = (case map_of adjacency k of
      None \<Rightarrow> None
    | Some ns \<Rightarrow> Some (ns @ map targetTaskId (filter (\<lambda>e. sourceTaskId e = k) edges)))"
proof (induction edges arbitrary: adjacency)
  case Nil
  then show ?case by (simp split: option.split)
next
  case (Cons e edges)
  then show ?case by (auto simp: add_edge_def split: option.split)
qed

lemma neighbors_build:
  "neighbors_of (buildAdjacencyList tasks edges) u =
     (if u \<in> task_ids tasks then map targetTaskId (filter (\<lambda>e. sourceTaskId e = u) edges) else [])"
  by (simp add: neighbors_of_def buildAdjacencyList_def map_of_add_edges)

lemma adj_graph_build:
  "adj_graph (buildAdjacencyList tasks edges) (task_ids tasks) = task_graph tasks edges"
  by (auto simp: adj_graph_def neighbors_build task_graph_def)

subsection \<open>The searches from every task\<close>

definition top_inv :: "(string \<times> string) set \<Rightarrow> string set \<Rightarrow> string set \<Rightarrow> 'a dfs_state_scheme \<Rightarrow> bool" where
  "top_inv E K finished st \<longleftrightarrow>
     base_inv E K st \<and> (\<forall>u\<in>grays st. reaches_cycle E u) \<and>
     (if cycleNodes st = [] then grays st = {} \<and> finished \<subseteq> blacks st else \<not> acyclic E)"

lemma search_inv_start: "top_inv E K finished st \<Longrightarrow> search_inv E K (st\<lparr>path := []\<rparr>)"
  by (auto simp: top_inv_def search_defs grays_def blacks_def)

lemma top_inv_outcome:
  assumes "top_inv E K finished st" "outcome E K {n} (st\<lparr>path := []\<rparr>) r"
  shows "top_inv E K (insert n finished) (snd r)"
  using assms
  by (auto simp: top_inv_def outcome_def found_cycle_def no_cycle_def search_inv_def grays_def blacks_def
      split: if_splits)

lemma top_inv_skip:
  assumes "top_inv E K finished st" "map_of (color st) n \<noteq> Some WHITE" "n \<in> K"
  shows "top_inv E K (insert n finished) st"
proof -
  have "cycleNodes st = [] \<Longrightarrow> n \<in> blacks st"
    using assms by (auto simp: top_inv_def base_inv_def grays_def blacks_def dom_def)
      (metis (full_types) color.exhaust)
  then show ?thesis using assms by (auto simp: top_inv_def)
qed

lemma top_inv_step:
  assumes "top_inv (adj_graph adjacency K) K finished st" "td_id t \<in> K"
  shows "top_inv (adj_graph adjacency K) K (insert (td_id t) finished) (detectCycles_step adjacency t st)"
proof (cases "map_of (color st) (td_id t) = Some WHITE")
  case True
  have "outcome (adj_graph adjacency K) K {td_id t} (st\<lparr>path := []\<rparr>) (dfs adjacency (td_id t) (st\<lparr>path := []\<rparr>))"
    using True assms(1) by (intro dfs_correct(1) search_inv_start) auto
  then show ?thesis using top_inv_outcome [OF assms(1)] True by (simp add: detectCycles_step_def)
next
  case False
  then show ?thesis using top_inv_skip [OF assms(1) _ assms(2)] by (simp add: detectCycles_step_def)
qed

lemma top_inv_fold:
  "top_inv (adj_graph adjacency K) K finished st \<Longrightarrow> task_ids tasks \<subseteq> K \<Longrightarrow>
     top_inv (adj_graph adjacency K) K (finished \<union> task_ids tasks) (fold (detectCycles_step adjacency) tasks st)"
proof (induction tasks arbitrary: finished st)
  case Nil
  then show ?case by (simp add: task_ids_def)
next
  case (Cons t tasks)
  then have "top_inv (adj_graph adjacency K) K (insert (td_id t) finished) (detectCycles_step adjacency t st)"
    by (intro top_inv_step) (auto simp: task_ids_def)
  then show ?case using Cons.IH [of "insert (td_id t) finished"] Cons.prems(2)
    by (simp add: task_ids_def)
qed

lemma top_inv_init:
  "top_inv E (task_ids tasks) {} \<lparr>color = init_map WHITE tasks, path = [], cycleNodes = []\<rparr>"
  by (auto simp: top_inv_def base_inv_def grays_def blacks_def dom_def split: if_splits)

definition final_state :: "TaskDefinition list \<Rightarrow> Edge list \<Rightarrow> dfs_state" where
  "final_state tasks edges = fold (detectCycles_step (buildAdjacencyList tasks edges)) tasks
     \<lparr>color = init_map WHITE tasks, path = [], cycleNodes = []\<rparr>"

lemma final_top_inv:
  "top_inv (task_graph tasks edges) (task_ids tasks) (task_ids tasks) (final_state tasks edges)"
  using top_inv_fold [where adjacency = "buildAdjacencyList tasks edges", OF top_inv_init order_refl, of tasks]
  by (simp add: adj_graph_build final_state_def)

lemma detectCycles_final: "detectCycles tasks edges = cycleNodes (final_state tasks edges)"
  by (simp add: detectCycles_def final_state_def)

lemma acyclic_if_all_black:
  assumes "base_inv E K st" "E \<subseteq> K \<times> K" "K \<subseteq> blacks st" shows "acyclic E"
proof (rule acyclicI, intro allI notI)
  fix x assume x: "(x, x) \<in> E\<^sup>+"
  then obtain y where "(x, y) \<in> E" by (auto dest: tranclD)
  then have "x \<in> blacks st" using assms by auto
  then show False using x assms(1) by (simp add: base_inv_def)
qed

lemma detectCycles_acyclic:
  "detectCycles tasks edges = [] \<longleftrightarrow> acyclic (task_graph tasks edges)"
proof
  assume none: "detectCycles tasks edges = []"
  have "task_graph tasks edges \<subseteq> task_ids tasks \<times> task_ids tasks" by (simp add: task_graph_def)
  then show "acyclic (task_graph tasks edges)"
    using final_top_inv [of tasks edges] none acyclic_if_all_black
    by (auto simp: top_inv_def detectCycles_final)
next
  assume "acyclic (task_graph tasks edges)"
  then show "detectCycles tasks edges = []"
    using final_top_inv [of tasks edges] by (auto simp: top_inv_def detectCycles_final split: if_splits)
qed

text \<open>
  Whatever the task list (repeated identifiers included) and whatever the edges, cycle
  detection reports nothing exactly when the graph of the edges between existing tasks is
  acyclic.
\<close>

theorem detectCycles_iff:
  "detectCycles tasks edges = [] \<longleftrightarrow> acyclic (task_graph tasks edges)"
  by (rule detectCycles_acyclic)

text \<open>
  Every task identifier in the reported list is a task from which a cycle can be reached.
  (It need not lie on one, and the list can hold \<open>undefined\<close>: see the next property.)
\<close>

theorem detectCycles_reports_sound:
  assumes "Some x \<in> set (detectCycles tasks edges)"
  shows "reaches_cycle (task_graph tasks edges) x"
  using final_top_inv [of tasks edges] assms
  by (simp add: top_inv_def base_inv_def detectCycles_final)

theorem detectCycles_reports_sound_witness:
  "reaches_cycle (task_graph [plain_task ''a''] [plain_edge ''a'' ''a'']) ''a''"
proof (rule detectCycles_reports_sound)
  show "Some ''a'' \<in> set (detectCycles [plain_task ''a''] [plain_edge ''a'' ''a''])" by code_simp
qed

text \<open>
  The report is not the set of nodes on cycles: with a self-loop at \<open>a\<close> and an edge from
  \<open>b\<close> to \<open>a\<close>, the second search meets the gray node \<open>a\<close> the first, aborted one left behind,
  \<open>path.indexOf\<close> gives -1, and the report lists \<open>undefined\<close> and the innocent \<open>b\<close>.
\<close>

theorem detectCycles_overreports:
  "detectCycles [plain_task ''a'', plain_task ''b''] [plain_edge ''a'' ''a'', plain_edge ''b'' ''a'']
     = [Some ''a'', None, Some ''b''] \<and>
   (''b'', ''b'') \<notin> (task_graph [plain_task ''a'', plain_task ''b'']
      [plain_edge ''a'' ''a'', plain_edge ''b'' ''a''])\<^sup>+"
proof
  show "detectCycles [plain_task ''a'', plain_task ''b''] [plain_edge ''a'' ''a'', plain_edge ''b'' ''a'']
     = [Some ''a'', None, Some ''b'']" by code_simp
  have "task_graph [plain_task ''a'', plain_task ''b''] [plain_edge ''a'' ''a'', plain_edge ''b'' ''a'']
      = {(''a'', ''a''), (''b'', ''a'')}" by (auto simp: task_graph_def task_ids_def)
  moreover have "x = ''a''" if "(y, x) \<in> {(''a'', ''a''), (''b'', ''a'')}\<^sup>+" for x y :: string
    using that by (induction rule: trancl_induct) auto
  ultimately show "(''b'', ''b'') \<notin> (task_graph [plain_task ''a'', plain_task ''b'']
      [plain_edge ''a'' ''a'', plain_edge ''b'' ''a''])\<^sup>+" by auto
qed

end
