(* ===== verification/DagReachability.thy ===== *)
theory DagReachability
  imports DagSearch
begin

section \<open>What the breadth-first search visits, and what validateDAG decides\<close>

text \<open>
  \<open>bfs\<close> visits exactly the nodes reachable from its queue, so \<open>checkReachability\<close> returns the
  tasks no root reaches.  In an acyclic graph whose edges join existing tasks there is no such
  task: \<open>validateDAG\<close> never reports \<open>unreachable_nodes\<close>, and it accepts a workflow exactly
  when the edges join existing tasks and form no cycle.  The locale \<open>dag_check\<close> is what the
  callers of a validator rely on, interpreted on \<open>validateDAG\<close>.
\<close>

definition edge_rel :: "Edge list \<Rightarrow> (string \<times> string) set" where
  "edge_rel edges = (\<lambda>e. (sourceTaskId e, targetTaskId e)) ` set edges"

lemma edge_rel_Image:
  "edge_rel edges `` {u} = set (map targetTaskId (filter (\<lambda>e. sourceTaskId e = u) edges))"
  by (auto simp: edge_rel_def)

lemma bfs_superset: "set visited \<union> set queue \<subseteq> set (bfs edges queue visited)"
  by (induction edges queue visited rule: bfs.induct) (auto simp: Let_def)

lemma bfs_sound:
  "set (bfs edges queue visited) \<subseteq> set visited \<union> (edge_rel edges)\<^sup>* `` set queue"
proof (induction edges queue visited rule: bfs.induct)
  case (1 edges visited)
  then show ?case by simp
next
  case (2 edges c queue visited)
  let ?ns = "map targetTaskId (filter (\<lambda>e. sourceTaskId e = c) edges)"
  show ?case
  proof (cases "c \<in> set visited")
    case True
    then show ?thesis using "2.IH"(1) by auto
  next
    case False
    have "(edge_rel edges)\<^sup>* `` (edge_rel edges `` {c}) \<subseteq> (edge_rel edges)\<^sup>* `` {c}"
      by (auto intro: converse_rtrancl_into_rtrancl)
    then have "(edge_rel edges)\<^sup>* `` set ?ns \<subseteq> (edge_rel edges)\<^sup>* `` {c}"
      by (simp only: edge_rel_Image)
    moreover have "set (bfs edges (c # queue) visited)
        \<subseteq> insert c (set visited) \<union> (edge_rel edges)\<^sup>* `` (set queue \<union> set ?ns)"
      using "2.IH"(2) [OF False refl refl] False by (auto simp: Let_def)
    moreover have "(edge_rel edges)\<^sup>* `` set (c # queue)
        = (edge_rel edges)\<^sup>* `` {c} \<union> (edge_rel edges)\<^sup>* `` set queue"
      using Image_Un [of "(edge_rel edges)\<^sup>*" "{c}" "set queue"] by simp
    moreover have "c \<in> (edge_rel edges)\<^sup>* `` {c}" by simp
    ultimately show ?thesis by (simp only: Image_Un) blast
  qed
qed

lemma bfs_closed:
  "edge_rel edges `` set visited \<subseteq> set visited \<union> set queue \<Longrightarrow>
     edge_rel edges `` set (bfs edges queue visited) \<subseteq> set (bfs edges queue visited)"
proof (induction edges queue visited rule: bfs.induct)
  case (1 edges visited)
  then show ?case by simp
next
  case (2 edges c queue visited)
  show ?case
  proof (cases "c \<in> set visited")
    case True
    then have "edge_rel edges `` set visited \<subseteq> set visited \<union> set queue" using "2.prems" by auto
    then show ?thesis using "2.IH"(1) True by simp
  next
    case False
    let ?ns = "map targetTaskId (filter (\<lambda>e. sourceTaskId e = c) edges)"
    have "edge_rel edges `` set (visited @ [c]) = edge_rel edges `` set visited \<union> edge_rel edges `` {c}"
      by auto
    also have "\<dots> = edge_rel edges `` set visited \<union> set ?ns" by (simp only: edge_rel_Image)
    also have "\<dots> \<subseteq> set (visited @ [c]) \<union> set (queue @ filter (\<lambda>n. n \<notin> set (visited @ [c])) ?ns)"
      using "2.prems" by auto
    finally show ?thesis using "2.IH"(2) [OF False refl refl] False by (simp add: Let_def)
  qed
qed

lemma rtrancl_Image_closed: "R `` A \<subseteq> A \<Longrightarrow> B \<subseteq> A \<Longrightarrow> R\<^sup>* `` B \<subseteq> A"
  using black_not_reaching [of R A] by auto

lemma bfs_reachable: "set (bfs edges queue []) = (edge_rel edges)\<^sup>* `` set queue"
  using bfs_sound [of edges queue "[]"] bfs_superset [of "[]" queue edges]
    rtrancl_Image_closed [OF bfs_closed [of edges "[]" queue], of "set queue"] by auto

subsection \<open>Roots and unreachable tasks\<close>

lemma map_of_count_incoming:
  "map_of (fold count_incoming edges m) k = (case map_of m k of
      None \<Rightarrow> None | Some n \<Rightarrow> Some (n + length (filter (\<lambda>e. targetTaskId e = k) edges)))"
proof (induction edges arbitrary: m)
  case Nil
  then show ?case by (simp split: option.split)
next
  case (Cons e edges)
  then show ?case by (auto simp: count_incoming_def split: option.split)
qed

definition root_ids :: "TaskDefinition list \<Rightarrow> Edge list \<Rightarrow> string set" where
  "root_ids tasks edges = task_ids tasks - targetTaskId ` set edges"

lemma checkReachability_set:
  "set (checkReachability tasks edges) =
     task_ids tasks - (edge_rel edges)\<^sup>* `` root_ids tasks edges"
proof -
  let ?count = "fold count_incoming edges (init_map 0 tasks)"
  have "map_of ?count k = Some 0 \<longleftrightarrow> k \<in> task_ids tasks \<and> k \<notin> targetTaskId ` set edges" for k
    by (auto simp: map_of_count_incoming filter_empty_conv)
  then have "set (map td_id (filter (\<lambda>t. map_of ?count (td_id t) = Some 0) tasks)) = root_ids tasks edges"
    by (auto simp: root_ids_def task_ids_def)
  then show ?thesis
    by (auto simp: checkReachability_def Let_def bfs_reachable task_ids_def)
qed

lemma edge_rel_valid: "edge_rel edges \<subseteq> task_ids tasks \<times> task_ids tasks \<Longrightarrow> edge_rel edges = task_graph tasks edges"
  by (auto simp: edge_rel_def task_graph_def)

lemma acyclic_all_reachable:
  assumes "edge_rel edges \<subseteq> task_ids tasks \<times> task_ids tasks" "acyclic (edge_rel edges)"
  shows "task_ids tasks \<subseteq> (edge_rel edges)\<^sup>* `` root_ids tasks edges"
proof
  fix x assume "x \<in> task_ids tasks"
  have "wf (edge_rel edges)"
    using assms(2) by (intro finite_acyclic_wf) (auto simp: edge_rel_def)
  then show "x \<in> (edge_rel edges)\<^sup>* `` root_ids tasks edges"
    using \<open>x \<in> task_ids tasks\<close>
  proof (induction x rule: wf_induct_rule)
    case (less x)
    show ?case
    proof (cases "x \<in> targetTaskId ` set edges")
      case False
      then show ?thesis using less.prems by (auto simp: root_ids_def)
    next
      case True
      then obtain p where p: "(p, x) \<in> edge_rel edges" by (auto simp: edge_rel_def)
      then have "p \<in> (edge_rel edges)\<^sup>* `` root_ids tasks edges" using less.IH assms(1) by auto
      then show ?thesis using p by (auto intro: rtrancl_into_rtrancl)
    qed
  qed
qed

text \<open>
  The reachability check returns, in task order, exactly the tasks that no root reaches,
  where a root is a task that is no edge's target.
\<close>

theorem checkReachability_spec:
  "checkReachability tasks edges =
     filter (\<lambda>x. x \<notin> (edge_rel edges)\<^sup>* `` root_ids tasks edges) (map td_id tasks)"
proof -
  let ?count = "fold count_incoming edges (init_map 0 tasks)"
  let ?visited = "bfs edges (map td_id (filter (\<lambda>t. map_of ?count (td_id t) = Some 0) tasks)) []"
  have eq: "checkReachability tasks edges = filter (\<lambda>x. x \<notin> set ?visited) (map td_id tasks)"
    by (simp add: checkReachability_def Let_def filter_map o_def)
  have "x \<in> set ?visited \<longleftrightarrow> x \<in> (edge_rel edges)\<^sup>* `` root_ids tasks edges" if "x \<in> task_ids tasks" for x
  proof -
    have "x \<in> set (checkReachability tasks edges) \<longleftrightarrow> x \<notin> set ?visited"
      using that by (auto simp: eq task_ids_def)
    then show ?thesis using that by (simp only: checkReachability_set) blast
  qed
  then show ?thesis unfolding eq by (intro filter_cong) (auto simp: task_ids_def)
qed

subsection \<open>The verdict of validateDAG\<close>

definition valid_edges :: "TaskDefinition list \<Rightarrow> Edge list \<Rightarrow> Edge list" where
  "valid_edges tasks edges =
     filter (\<lambda>e. sourceTaskId e \<in> task_ids tasks \<and> targetTaskId e \<in> task_ids tasks) edges"

lemma edge_rel_valid_edges: "edge_rel (valid_edges tasks edges) = task_graph tasks edges"
  by (auto simp: edge_rel_def valid_edges_def task_graph_def)

lemma task_graph_valid_edges: "task_graph tasks (valid_edges tasks edges) = task_graph tasks edges"
  by (auto simp: valid_edges_def task_graph_def)

lemma validateEdgeReferences_empty:
  "validateEdgeReferences tasks edges = [] \<longleftrightarrow> edge_rel edges \<subseteq> task_ids tasks \<times> task_ids tasks"
  by (auto simp: validateEdgeReferences_def Let_def edge_rel_def task_ids_def filter_empty_conv)

lemma no_unreachable:
  assumes "detectCycles tasks (valid_edges tasks edges) = []"
  shows "checkReachability tasks (valid_edges tasks edges) = []"
proof -
  have "acyclic (edge_rel (valid_edges tasks edges))"
    using assms by (simp add: edge_rel_valid_edges detectCycles_acyclic task_graph_valid_edges)
  moreover have "edge_rel (valid_edges tasks edges) \<subseteq> task_ids tasks \<times> task_ids tasks"
    by (simp add: edge_rel_valid_edges) (simp add: task_graph_def)
  ultimately have "task_ids tasks \<subseteq> (edge_rel (valid_edges tasks edges))\<^sup>* `` root_ids tasks (valid_edges tasks edges)"
    by (intro acyclic_all_reachable)
  then have "set (checkReachability tasks (valid_edges tasks edges)) = {}"
    by (simp only: checkReachability_set) blast
  then show ?thesis by simp
qed

lemma validateDAG_errors:
  "dv_errors (validateDAG tasks edges) =
     (let invalid = validateEdgeReferences tasks edges;
          cycle = detectCycles tasks (valid_edges tasks edges)
      in (if invalid = [] then [] else
            [\<lparr>dv_type = invalid_edge_reference,
              dv_message = ''Found '' @ show_nat (length invalid)
                 @ '' edge(s) referencing non-existent task definitions'',
              dv_nodes = None, dv_edges = Some invalid\<rparr>]) @
         (if cycle = [] then [] else
            [\<lparr>dv_type = cycle_detected,
              dv_message = ''Cycle detected involving '' @ show_nat (length cycle) @ '' node(s)'',
              dv_nodes = Some cycle, dv_edges = None\<rparr>]))"
  using no_unreachable [of tasks edges]
  by (simp add: validateDAG_def Let_def valid_edges_def task_ids_def)

lemma validateDAG_valid_errors: "dv_valid (validateDAG tasks edges) \<longleftrightarrow> dv_errors (validateDAG tasks edges) = []"
  by (simp add: validateDAG_def Let_def)

lemma validateDAG_accepts:
  "dv_valid (validateDAG tasks edges) \<longleftrightarrow>
     edge_rel edges \<subseteq> task_ids tasks \<times> task_ids tasks \<and> acyclic (edge_rel edges)"
proof -
  have "dv_valid (validateDAG tasks edges) \<longleftrightarrow>
      edge_rel edges \<subseteq> task_ids tasks \<times> task_ids tasks \<and> acyclic (task_graph tasks edges)"
    by (simp add: validateDAG_valid_errors validateDAG_errors Let_def validateEdgeReferences_empty
        detectCycles_acyclic task_graph_valid_edges)
  then show ?thesis using edge_rel_valid by metis
qed

subsection \<open>The interface of a graph validator\<close>

text \<open>What a caller that stores a workflow after validation may assume of its graph.\<close>

locale dag_check =
  fixes accepts :: "TaskDefinition list \<Rightarrow> Edge list \<Rightarrow> bool"
  assumes accepts_refs: "accepts tasks edges \<Longrightarrow> edge_rel edges \<subseteq> task_ids tasks \<times> task_ids tasks"
    and accepts_acyclic: "accepts tasks edges \<Longrightarrow> acyclic (edge_rel edges)"
begin

lemma accepted_reachable:
  "accepts tasks edges \<Longrightarrow> x \<in> task_ids tasks \<Longrightarrow> \<exists>r\<in>root_ids tasks edges. (r, x) \<in> (edge_rel edges)\<^sup>*"
  using acyclic_all_reachable [OF accepts_refs accepts_acyclic] by blast

lemma accepted_has_root:
  "accepts tasks edges \<Longrightarrow> tasks \<noteq> [] \<Longrightarrow> root_ids tasks edges \<noteq> {}"
  using accepted_reachable [of tasks edges "td_id (hd tasks)"] by (cases tasks) (auto simp: task_ids_def)

lemma accepted_no_self_edge: "accepts tasks edges \<Longrightarrow> (x, x) \<notin> edge_rel edges"
  using accepts_acyclic by (auto simp: acyclic_def)

end

interpretation vd: dag_check "\<lambda>tasks edges. dv_valid (validateDAG tasks edges)"
  by unfold_locales (simp_all add: validateDAG_accepts)

subsection \<open>Properties\<close>

text \<open>
  C5: \<open>validateDAG\<close> accepts a workflow exactly when every edge joins two existing tasks and the
  edges form no cycle.
\<close>

theorem validateDAG_valid_iff:
  "dv_valid (validateDAG tasks edges) \<longleftrightarrow>
     edge_rel edges \<subseteq> task_ids tasks \<times> task_ids tasks \<and> acyclic (edge_rel edges)"
  by (rule validateDAG_accepts)

text \<open>
  The third check is redundant: no input makes \<open>validateDAG\<close> report \<open>unreachable_nodes\<close>.
\<close>

theorem validateDAG_never_unreachable:
  "unreachable_nodes \<notin> dv_type ` set (dv_errors (validateDAG tasks edges))"
  by (auto simp: validateDAG_errors Let_def)

text \<open>
  In a workflow \<open>validateDAG\<close> accepts, execution can get everywhere: every task is
  reachable from a task without incoming edges, the tasks an execution starts with, and a
  non-empty workflow has such a task.
\<close>

theorem accepted_workflow_startable:
  assumes "dv_valid (validateDAG tasks edges)"
  shows "task_ids tasks \<subseteq> (edge_rel edges)\<^sup>* `` root_ids tasks edges \<and>
    (tasks \<noteq> [] \<longrightarrow> root_ids tasks edges \<noteq> {})"
  using vd.accepted_reachable [OF assms] vd.accepted_has_root [OF assms] by blast

theorem accepted_workflow_startable_witness:
  "task_ids [plain_task ''a'', plain_task ''b''] \<subseteq>
     (edge_rel [plain_edge ''a'' ''b''])\<^sup>* `` root_ids [plain_task ''a'', plain_task ''b''] [plain_edge ''a'' ''b''] \<and>
   root_ids [plain_task ''a'', plain_task ''b''] [plain_edge ''a'' ''b''] \<noteq> {}"
proof -
  have "dv_valid (validateDAG [plain_task ''a'', plain_task ''b''] [plain_edge ''a'' ''b''])" by code_simp
  from accepted_workflow_startable [OF this] show ?thesis by simp
qed

end
