(* ===== verification/JsSort.thy ===== *)
theory JsSort
  imports Prelude "HOL-Library.Multiset"
begin

section \<open>Array.prototype.sort with a comparator\<close>

text \<open>
  \<open>Array.prototype.sort\<close> is stable.  For a consistent comparator its result is determined: the
  sorted permutation that keeps the order of elements that compare equal, computed here by
  insertion.  The locale \<open>comparator\<close> states what the language asks of a comparator; its
  lemmas are the facts the serializer and the cron parser need.
\<close>

fun js_insert :: "('a \<Rightarrow> 'a \<Rightarrow> int) \<Rightarrow> 'a \<Rightarrow> 'a list \<Rightarrow> 'a list" where
  "js_insert cmp x [] = [x]"
| "js_insert cmp x (y # ys) = (if cmp x y \<le> 0 then x # y # ys else y # js_insert cmp x ys)"

fun js_sort :: "('a \<Rightarrow> 'a \<Rightarrow> int) \<Rightarrow> 'a list \<Rightarrow> 'a list" where
  "js_sort cmp [] = []"
| "js_sort cmp (x # xs) = js_insert cmp x (js_sort cmp xs)"

lemma mset_js_insert [simp]: "mset (js_insert cmp x ys) = add_mset x (mset ys)"
  by (induction ys) auto

lemma mset_js_sort [simp]: "mset (js_sort cmp xs) = mset xs"
  by (induction xs) auto

lemma set_js_sort [simp]: "set (js_sort cmp xs) = set xs"
  by (metis mset_js_sort set_mset_mset)

lemma set_js_insert [simp]: "set (js_insert cmp x ys) = insert x (set ys)"
  by (metis mset_js_insert set_mset_add_mset_insert set_mset_mset)

lemma distinct_js_sort [simp]: "distinct (js_sort cmp xs) = distinct xs"
  by (metis mset_js_sort mset_eq_imp_distinct_iff)

lemma map_js_insert:
  "(\<And>a b. cmp a b = cmp' (f a) (f b)) \<Longrightarrow> map f (js_insert cmp x ys) = js_insert cmp' (f x) (map f ys)"
  by (induction ys) auto

lemma map_js_sort:
  "(\<And>a b. cmp a b = cmp' (f a) (f b)) \<Longrightarrow> map f (js_sort cmp xs) = js_sort cmp' (map f xs)"
  by (induction xs) (simp_all add: map_js_insert)

locale comparator =
  fixes cmp :: "'a \<Rightarrow> 'a \<Rightarrow> int"
  assumes cmp_sign: "sgn (cmp x y) = - sgn (cmp y x)"
    and cmp_trans: "cmp x y \<le> 0 \<Longrightarrow> cmp y z \<le> 0 \<Longrightarrow> cmp x z \<le> 0"
begin

lemma cmp_total: "\<not> cmp x y \<le> 0 \<Longrightarrow> cmp y x \<le> 0"
  using cmp_sign [of x y] by (auto simp: sgn_if split: if_splits)

lemma cmp_both: "cmp x y \<le> 0 \<Longrightarrow> cmp y x \<le> 0 \<Longrightarrow> cmp x y = 0"
  using cmp_sign [of x y] by (auto simp: sgn_if split: if_splits)

lemma cmp_less_le: "cmp x y < 0 \<Longrightarrow> cmp y z \<le> 0 \<Longrightarrow> cmp x z < 0"
  using cmp_trans [of x y z] cmp_trans [of y z x] cmp_sign [of x y] cmp_sign [of x z]
  by (auto simp: sgn_if split: if_splits)

lemma cmp_le_less: "cmp x y \<le> 0 \<Longrightarrow> cmp y z < 0 \<Longrightarrow> cmp x z < 0"
  using cmp_trans [of x y z] cmp_trans [of z x y] cmp_sign [of y z] cmp_sign [of x z]
  by (auto simp: sgn_if split: if_splits)

abbreviation in_order :: "'a list \<Rightarrow> bool" where
  "in_order \<equiv> sorted_wrt (\<lambda>x y. cmp x y \<le> 0)"

lemma insert_in_order: "in_order ys \<Longrightarrow> in_order (js_insert cmp x ys)"
  by (induction ys) (auto dest: cmp_total intro: cmp_trans)

lemma sort_in_order: "in_order (js_sort cmp xs)"
  by (induction xs) (auto intro: insert_in_order)

lemma sort_id: "in_order xs \<Longrightarrow> js_sort cmp xs = xs"
proof (induction xs)
  case Nil
  then show ?case by simp
next
  case (Cons x xs)
  then show ?case by (cases xs) auto
qed

text \<open>A list in order is determined by its elements, when only equal ones compare equal.\<close>

lemma in_order_unique:
  "in_order xs \<Longrightarrow> in_order ys \<Longrightarrow> mset xs = mset ys \<Longrightarrow>
     (\<And>x y. x \<in> set xs \<Longrightarrow> y \<in> set xs \<Longrightarrow> cmp x y = 0 \<Longrightarrow> x = y) \<Longrightarrow> xs = ys"
proof (induction xs arbitrary: ys)
  case Nil
  then show ?case by simp
next
  case (Cons x xs)
  then obtain y ys' where ys: "ys = y # ys'" by (cases ys) auto
  have sets: "set (x # xs) = set (y # ys')" using Cons.prems(3) ys mset_eq_setD by blast
  have "x = y"
  proof (rule ccontr)
    assume "x \<noteq> y"
    then have mem: "x \<in> set ys'" "y \<in> set xs" using sets by auto
    then have "cmp y x \<le> 0" "cmp x y \<le> 0" using Cons.prems(1,2) ys by auto
    then have "cmp x y = 0" by (intro cmp_both)
    then show False using Cons.prems(4) [of x y] mem \<open>x \<noteq> y\<close> by simp
  qed
  then show ?case using Cons.IH [of ys'] Cons.prems ys by auto
qed

lemma sort_canonical:
  assumes "mset xs = mset ys" "\<And>x y. x \<in> set xs \<Longrightarrow> y \<in> set xs \<Longrightarrow> cmp x y = 0 \<Longrightarrow> x = y"
  shows "js_sort cmp xs = js_sort cmp ys"
  by (rule in_order_unique) (use assms sort_in_order in simp_all)

end

text \<open>
  \<open>(a, b) => a - b\<close> on numbers, the comparator of the cron parser.  The sort only looks at the
  sign of the difference, and a difference of two doubles has the sign of the exact one.
\<close>

definition num_cmp :: "rat \<Rightarrow> rat \<Rightarrow> int" where
  "num_cmp a b = (if a < b then -1 else if b < a then 1 else 0)"

interpretation num: comparator num_cmp
  by unfold_locales (auto simp: num_cmp_def split: if_splits)

lemma num_cmp_le [simp]: "num_cmp a b \<le> 0 \<longleftrightarrow> a \<le> b"
  by (auto simp: num_cmp_def)

lemma num_in_order: "num.in_order xs \<longleftrightarrow> sorted xs"
  by simp

end
