(* ===== verification/TopologicalSorter.thy ===== *)
theory TopologicalSorter
  imports DagReachability
begin

section \<open>Topological sorting (packages/shared/src/dag/topological-sorter.ts)\<close>

text \<open>
  The same search as cycle detection, which also records the nodes in post-order and stops at
  the first cycle.  Its state extends the state of \<open>dfs\<close> by \<open>postOrder\<close>; forgetting that
  field refines \<open>topo_dfs\<close> to \<open>dfs\<close>, so the lemmas on \<open>dfs\<close> apply to it.
\<close>

record TopologicalSortResult =
  tr_valid :: bool
  tr_order :: "string list"
  tr_cycleNodes :: "string option list option"

record topo_state = dfs_state +
  postOrder :: "string list"

definition topo_leave :: "string \<Rightarrow> topo_state \<Rightarrow> topo_state" where
  "topo_leave nodeId st = leave nodeId (st\<lparr>postOrder := postOrder st @ [nodeId]\<rparr>)"

function topo_dfs :: "(string \<times> string list) list \<Rightarrow> string \<Rightarrow> topo_state \<Rightarrow> bool \<times> topo_state"
  and topo_loop :: "(string \<times> string list) list \<Rightarrow> string list \<Rightarrow> topo_state \<Rightarrow> bool \<times> topo_state" where
  "topo_dfs adjacency nodeId st =
     (case topo_loop adjacency (neighbors_of adjacency nodeId) (enter nodeId st) of
        (True, st') \<Rightarrow> (True, st')
      | (False, st') \<Rightarrow> (False, topo_leave nodeId st'))"
| "topo_loop adjacency [] st = (False, st)"
| "topo_loop adjacency (neighbor # neighbors) st =
     (if map_of (color st) neighbor = Some GRAY then (True, collect_cycle neighbor st)
      else if map_of (color st) neighbor = Some WHITE then
        (case topo_dfs adjacency neighbor st of
           (True, st') \<Rightarrow> (True, st')
         | (False, st') \<Rightarrow> topo_loop adjacency neighbors st')
      else topo_loop adjacency neighbors st)"
  by pat_completeness auto

lemma whites_topo_leave_le: "whites (topo_leave n st) \<le> whites st"
  by (simp add: topo_leave_def whites_def leave_def count_value_update_le)

lemma topo_whites_dom:
  "topo_dfs_topo_loop_dom (Inl (adjacency, n, st)) \<Longrightarrow> whites (snd (topo_dfs adjacency n st)) \<le> whites st"
  "topo_dfs_topo_loop_dom (Inr (adjacency, ns, st)) \<Longrightarrow> whites (snd (topo_loop adjacency ns st)) \<le> whites st"
proof (induction adjacency n st and adjacency ns st rule: topo_dfs_topo_loop.pinduct)
  case (1 adjacency n st)
  then have "whites (snd (topo_loop adjacency (neighbors_of adjacency n) (enter n st))) \<le> whites st"
    using whites_enter_le order_trans by blast
  then show ?case using 1(1) whites_topo_leave_le order_trans
    by (fastforce simp: topo_dfs.psimps split: prod.splits bool.splits)
next
  case (2 adjacency st)
  then show ?case by (simp add: topo_loop.psimps)
next
  case (3 adjacency n ns st)
  then show ?case
    by (fastforce simp: topo_loop.psimps split: prod.splits bool.splits)
qed

termination topo_dfs
proof (relation "inv_image (less_than <*lex*> less_than <*lex*> less_than)
    (\<lambda>x. case x of Inl (adjacency, n, st) \<Rightarrow> (whites (enter n st), Suc 0, 0)
       | Inr (adjacency, ns, st) \<Rightarrow> (whites st, 0, length ns))", goal_cases)
  case 1
  then show ?case by (auto intro!: wf_inv_image)
next
  case (2 adjacency n st)
  then show ?case by simp
next
  case (3 adjacency n ns st)
  then show ?case by (simp add: whites_enter_less)
next
  case (4 adjacency n ns st x st')
  then show ?case using topo_whites_dom(1) [of adjacency n st]
    by (cases "topo_dfs adjacency n st") (auto simp: le_less)
next
  case (5 adjacency n ns st)
  then show ?case by simp
qed

declare topo_dfs.simps [simp del] topo_loop.simps [simp del]

text \<open>The outer loop: it returns at the first cycle.\<close>

fun topo_all :: "(string \<times> string list) list \<Rightarrow> TaskDefinition list \<Rightarrow> topo_state \<Rightarrow> bool \<times> topo_state" where
  "topo_all adjacency [] st = (False, st)"
| "topo_all adjacency (task # tasks) st =
     (if map_of (color st) (td_id task) = Some WHITE then
        (case topo_dfs adjacency (td_id task) (st\<lparr>path := []\<rparr>) of
           (True, st') \<Rightarrow> (True, st')
         | (False, st') \<Rightarrow> topo_all adjacency tasks st')
      else topo_all adjacency tasks st)"

definition topo_init :: "TaskDefinition list \<Rightarrow> topo_state" where
  "topo_init tasks = \<lparr>color = init_map WHITE tasks, path = [], cycleNodes = [], postOrder = []\<rparr>"

definition topologicalSort :: "TaskDefinition list \<Rightarrow> Edge list \<Rightarrow> TopologicalSortResult" where
  "topologicalSort tasks edges =
     (case topo_all (buildAdjacencyList tasks edges) tasks (topo_init tasks) of
        (True, st) \<Rightarrow> \<lparr>tr_valid = False, tr_order = [], tr_cycleNodes = Some (cycleNodes st)\<rparr>
      | (False, st) \<Rightarrow> \<lparr>tr_valid = True, tr_order = rev (postOrder st), tr_cycleNodes = None\<rparr>)"

subsection \<open>Forgetting the post-order\<close>

definition forget :: "topo_state \<Rightarrow> dfs_state" where
  "forget st = \<lparr>color = color st, path = path st, cycleNodes = cycleNodes st\<rparr>"

lemma forget_simps [simp]:
  "color (forget st) = color st" "path (forget st) = path st" "cycleNodes (forget st) = cycleNodes st"
  "forget (enter n st) = enter n (forget st)"
  "forget (topo_leave n st) = leave n (forget st)"
  "forget (collect_cycle n st) = collect_cycle n (forget st)"
  "forget (st\<lparr>path := p\<rparr>) = (forget st)\<lparr>path := p\<rparr>"
  by (simp_all add: forget_def enter_def topo_leave_def leave_def collect_cycle_def Let_def)

lemma topo_refines_dfs:
  "dfs adjacency n (forget st) = map_prod id forget (topo_dfs adjacency n st)"
  "dfs_loop adjacency ns (forget st) = map_prod id forget (topo_loop adjacency ns st)"
proof (induction adjacency n st and adjacency ns st rule: topo_dfs_topo_loop.induct)
  case (1 adjacency n st)
  then show ?case
    by (simp add: dfs.simps topo_dfs.simps) (auto split: prod.splits bool.splits)
next
  case (2 adjacency st)
  then show ?case by (simp add: dfs_loop.simps topo_loop.simps)
next
  case (3 adjacency n ns st)
  then show ?case
    by (simp add: dfs_loop.simps topo_loop.simps) (auto split: prod.splits bool.splits)
qed

lemma colors_forget [simp]: "grays (forget st) = grays st" "blacks (forget st) = blacks st"
  by (simp_all add: grays_def blacks_def)

lemma base_inv_forget [simp]: "base_inv E K (forget st) = base_inv E K st"
  by (simp add: base_inv_def)

lemma search_inv_forget [simp]: "search_inv E K (forget st) = search_inv E K st"
  by (simp add: search_inv_def)

lemma outcome_forget:
  "outcome E K B (forget st) (map_prod id forget r) = outcome E K B st r"
  by (simp add: outcome_def found_cycle_def no_cycle_def)

lemma topo_correct:
  "search_inv (adj_graph adjacency K) K st \<Longrightarrow> map_of (color st) n = Some WHITE \<Longrightarrow>
     (path st \<noteq> [] \<Longrightarrow> (last (path st), n) \<in> adj_graph adjacency K) \<Longrightarrow>
     outcome (adj_graph adjacency K) K {n} st (topo_dfs adjacency n st)"
  "search_inv (adj_graph adjacency K) K st \<Longrightarrow> path st \<noteq> [] \<Longrightarrow>
     set ns \<subseteq> set (neighbors_of adjacency (last (path st))) \<Longrightarrow>
     outcome (adj_graph adjacency K) K (set ns \<inter> K) st (topo_loop adjacency ns st)"
  using dfs_correct(1) [of adjacency K "forget st" n] dfs_correct(2) [of adjacency K "forget st" ns]
  by (simp_all add: topo_refines_dfs outcome_forget)

subsection \<open>The post-order\<close>

lemma before_append: "before xs u v \<Longrightarrow> before (xs @ ys) u v"
  unfolding before_def by (metis append.assoc set_append UnI1)

lemma before_snoc: "u \<in> set xs \<Longrightarrow> before (xs @ [v]) u v"
  unfolding before_def by (intro exI [of _ xs] exI [of _ "[v]"]) simp

definition post_inv :: "(string \<times> string) set \<Rightarrow> topo_state \<Rightarrow> bool" where
  "post_inv E st \<longleftrightarrow> set (postOrder st) = blacks st \<and> distinct (postOrder st) \<and>
     (\<forall>(u, v)\<in>E. u \<in> blacks st \<longrightarrow> before (postOrder st) v u)"

lemma topo_leave_facts:
  "postOrder (topo_leave n st) = postOrder st @ [n]" "blacks (topo_leave n st) = insert n (blacks st)"
  by (auto simp: topo_leave_def leave_def blacks_def)

lemma post_inv_enter:
  "post_inv E st \<Longrightarrow> map_of (color st) n \<noteq> Some BLACK \<Longrightarrow> post_inv E (enter n st)"
  by (simp add: post_inv_def blacks_enter) (simp add: enter_def)

lemma post_inv_leave:
  assumes "post_inv E st" "n \<in> grays st" "E `` {n} \<subseteq> blacks st"
  shows "post_inv E (topo_leave n st)"
proof -
  have "n \<notin> blacks st" using assms(2) by (auto simp: grays_def blacks_def)
  then show ?thesis using assms
    by (auto simp: post_inv_def topo_leave_facts intro: before_append before_snoc)
qed

lemma topo_post_inv:
  "search_inv (adj_graph adjacency K) K st \<Longrightarrow> map_of (color st) n = Some WHITE \<Longrightarrow>
     (path st \<noteq> [] \<Longrightarrow> (last (path st), n) \<in> adj_graph adjacency K) \<Longrightarrow>
     post_inv (adj_graph adjacency K) st \<Longrightarrow> \<not> fst (topo_dfs adjacency n st) \<Longrightarrow>
     post_inv (adj_graph adjacency K) (snd (topo_dfs adjacency n st))"
  "search_inv (adj_graph adjacency K) K st \<Longrightarrow> path st \<noteq> [] \<Longrightarrow>
     set ns \<subseteq> set (neighbors_of adjacency (last (path st))) \<Longrightarrow>
     post_inv (adj_graph adjacency K) st \<Longrightarrow> \<not> fst (topo_loop adjacency ns st) \<Longrightarrow>
     post_inv (adj_graph adjacency K) (snd (topo_loop adjacency ns st))"
proof (induction adjacency n st and adjacency ns st rule: topo_dfs_topo_loop.induct)
  case (1 adjacency n st)
  let ?E = "adj_graph adjacency K" and ?ns = "neighbors_of adjacency n"
  obtain r st' where r: "topo_loop adjacency ?ns (enter n st) = (r, st')" by fastforce
  then have "\<not> r" using "1.prems"(5) by (auto simp: topo_dfs.simps split: bool.splits)
  have inv: "search_inv ?E K (enter n st)" using "1.prems"(1-3) by (rule search_inv_enter)
  then have o: "outcome ?E K (set ?ns \<inter> K) (enter n st) (False, st')"
    using topo_correct(2) [of adjacency K "enter n st" ?ns] r \<open>\<not> r\<close> by simp
  have "post_inv ?E st'" using "1.IH" inv r \<open>\<not> r\<close> "1.prems"(2,4) by (simp add: post_inv_enter)
  moreover have "n \<in> grays st'" using o by (auto simp: outcome_def no_cycle_def grays_enter)
  moreover have "?E `` {n} \<subseteq> blacks st'" using o by (auto simp: outcome_def adj_graph_def)
  ultimately show ?case using r \<open>\<not> r\<close> by (simp add: topo_dfs.simps post_inv_leave)
next
  case (2 adjacency st)
  then show ?case by (simp add: topo_loop.simps)
next
  case (3 adjacency n ns st)
  let ?E = "adj_graph adjacency K" and ?u = "last (path st)"
  have gray: "map_of (color st) n \<noteq> Some GRAY" using "3.prems"(5) by (auto simp: topo_loop.simps)
  show ?case
  proof (cases "map_of (color st) n = Some WHITE")
    case False
    then show ?thesis using 3 gray by (simp add: topo_loop.simps)
  next
    case True
    obtain r st' where r: "topo_dfs adjacency n st = (r, st')" by fastforce
    have "\<not> r" using "3.prems"(5) r True by (auto simp: topo_loop.simps split: bool.splits)
    have edge: "(?u, n) \<in> ?E"
    proof -
      have "?u \<in> grays st" using "3.prems"(1,2) by (auto simp: search_inv_def)
      then have "?u \<in> K" using "3.prems"(1) by (auto simp: search_defs grays_def)
      moreover have "n \<in> K" using True "3.prems"(1) by (auto simp: search_defs)
      ultimately show ?thesis using "3.prems"(3) by (simp add: adj_graph_def)
    qed
    then have "outcome ?E K {n} st (False, st')"
      using topo_correct(1) [OF "3.prems"(1) True] r \<open>\<not> r\<close> by simp
    then have "search_inv ?E K st'" "path st' = path st" by (auto simp: outcome_def no_cycle_def)
    moreover have "post_inv ?E st'" using "3.IH"(1) edge gray True r \<open>\<not> r\<close> "3.prems" by simp
    ultimately show ?thesis using "3.IH"(2) gray True r \<open>\<not> r\<close> "3.prems"
      by (simp add: topo_loop.simps)
  qed
qed

subsection \<open>The searches from every task, up to the first cycle\<close>

definition clean_inv :: "(string \<times> string) set \<Rightarrow> string set \<Rightarrow> topo_state \<Rightarrow> bool" where
  "clean_inv E K st \<longleftrightarrow> base_inv E K st \<and> grays st = {} \<and> cycleNodes st = [] \<and> post_inv E st"

definition all_outcome :: "(string \<times> string) set \<Rightarrow> string set \<Rightarrow> string set \<Rightarrow> bool \<times> topo_state \<Rightarrow> bool" where
  "all_outcome E K B r \<longleftrightarrow>
     (if fst r then \<exists>c. cycleNodes (snd r) = map Some c \<and> is_cycle E c
      else clean_inv E K (snd r) \<and> B \<subseteq> blacks (snd r))"

lemma clean_start:
  assumes "clean_inv E K st"
  shows "search_inv E K (st\<lparr>path := []\<rparr>)" "post_inv E (st\<lparr>path := []\<rparr>)"
    "grays (st\<lparr>path := []\<rparr>) = {}" "blacks (st\<lparr>path := []\<rparr>) = blacks st"
  using assms by (auto simp: clean_inv_def search_defs post_inv_def grays_def blacks_def)

lemma topo_all_correct:
  "clean_inv (adj_graph adjacency K) K st \<Longrightarrow> task_ids tasks \<subseteq> K \<Longrightarrow>
     all_outcome (adj_graph adjacency K) K (blacks st \<union> task_ids tasks) (topo_all adjacency tasks st)"
proof (induction adjacency tasks st rule: topo_all.induct)
  case (1 adjacency st)
  then show ?case by (simp add: all_outcome_def task_ids_def)
next
  case (2 adjacency t tasks st)
  let ?E = "adj_graph adjacency K" and ?st = "st\<lparr>path := []\<rparr>"
  note start = clean_start [OF "2.prems"(1)]
  have t: "td_id t \<in> K" "task_ids tasks \<subseteq> K" using "2.prems"(2) by (auto simp: task_ids_def)
  show ?case
  proof (cases "map_of (color st) (td_id t) = Some WHITE")
    case True
    obtain r st' where r: "topo_dfs adjacency (td_id t) ?st = (r, st')" by fastforce
    have o: "outcome ?E K {td_id t} ?st (r, st')"
      using topo_correct(1) [OF start(1), of "td_id t"] True r by simp
    show ?thesis
    proof (cases r)
      case True
      then have "\<exists>c. cycleNodes st' = map Some c \<and> is_cycle ?E c"
        using o start(3) "2.prems"(1) by (auto simp: outcome_def found_cycle_def clean_inv_def)
      then show ?thesis using \<open>map_of (color st) (td_id t) = Some WHITE\<close> r True
        by (simp add: all_outcome_def)
    next
      case False
      then have "post_inv ?E st'"
        using topo_post_inv(1) [OF start(1) _ _ start(2), of "td_id t"] True r by simp
      then have "clean_inv ?E K st'" "td_id t \<in> blacks st'" "blacks st \<subseteq> blacks st'"
        using o False start "2.prems"(1)
        by (auto simp: outcome_def no_cycle_def clean_inv_def search_inv_def)
      moreover from this have "all_outcome ?E K (blacks st' \<union> task_ids tasks) (topo_all adjacency tasks st')"
        using "2.IH"(1) True r False t by simp
      ultimately show ?thesis using True r False
        by (cases "fst (topo_all adjacency tasks st')") (simp_all add: all_outcome_def task_ids_def, blast)
    qed
  next
    case False
    then have "td_id t \<in> blacks st"
      using "2.prems"(1) t(1)
      by (auto simp: clean_inv_def base_inv_def grays_def blacks_def dom_def) (metis (full_types) color.exhaust)
    moreover have "all_outcome ?E K (blacks st \<union> task_ids tasks) (topo_all adjacency tasks st)"
      using "2.IH"(2) False "2.prems"(1) t by simp
    ultimately show ?thesis using False
      by (cases "fst (topo_all adjacency tasks st)") (simp_all add: all_outcome_def task_ids_def, blast)
  qed
qed

lemma clean_init: "clean_inv E (task_ids tasks) (topo_init tasks)"
  by (auto simp: clean_inv_def base_inv_def post_inv_def topo_init_def grays_def blacks_def dom_def
      split: if_splits)

lemma topologicalSort_outcome:
  "all_outcome (task_graph tasks edges) (task_ids tasks) (task_ids tasks)
     (topo_all (buildAdjacencyList tasks edges) tasks (topo_init tasks))"
  using topo_all_correct [where adjacency = "buildAdjacencyList tasks edges", OF clean_init order_refl, of tasks]
  by (auto simp: adj_graph_build all_outcome_def split: if_splits)

text \<open>What a valid and an invalid result mean; the properties below are their parts.\<close>

lemma sort_valid:
  assumes "tr_valid (topologicalSort tasks edges)"
  shows "acyclic (task_graph tasks edges)" "distinct (tr_order (topologicalSort tasks edges))"
    "set (tr_order (topologicalSort tasks edges)) = task_ids tasks"
    "(u, v) \<in> task_graph tasks edges \<Longrightarrow> before (tr_order (topologicalSort tasks edges)) u v"
proof -
  let ?E = "task_graph tasks edges"
  obtain st where st: "topo_all (buildAdjacencyList tasks edges) tasks (topo_init tasks) = (False, st)"
    using assms by (auto simp: topologicalSort_def split: prod.splits bool.splits)
  then have clean: "clean_inv ?E (task_ids tasks) st" "task_ids tasks \<subseteq> blacks st"
    using topologicalSort_outcome [of tasks edges] by (simp_all add: all_outcome_def)
  have E: "?E \<subseteq> task_ids tasks \<times> task_ids tasks" by (simp add: task_graph_def)
  have order: "tr_order (topologicalSort tasks edges) = rev (postOrder st)"
    by (simp add: topologicalSort_def st)
  show "acyclic ?E" using acyclic_if_all_black [of ?E "task_ids tasks" st] clean E by (simp add: clean_inv_def)
  have "blacks st \<subseteq> task_ids tasks" using clean by (auto simp: clean_inv_def base_inv_def blacks_def)
  then show "set (tr_order (topologicalSort tasks edges)) = task_ids tasks"
    using clean by (auto simp: order clean_inv_def post_inv_def)
  show "distinct (tr_order (topologicalSort tasks edges))"
    using clean by (simp add: order clean_inv_def post_inv_def)
  show "before (tr_order (topologicalSort tasks edges)) u v" if "(u, v) \<in> ?E"
    using that clean E by (auto simp: order before_rev clean_inv_def post_inv_def)
qed

lemma sort_invalid:
  assumes "\<not> tr_valid (topologicalSort tasks edges)"
  shows "tr_order (topologicalSort tasks edges) = []"
    "\<exists>c. tr_cycleNodes (topologicalSort tasks edges) = Some (map Some c) \<and> is_cycle (task_graph tasks edges) c"
  using assms topologicalSort_outcome [of tasks edges]
  by (auto simp: topologicalSort_def all_outcome_def split: prod.splits bool.splits)

subsection \<open>Properties\<close>

text \<open>
  C27: When the sort succeeds, its order lists every task identifier once, the source of every
  edge between tasks before its target.
\<close>

theorem topologicalSort_order:
  assumes "tr_valid (topologicalSort tasks edges)"
  shows "distinct (tr_order (topologicalSort tasks edges)) \<and>
    set (tr_order (topologicalSort tasks edges)) = task_ids tasks \<and>
    task_graph tasks edges \<subseteq> {(u, v). before (tr_order (topologicalSort tasks edges)) u v}"
  using sort_valid [OF assms] by auto

theorem topologicalSort_order_witness:
  "tr_order (topologicalSort [plain_task ''b'', plain_task ''a''] [plain_edge ''a'' ''b'']) = [''a'', ''b''] \<and>
   task_graph [plain_task ''b'', plain_task ''a''] [plain_edge ''a'' ''b''] \<subseteq> {(u, v). before [''a'', ''b''] u v}"
proof -
  have order: "tr_order (topologicalSort [plain_task ''b'', plain_task ''a''] [plain_edge ''a'' ''b'']) = [''a'', ''b'']"
    by code_simp
  have "tr_valid (topologicalSort [plain_task ''b'', plain_task ''a''] [plain_edge ''a'' ''b''])" by code_simp
  from topologicalSort_order [OF this] show ?thesis by (simp add: order)
qed

text \<open>
  C37: The sort agrees with cycle detection: it is valid exactly when \<open>detectCycles\<close> reports
  nothing, that is, when the graph of the edges between tasks is acyclic.
\<close>

theorem topologicalSort_agrees:
  "(tr_valid (topologicalSort tasks edges) \<longleftrightarrow> detectCycles tasks edges = []) \<and>
   (tr_valid (topologicalSort tasks edges) \<longleftrightarrow> acyclic (task_graph tasks edges))"
  using sort_valid(1) [of tasks edges] sort_invalid(2) [of tasks edges] is_cycle_not_acyclic
  by (auto simp: detectCycles_acyclic)

text \<open>
  When the sort fails, its order is empty and the reported nodes are a cycle of the
  workflow, in order, each once and none of them undefined.
\<close>

theorem topologicalSort_cycle:
  assumes "\<not> tr_valid (topologicalSort tasks edges)"
  shows "tr_order (topologicalSort tasks edges) = [] \<and>
    (\<exists>c. tr_cycleNodes (topologicalSort tasks edges) = Some (map Some c) \<and>
       is_cycle (task_graph tasks edges) c)"
  using sort_invalid [OF assms] by blast

theorem topologicalSort_cycle_witness:
  "\<exists>c. Some [Some ''b'', Some ''c''] = Some (map Some c) \<and>
     is_cycle (task_graph [plain_task ''a'', plain_task ''b'', plain_task ''c'']
       [plain_edge ''a'' ''b'', plain_edge ''b'' ''c'', plain_edge ''c'' ''b'']) c"
proof -
  let ?t = "[plain_task ''a'', plain_task ''b'', plain_task ''c'']"
  let ?e = "[plain_edge ''a'' ''b'', plain_edge ''b'' ''c'', plain_edge ''c'' ''b'']"
  have r: "topologicalSort ?t ?e =
      \<lparr>tr_valid = False, tr_order = [], tr_cycleNodes = Some [Some ''b'', Some ''c'']\<rparr>" by code_simp
  have "\<not> tr_valid (topologicalSort ?t ?e)" by (simp add: r)
  from topologicalSort_cycle [OF this] show ?thesis by (simp add: r)
qed

end
