(* ===== verification/DagSerializer.thy ===== *)
theory DagSerializer
  imports JsSort TopologicalSorter
begin

section \<open>Canonical form of a workflow graph (packages/shared/src/dag/dag-serializer.ts)\<close>

text \<open>
  \<open>String.prototype.localeCompare\<close> depends on the collation of the host, so it is a parameter
  \<open>lc\<close> of \<open>serialize\<close>.  The properties ask of it what the language does (\<open>comparator\<close>) and,
  for canonicity, that only equal identifiers compare equal.
\<close>

record SerializedTask =
  st_id :: string
  st_name :: string
  st_type :: string

record SerializedEdge =
  se_sourceTaskId :: string
  se_targetTaskId :: string
  se_conditionExpr :: "string option"

record SerializedDAG =
  sd_tasks :: "SerializedTask list"
  sd_edges :: "SerializedEdge list"

definition ser_task :: "TaskDefinition \<Rightarrow> SerializedTask" where
  "ser_task t = \<lparr>st_id = td_id t, st_name = td_name t, st_type = td_type t\<rparr>"

definition ser_edge :: "Edge \<Rightarrow> SerializedEdge" where
  "ser_edge e = \<lparr>se_sourceTaskId = sourceTaskId e, se_targetTaskId = targetTaskId e,
     se_conditionExpr = conditionExpr e\<rparr>"

definition task_cmp :: "(string \<Rightarrow> string \<Rightarrow> int) \<Rightarrow> TaskDefinition \<Rightarrow> TaskDefinition \<Rightarrow> int" where
  "task_cmp lc a b = lc (td_id a) (td_id b)"

definition edge_cmp :: "(string \<Rightarrow> string \<Rightarrow> int) \<Rightarrow> Edge \<Rightarrow> Edge \<Rightarrow> int" where
  "edge_cmp lc a b =
     (let sourceCompare = lc (sourceTaskId a) (sourceTaskId b)
      in if sourceCompare \<noteq> 0 then sourceCompare else lc (targetTaskId a) (targetTaskId b))"

definition serialize ::
    "(string \<Rightarrow> string \<Rightarrow> int) \<Rightarrow> TaskDefinition list \<Rightarrow> Edge list \<Rightarrow> SerializedDAG" where
  "serialize lc tasks edges =
     \<lparr>sd_tasks = map ser_task (js_sort (task_cmp lc) tasks),
      sd_edges = map ser_edge (js_sort (edge_cmp lc) edges)\<rparr>"

definition deser_task :: "SerializedTask \<Rightarrow> TaskDefinition" where
  "deser_task t = \<lparr>td_id = st_id t, td_workflowId = [], td_name = st_name t, td_type = st_type t,
     td_config = [], td_timeoutMs = Fin 300000, td_retryPolicy = None\<rparr>"

definition deser_edge :: "SerializedEdge \<Rightarrow> Edge" where
  "deser_edge e = \<lparr>e_id = [], e_workflowId = [], sourceTaskId = se_sourceTaskId e,
     targetTaskId = se_targetTaskId e, conditionExpr = se_conditionExpr e\<rparr>"

definition deserialize :: "SerializedDAG \<Rightarrow> TaskDefinition list \<times> Edge list" where
  "deserialize s = (map deser_task (sd_tasks s), map deser_edge (sd_edges s))"

subsection \<open>The comparators\<close>

lemma comparator_task: "comparator lc \<Longrightarrow> comparator (task_cmp lc)"
  unfolding comparator_def task_cmp_def by blast

lemma comparator_edge:
  assumes "comparator lc" shows "comparator (edge_cmp lc)"
proof
  fix x y z :: Edge
  note sgn = comparator.cmp_sign [OF assms]
  show "sgn (edge_cmp lc x y) = - sgn (edge_cmp lc y x)"
    using sgn [of "sourceTaskId x" "sourceTaskId y"] sgn [of "targetTaskId x" "targetTaskId y"]
    by (auto simp: edge_cmp_def Let_def sgn_if split: if_splits)
  assume xy: "edge_cmp lc x y \<le> 0" and yz: "edge_cmp lc y z \<le> 0"
  let ?s = "\<lambda>a b. lc (sourceTaskId a) (sourceTaskId b)"
  have le: "?s x y \<le> 0" "?s y z \<le> 0" using xy yz by (auto simp: edge_cmp_def Let_def split: if_splits)
  show "edge_cmp lc x z \<le> 0"
  proof (cases "?s x y < 0 \<or> ?s y z < 0")
    case True
    then have "?s x z < 0"
      using le comparator.cmp_less_le [OF assms] comparator.cmp_le_less [OF assms] by blast
    then show ?thesis by (simp add: edge_cmp_def)
  next
    case False
    then have eq: "?s x y = 0" "?s y z = 0" using le by auto
    then have "lc (targetTaskId x) (targetTaskId z) \<le> 0"
      using xy yz comparator.cmp_trans [OF assms] by (auto simp: edge_cmp_def)
    moreover have "?s x z \<le> 0" using le comparator.cmp_trans [OF assms] by blast
    ultimately show ?thesis by (simp add: edge_cmp_def Let_def)
  qed
qed

subsection \<open>Canonicity and round trip\<close>

definition discriminates :: "(string \<Rightarrow> string \<Rightarrow> int) \<Rightarrow> bool" where
  "discriminates lc \<longleftrightarrow> (\<forall>x y. lc x y = 0 \<longrightarrow> x = y)"

lemma inj_key: "distinct (map f xs) \<Longrightarrow> x \<in> set xs \<Longrightarrow> y \<in> set xs \<Longrightarrow> f x = f y \<Longrightarrow> x = y"
  by (auto simp: distinct_map inj_on_def)

lemma sort_tasks_canonical:
  assumes "comparator lc" "discriminates lc" "distinct (map td_id tasks)" "mset tasks = mset tasks'"
  shows "js_sort (task_cmp lc) tasks = js_sort (task_cmp lc) tasks'"
  using assms(2) inj_key [OF assms(3)]
  by (intro comparator.sort_canonical [OF comparator_task [OF assms(1)] assms(4)])
     (auto simp: task_cmp_def discriminates_def)

lemma sort_edges_canonical:
  assumes "comparator lc" "discriminates lc"
    "distinct (map (\<lambda>e. (sourceTaskId e, targetTaskId e)) edges)" "mset edges = mset edges'"
  shows "js_sort (edge_cmp lc) edges = js_sort (edge_cmp lc) edges'"
  using assms(2) inj_key [OF assms(3)]
  by (intro comparator.sort_canonical [OF comparator_edge [OF assms(1)] assms(4)])
     (auto simp: edge_cmp_def discriminates_def Let_def split: if_splits)

lemma in_order_map:
  "(\<And>a b. cmp a b = cmp' (f a) (f b)) \<Longrightarrow>
     sorted_wrt (\<lambda>x y. cmp' x y \<le> 0) (map f xs) = sorted_wrt (\<lambda>x y. cmp x y \<le> 0) xs"
  by (simp add: sorted_wrt_map)

lemma deser_ser_task: "ser_task (deser_task t) = t"
  by (simp add: ser_task_def deser_task_def)

lemma deser_ser_edge: "ser_edge (deser_edge e) = e"
  by (simp add: ser_edge_def deser_edge_def)

lemma deser_fields [simp]:
  "td_id (deser_task (ser_task t)) = td_id t"
  "sourceTaskId (deser_edge (ser_edge e)) = sourceTaskId e"
  "targetTaskId (deser_edge (ser_edge e)) = targetTaskId e"
  by (simp_all add: deser_task_def ser_task_def deser_edge_def ser_edge_def)

lemma deser_keys:
  "task_cmp lc (deser_task (ser_task a)) (deser_task (ser_task b)) = task_cmp lc a b"
  "edge_cmp lc (deser_edge (ser_edge a')) (deser_edge (ser_edge b')) = edge_cmp lc a' b'"
  by (simp_all add: task_cmp_def edge_cmp_def Let_def)

lemma resort_tasks:
  assumes "comparator lc"
  shows "js_sort (task_cmp lc) (map (deser_task \<circ> ser_task) (js_sort (task_cmp lc) tasks))
    = map (deser_task \<circ> ser_task) (js_sort (task_cmp lc) tasks)"
proof (rule comparator.sort_id [OF comparator_task [OF assms]])
  show "sorted_wrt (\<lambda>x y. task_cmp lc x y \<le> 0) (map (deser_task \<circ> ser_task) (js_sort (task_cmp lc) tasks))"
    using comparator.sort_in_order [OF comparator_task [OF assms], of tasks]
    by (simp add: sorted_wrt_map deser_keys)
qed

lemma resort_edges:
  assumes "comparator lc"
  shows "js_sort (edge_cmp lc) (map (deser_edge \<circ> ser_edge) (js_sort (edge_cmp lc) edges))
    = map (deser_edge \<circ> ser_edge) (js_sort (edge_cmp lc) edges)"
proof (rule comparator.sort_id [OF comparator_edge [OF assms]])
  show "sorted_wrt (\<lambda>x y. edge_cmp lc x y \<le> 0) (map (deser_edge \<circ> ser_edge) (js_sort (edge_cmp lc) edges))"
    using comparator.sort_in_order [OF comparator_edge [OF assms], of edges]
    by (simp add: sorted_wrt_map deser_keys)
qed

text \<open>Code-unit order, an instance of \<open>localeCompare\<close> the examples use.\<close>

fun ascii_cmp :: "string \<Rightarrow> string \<Rightarrow> int" where
  "ascii_cmp [] [] = 0"
| "ascii_cmp [] (y # ys) = -1"
| "ascii_cmp (x # xs) [] = 1"
| "ascii_cmp (x # xs) (y # ys) =
     (if x = y then ascii_cmp xs ys
      else if (of_char x :: nat) < of_char y then -1 else 1)"

lemma ascii_sign: "sgn (ascii_cmp x y) = - sgn (ascii_cmp y x)"
  by (induction x y rule: ascii_cmp.induct) (auto simp: not_less_iff_gr_or_eq)

lemma ascii_cmp_0: "ascii_cmp x y = 0 \<longleftrightarrow> x = y"
  by (induction x y rule: ascii_cmp.induct) auto

lemma ascii_trans: "ascii_cmp x y \<le> 0 \<Longrightarrow> ascii_cmp y z \<le> 0 \<Longrightarrow> ascii_cmp x z \<le> 0"
proof (induction x y arbitrary: z rule: ascii_cmp.induct)
  case (4 x xs y ys)
  then show ?case by (cases z) (auto split: if_splits)
qed (case_tac z; simp)+

interpretation ascii: comparator ascii_cmp
  by unfold_locales (rule ascii_sign, rule ascii_trans)

subsection \<open>Properties\<close>

text \<open>
  Two orderings of the same tasks and of the same edges have the same canonical form, when
  the task identifiers and the edges' end points are not repeated and only equal strings
  compare equal.
\<close>

theorem serialize_canonical:
  assumes "comparator lc" "discriminates lc"
    "distinct (map td_id tasks)" "mset tasks = mset tasks'"
    "distinct (map (\<lambda>e. (sourceTaskId e, targetTaskId e)) edges)" "mset edges = mset edges'"
  shows "serialize lc tasks edges = serialize lc tasks' edges'"
  using sort_tasks_canonical [OF assms(1-4)] sort_edges_canonical [OF assms(1,2,5,6)]
  by (simp add: serialize_def)

theorem serialize_canonical_witness:
  "serialize ascii_cmp [plain_task ''b'', plain_task ''a''] [plain_edge ''a'' ''b''] =
   serialize ascii_cmp [plain_task ''a'', plain_task ''b''] [plain_edge ''a'' ''b'']"
  by (rule serialize_canonical) (simp_all add: ascii.comparator_axioms discriminates_def ascii_cmp_0)

text \<open>
  Deserializing a canonical form and serializing again gives it back, conditions included,
  and the deserialized workflow is one validation judges like the original.
\<close>

theorem serialize_roundtrip:
  assumes "comparator lc" "deserialize (serialize lc tasks edges) = (tasks', edges')"
  shows "serialize lc tasks' edges' = serialize lc tasks edges \<and>
    task_graph tasks' edges' = task_graph tasks edges \<and>
    dv_valid (validateDAG tasks' edges') = dv_valid (validateDAG tasks edges)"
proof -
  have t: "tasks' = map (deser_task \<circ> ser_task) (js_sort (task_cmp lc) tasks)"
    and e: "edges' = map (deser_edge \<circ> ser_edge) (js_sort (edge_cmp lc) edges)"
    using assms(2) by (auto simp: deserialize_def serialize_def)
  have "serialize lc tasks' edges' = serialize lc tasks edges"
    unfolding serialize_def t e resort_tasks [OF assms(1)] resort_edges [OF assms(1)]
    by (simp add: deser_ser_task deser_ser_edge)
  moreover have ids: "task_ids tasks' = task_ids tasks"
    by (simp add: task_ids_def t image_image)
  moreover have rel: "edge_rel edges' = edge_rel edges"
    by (simp add: edge_rel_def e image_image)
  ultimately show ?thesis
    by (simp add: validateDAG_accepts task_graph_def flip: edge_rel_def)
qed

theorem serialize_roundtrip_witness:
  "serialize ascii_cmp [deser_task (ser_task (plain_task ''a''))] [] = serialize ascii_cmp [plain_task ''a''] []"
  using serialize_roundtrip [OF ascii.comparator_axioms,
      of "[plain_task ''a'']" "[]" "[deser_task (ser_task (plain_task ''a''))]" "[]"]
  by (simp add: deserialize_def serialize_def)

end
