(* ===== verification/StateMachine.thy ===== *)
theory StateMachine
  imports Types
begin

section \<open>The task state machine (packages/shared/src/state-machine/state-machine.ts)\<close>

text \<open>
  \<open>TERMINAL_STATES\<close>, \<open>VALID_TRANSITIONS\<close>, \<open>isTerminalState\<close> and \<open>transition\<close>.  The
  timestamp of an audit entry is \<open>new Date()\<close>, the argument \<open>now\<close> of the model.  The
  inductive relation \<open>task_step\<close> and its runs \<open>task_run\<close> are the histories a caller of
  \<open>transition\<close> can produce; the lemmas say which ones there are.
\<close>

record TransitionAuditEntry =
  ae_taskId :: string
  ae_previousState :: TaskStatus
  ae_newState :: TaskStatus
  ae_timestamp :: date

record TransitionErrorInfo =
  te_message :: string
  te_currentState :: TaskStatus
  te_attemptedState :: TaskStatus
  te_taskId :: string

datatype TransitionResult =
    TransitionSuccess TransitionAuditEntry
  | TransitionError TransitionErrorInfo

definition TERMINAL_STATES :: "TaskStatus list" where
  "TERMINAL_STATES = [Completed, Failed, Cancelled, TimedOut]"

definition VALID_TRANSITIONS :: "(TaskStatus \<times> TaskStatus list) list" where
  "VALID_TRANSITIONS =
     [(Pending, [Running, Cancelled]),
      (Running, [Completed, Failed, Cancelled, TimedOut])]"

definition isTerminalState :: "TaskStatus \<Rightarrow> bool" where
  "isTerminalState s \<longleftrightarrow> s \<in> set TERMINAL_STATES"

definition transition :: "date \<Rightarrow> TaskStatus \<Rightarrow> TaskStatus \<Rightarrow> string \<Rightarrow> TransitionResult" where
  "transition now currentState targetState taskId =
     (if isTerminalState currentState then
        TransitionError
          \<lparr>te_message = ''Task '' @ taskId @ '' is already in terminal state '' @ [CHR 0x27]
              @ show_status currentState @ [CHR 0x27] @ ''; cannot transition to '' @ [CHR 0x27]
              @ show_status targetState @ [CHR 0x27],
           te_currentState = currentState, te_attemptedState = targetState, te_taskId = taskId\<rparr>
      else if targetState \<notin> set (case map_of VALID_TRANSITIONS currentState of
                                    None \<Rightarrow> [] | Some allowed \<Rightarrow> allowed) then
        TransitionError
          \<lparr>te_message = ''Invalid state transition from '' @ [CHR 0x27] @ show_status currentState
              @ [CHR 0x27] @ '' to '' @ [CHR 0x27] @ show_status targetState @ [CHR 0x27]
              @ '' for task '' @ taskId,
           te_currentState = currentState, te_attemptedState = targetState, te_taskId = taskId\<rparr>
      else
        TransitionSuccess
          \<lparr>ae_taskId = taskId, ae_previousState = currentState, ae_newState = targetState,
           ae_timestamp = now\<rparr>)"

definition succeeds :: "TransitionResult \<Rightarrow> bool" where
  "succeeds r = (case r of TransitionSuccess _ \<Rightarrow> True | TransitionError _ \<Rightarrow> False)"

text \<open>A step is a call of \<open>transition\<close> that succeeds; a run is a sequence of steps.\<close>

inductive task_step :: "TaskStatus \<Rightarrow> TaskStatus \<Rightarrow> bool" where
  "succeeds (transition now s t tid) \<Longrightarrow> task_step s t"

inductive task_run :: "TaskStatus \<Rightarrow> TaskStatus list \<Rightarrow> TaskStatus \<Rightarrow> bool" where
  run_nil: "task_run s [] s"
| run_cons: "task_step s t \<Longrightarrow> task_run t us u \<Longrightarrow> task_run s (t # us) u"

lemmas transition_defs = transition_def isTerminalState_def TERMINAL_STATES_def
  VALID_TRANSITIONS_def succeeds_def

lemma task_step_iff:
  "task_step s t \<longleftrightarrow>
     s = Pending \<and> t \<in> {Running, Cancelled} \<or>
     s = Running \<and> t \<in> {Completed, Failed, Cancelled, TimedOut}"
  by (cases s; cases t) (auto simp: task_step.simps transition_defs)

inductive_cases run_Nil_elim: "task_run s [] u"
inductive_cases run_Cons_elim: "task_run s (t # us) u"

lemma stuck_run: "task_run s ts u \<Longrightarrow> (\<And>t. \<not> task_step s t) \<Longrightarrow> ts = [] \<and> u = s"
  by (induction rule: task_run.induct) auto

lemma terminal_no_step: "isTerminalState s \<Longrightarrow> \<not> task_step s t"
  by (auto simp: task_step_iff isTerminalState_def TERMINAL_STATES_def)

text \<open>The rank of a state: how many steps can follow.\<close>

fun rank :: "TaskStatus \<Rightarrow> nat" where
  "rank Pending = 2"
| "rank Running = 1"
| "rank s = 0"

lemma task_step_rank: "task_step s t \<Longrightarrow> rank t < rank s"
  by (auto simp: task_step_iff)

lemma task_run_rank: "task_run s ts u \<Longrightarrow> length ts + rank u \<le> rank s"
  by (induction rule: task_run.induct) (auto dest: task_step_rank)

lemma task_step_not_stuck: "task_step s t \<Longrightarrow> t = Running \<or> isTerminalState t"
  by (auto simp: task_step_iff isTerminalState_def TERMINAL_STATES_def)



end
