(* ===== verification/RetryEngine.thy ===== *)
theory RetryEngine
  imports Types
begin

section \<open>Retry policies (packages/shared/src/retry/retry-engine.ts)\<close>

text \<open>
  \<open>validateRetryPolicy\<close> reads a policy that may come from a request body, so its three fields
  are arbitrary values (\<open>jsval\<close>); \<open>calculateRetryDelay\<close> and \<open>shouldRetry\<close> take the typed
  policy.  Attempts are counted by integers.  The locale \<open>retry_schedule\<close> is what the
  executor relies on: a delay between two bounds that never shrinks from one attempt to the
  next, and a bound on the attempts; it is interpreted on the two functions below.
\<close>

definition MAX_DELAY_MS :: jsnum where "MAX_DELAY_MS = Fin 300000"
definition MIN_BASE_DELAY :: jsnum where "MIN_BASE_DELAY = Fin 100"
definition MAX_BASE_DELAY :: jsnum where "MAX_BASE_DELAY = Fin 300000"
definition MIN_MAX_ATTEMPTS :: jsnum where "MIN_MAX_ATTEMPTS = Fin 1"
definition MAX_MAX_ATTEMPTS :: jsnum where "MAX_MAX_ATTEMPTS = Fin 10"

record RetryPolicyValidationError =
  ve_field :: string
  ve_message :: string
  ve_value :: jsval

definition validStrategies :: "string list" where
  "validStrategies = [''fixed'', ''exponential'', ''linear'']"

definition strategy_ok :: "jsval \<Rightarrow> bool" where
  "strategy_ok v = (case v of JStr s \<Rightarrow> s \<in> set validStrategies | _ \<Rightarrow> False)"

definition maxAttempts_ok :: "jsval \<Rightarrow> bool" where
  "maxAttempts_ok v = (case v of
       JNum n \<Rightarrow> js_isInteger n \<and> \<not> js_less n MIN_MAX_ATTEMPTS \<and> \<not> js_less MAX_MAX_ATTEMPTS n
     | _ \<Rightarrow> False)"

definition baseDelay_ok :: "jsval \<Rightarrow> bool" where
  "baseDelay_ok v = (case v of
       JNum n \<Rightarrow> js_isFinite n \<and> \<not> js_less n MIN_BASE_DELAY \<and> \<not> js_less MAX_BASE_DELAY n
     | _ \<Rightarrow> False)"

definition validateRetryPolicy :: "jsval \<Rightarrow> jsval \<Rightarrow> jsval \<Rightarrow> RetryPolicyValidationError list" where
  "validateRetryPolicy strat attempts delay =
     (if strategy_ok strat then [] else
        [\<lparr>ve_field = ''strategy'',
          ve_message = ''Strategy must be one of: fixed, exponential, linear'', ve_value = strat\<rparr>]) @
     (if maxAttempts_ok attempts then [] else
        [\<lparr>ve_field = ''maxAttempts'',
          ve_message = ''maxAttempts must be an integer between 1 and 10'', ve_value = attempts\<rparr>]) @
     (if baseDelay_ok delay then [] else
        [\<lparr>ve_field = ''baseDelay'',
          ve_message = ''baseDelay must be a number between 100 and 300000 ms'', ve_value = delay\<rparr>])"

definition calculateRetryDelay :: "RetryPolicy \<Rightarrow> int \<Rightarrow> jsnum" where
  "calculateRetryDelay policy attemptNumber = (case strategy policy of
       Fixed \<Rightarrow> baseDelay policy
     | Exponential \<Rightarrow> js_min (js_mul (baseDelay policy) (js_pow2 (attemptNumber - 1))) MAX_DELAY_MS
     | Linear \<Rightarrow> js_min (js_mul (baseDelay policy) (js_fin (of_int attemptNumber))) MAX_DELAY_MS)"

definition shouldRetry :: "RetryPolicy \<Rightarrow> int \<Rightarrow> bool" where
  "shouldRetry policy currentAttempt = js_less (js_fin (of_int currentAttempt)) (maxAttempts policy)"

subsection \<open>Valid policies\<close>

definition strategy_name :: "Strategy \<Rightarrow> string" where
  "strategy_name s = (case s of Fixed \<Rightarrow> ''fixed'' | Exponential \<Rightarrow> ''exponential'' | Linear \<Rightarrow> ''linear'')"

text \<open>A typed policy whose fields pass the validator.\<close>

definition valid_policy :: "RetryPolicy \<Rightarrow> bool" where
  "valid_policy p \<longleftrightarrow>
     validateRetryPolicy (JStr (strategy_name (strategy p))) (JNum (maxAttempts p)) (JNum (baseDelay p)) = []"

lemmas retry_consts = MAX_DELAY_MS_def MIN_BASE_DELAY_def MAX_BASE_DELAY_def
  MIN_MAX_ATTEMPTS_def MAX_MAX_ATTEMPTS_def

lemma valid_policy_iff:
  "valid_policy p \<longleftrightarrow>
     (\<exists>b. baseDelay p = Fin b \<and> 100 \<le> b \<and> b \<le> 300000) \<and>
     (\<exists>m::int. maxAttempts p = Fin (of_int m) \<and> 1 \<le> m \<and> m \<le> 10)"
proof -
  have "baseDelay_ok (JNum n) \<longleftrightarrow> (\<exists>b. n = Fin b \<and> 100 \<le> b \<and> b \<le> 300000)" for n
    by (cases n) (auto simp: baseDelay_ok_def js_isFinite_def retry_consts)
  moreover have "maxAttempts_ok (JNum n) \<longleftrightarrow> (\<exists>m::int. n = Fin (of_int m) \<and> 1 \<le> m \<and> m \<le> 10)" for n
  proof (cases n)
    case (Fin x)
    have "of_int \<lfloor>x\<rfloor> = x \<and> 1 \<le> x \<and> x \<le> 10 \<longleftrightarrow> (\<exists>m::int. x = of_int m \<and> 1 \<le> m \<and> m \<le> 10)"
      by (auto intro!: exI [of _ "\<lfloor>x\<rfloor>"] simp: le_floor_iff floor_le_iff)
    then show ?thesis using Fin
      by (simp add: maxAttempts_ok_def js_isInteger_def retry_consts not_less)
  qed (simp_all add: maxAttempts_ok_def js_isInteger_def)
  ultimately show ?thesis
    by (cases "strategy p")
       (auto simp: valid_policy_def validateRetryPolicy_def strategy_name_def strategy_ok_def
         validStrategies_def)
qed

subsection \<open>The delay\<close>

lemma capped_delay:
  assumes "100 \<le> b" "0 \<le> y"
  shows "js_min (js_mul (Fin b) (js_fin y)) MAX_DELAY_MS = Fin (min (fl (b * fl y)) 300000)"
proof -
  have b: "0 < b" and fy: "0 \<le> fl y" using assms fl_nonneg by auto
  show ?thesis using js_fin_cases [OF assms(2)]
  proof
    assume "js_fin y = Fin (fl y) \<and> fl y \<le> max_double"
    then show ?thesis
      using js_min_js_fin [of "b * fl y" 300000] b fy by (simp add: js_mul_def retry_consts)
  next
    assume inf: "js_fin y = PosInf \<and> max_double < fl y"
    have "(3000::rat) \<le> max_double" by (simp add: max_double_def)
    then have "3000 \<le> fl y" using inf by linarith
    then have "100 * 3000 \<le> b * fl y" using assms(1) by (intro mult_mono) auto
    then have "300000 \<le> fl (b * fl y)" using dbl.rnd_ge_int [of 300000 "b * fl y"] by simp
    then show ?thesis using inf b by (simp add: js_mul_def retry_consts js_min_PosInf)
  qed
qed

text \<open>What an attempt multiplies the base delay with.\<close>

definition growth :: "Strategy \<Rightarrow> int \<Rightarrow> rat" where
  "growth s n = (case s of Fixed \<Rightarrow> 1 | Exponential \<Rightarrow> 2 powi (n - 1) | Linear \<Rightarrow> of_int n)"

lemma growth_ge_1: "1 \<le> n \<Longrightarrow> 1 \<le> growth s n"
  by (cases s) (auto simp: growth_def)

lemma growth_mono: "n \<le> m \<Longrightarrow> growth s n \<le> growth s m"
  by (cases s) (auto simp: growth_def intro: power_int_increasing)

lemma delay_eq:
  assumes "baseDelay p = Fin b" "100 \<le> b" "1 \<le> n" "strategy p \<noteq> Fixed"
  shows "calculateRetryDelay p n = Fin (min (fl (b * fl (growth (strategy p) n))) 300000)"
  using assms capped_delay [OF assms(2), of "growth (strategy p) n"] growth_ge_1 [OF assms(3), of "strategy p"]
  by (cases "strategy p") (auto simp: calculateRetryDelay_def js_pow2_def growth_def)

lemma delay_bounds:
  assumes "valid_policy p" "1 \<le> n"
  shows "\<exists>d. calculateRetryDelay p n = Fin d \<and> 100 \<le> d \<and> d \<le> 300000"
proof -
  obtain b where b: "baseDelay p = Fin b" "100 \<le> b" "b \<le> 300000"
    using assms(1) by (auto simp: valid_policy_iff)
  show ?thesis
  proof (cases "strategy p = Fixed")
    case True
    then show ?thesis using b by (simp add: calculateRetryDelay_def)
  next
    case False
    have "1 \<le> fl (growth (strategy p) n)"
      using dbl.rnd_ge_int [of 1] growth_ge_1 [OF assms(2)] by simp
    then have "100 * 1 \<le> b * fl (growth (strategy p) n)" using b(2) by (intro mult_mono) auto
    then have "100 \<le> fl (b * fl (growth (strategy p) n))"
      using dbl.rnd_ge_int [of 100] by simp
    then show ?thesis using delay_eq [OF b(1,2) assms(2) False] by simp
  qed
qed

definition js_val :: "jsnum \<Rightarrow> rat" where
  "js_val a = (case a of Fin x \<Rightarrow> x | _ \<Rightarrow> 0)"

lemma delay_mono:
  assumes "valid_policy p" "1 \<le> n" "n \<le> m"
  shows "js_val (calculateRetryDelay p n) \<le> js_val (calculateRetryDelay p m)"
proof (cases "strategy p = Fixed")
  case True
  then show ?thesis by (simp add: calculateRetryDelay_def)
next
  case False
  obtain b where b: "baseDelay p = Fin b" "100 \<le> b" using assms(1) by (auto simp: valid_policy_iff)
  have "fl (growth (strategy p) n) \<le> fl (growth (strategy p) m)"
    using growth_mono [OF assms(3)] by (rule fl_mono)
  then have "fl (b * fl (growth (strategy p) n)) \<le> fl (b * fl (growth (strategy p) m))"
    using b(2) by (intro fl_mono [of "b * _"] mult_left_mono) auto
  then show ?thesis
    using delay_eq [OF b _ False, of n] delay_eq [OF b _ False, of m] assms(2,3)
    by (simp add: js_val_def)
qed

lemma retry_attempts_bound: "valid_policy p \<Longrightarrow> shouldRetry p n \<Longrightarrow> 1 \<le> n \<Longrightarrow> n < 10"
proof (rule ccontr)
  assume p: "valid_policy p" "shouldRetry p n" and "\<not> n < 10"
  then have ten: "(of_int 10 :: rat) \<le> of_int n" by (subst of_int_le_iff) simp
  obtain m :: int where m: "maxAttempts p = Fin (of_int m)" "m \<le> 10"
    using p(1) by (auto simp: valid_policy_iff)
  have "(of_int m :: rat) \<le> of_int 10" using m(2) by (subst of_int_le_iff)
  moreover have "of_int 10 \<le> fl (of_int n)" using dbl.rnd_ge_int [of 10] ten by simp
  ultimately have "of_int m \<le> fl (of_int n)" by (rule order_trans)
  moreover have "(0::rat) \<le> of_int n" using ten by simp
  ultimately show False
    using p(2) js_fin_cases [of "of_int n"] by (auto simp: shouldRetry_def m(1))
qed

subsection \<open>The interface of a retry schedule\<close>

locale retry_schedule =
  fixes delay :: "'p \<Rightarrow> int \<Rightarrow> jsnum"
    and again :: "'p \<Rightarrow> int \<Rightarrow> bool"
    and ok :: "'p \<Rightarrow> bool"
    and lo hi :: rat
    and most :: int
  assumes delay_in: "ok p \<Longrightarrow> 1 \<le> n \<Longrightarrow> \<exists>d. delay p n = Fin d \<and> lo \<le> d \<and> d \<le> hi"
    and again_less: "ok p \<Longrightarrow> again p n \<Longrightarrow> 1 \<le> n \<Longrightarrow> n < most"
begin

text \<open>The delays before the attempts that follow the first \<open>k\<close> failures.\<close>

lemma total_delay_le:
  assumes "ok p"
  shows "(\<Sum>n\<leftarrow>[1..int k]. js_val (delay p n)) \<le> of_nat k * hi"
proof (induction k)
  case 0
  then show ?case by simp
next
  case (Suc k)
  obtain d where "delay p (int (Suc k)) = Fin d" "d \<le> hi" using delay_in [OF assms, of "int (Suc k)"] by auto
  moreover have "[1..int (Suc k)] = [1..int k] @ [int (Suc k)]" by (simp add: upto_rec2)
  moreover have "of_nat (Suc k) * hi = of_nat k * hi + hi" by (simp add: distrib_right)
  ultimately show ?case using Suc by (simp add: js_val_def)
qed

lemma consecutive_retries:
  assumes "ok p" "\<And>n. 1 \<le> n \<Longrightarrow> n \<le> int k \<Longrightarrow> again p n" "1 \<le> most"
  shows "int k \<le> most - 1"
  using again_less [OF assms(1) assms(2) [of "int k"]] assms(3) by (cases k) auto

end

interpretation rs: retry_schedule calculateRetryDelay shouldRetry valid_policy 100 300000 10
  by unfold_locales (auto intro: delay_bounds retry_attempts_bound)

subsection \<open>Properties\<close>

text \<open>
  C33: A policy the validator accepts never waits less than 100 ms nor more than 300 s before
  an attempt, for any attempt number from 1, and never waits less before a later attempt.
\<close>

theorem retry_delay_bounded_monotone:
  assumes "valid_policy p" "1 \<le> n" "n \<le> m"
  shows "\<exists>d e. calculateRetryDelay p n = Fin d \<and> calculateRetryDelay p m = Fin e \<and>
    100 \<le> d \<and> d \<le> e \<and> e \<le> 300000"
proof -
  obtain d e where "calculateRetryDelay p n = Fin d" "100 \<le> d" "calculateRetryDelay p m = Fin e" "e \<le> 300000"
    using delay_bounds [OF assms(1), of n] delay_bounds [OF assms(1), of m] assms(2,3) by auto
  then show ?thesis using delay_mono [OF assms] by (simp add: js_val_def)
qed

theorem retry_delay_bounded_monotone_witness:
  "\<exists>d e. calculateRetryDelay \<lparr>strategy = Linear, maxAttempts = Fin 3, baseDelay = Fin 150\<rparr> 1 = Fin d \<and>
     calculateRetryDelay \<lparr>strategy = Linear, maxAttempts = Fin 3, baseDelay = Fin 150\<rparr> 2 = Fin e \<and>
     100 \<le> d \<and> d \<le> e \<and> e \<le> 300000"
proof -
  have "valid_policy \<lparr>strategy = Linear, maxAttempts = Fin 3, baseDelay = Fin 150\<rparr>"
    by (auto simp: valid_policy_iff intro!: exI [of _ "3::int"])
  then show ?thesis by (rule retry_delay_bounded_monotone) simp_all
qed

text \<open>
  For an integral base delay in range the delay is the documented formula over the
  integers, without rounding error, for every attempt from 1: the base delay itself,
  \<open>min(baseDelay * 2^(attempt - 1), 300000)\<close> or \<open>min(baseDelay * attempt, 300000)\<close>.
\<close>

theorem retry_delay_formula:
  assumes "baseDelay p = Fin (of_int b)" "100 \<le> b" "b \<le> 300000" "1 \<le> n"
  shows "calculateRetryDelay p n = Fin (of_int (case strategy p of
      Fixed \<Rightarrow> b
    | Exponential \<Rightarrow> min (b * 2 ^ nat (n - 1)) 300000
    | Linear \<Rightarrow> min (b * n) 300000))"
proof (cases "strategy p = Fixed")
  case True
  then show ?thesis using assms by (simp add: calculateRetryDelay_def)
next
  case False
  define g where "g = (if strategy p = Linear then n else 2 ^ nat (n - 1))"
  have grow: "growth (strategy p) n = of_int g"
    using False assms(4) by (cases "strategy p") (auto simp: growth_def g_def power_int_def)
  have g1: "1 \<le> g" using assms(4) by (simp add: g_def)
  have "min (fl (of_int b * fl (of_int g))) 300000 = of_int (min (b * g) 300000)"
  proof (cases "g \<le> 2 ^ 33")
    case True
    have "b * g \<le> 300000 * 2 ^ 33" using True assms(2,3) g1 by (intro mult_mono) auto
    then have "\<bar>b * g\<bar> \<le> 2 ^ 53" using assms(2) g1 by simp
    then have "fl (of_int (b * g)) = of_int (b * g)" by (rule fl_of_int)
    moreover have "fl (of_int g) = of_int g" using True g1 by (intro fl_of_int) auto
    ultimately show ?thesis by (simp add: of_int_min)
  next
    case False
    then have "(of_int (2 ^ 33) :: rat) \<le> of_int g" by (subst of_int_le_iff) simp
    then have "of_int (2 ^ 33) \<le> fl (of_int g)" using dbl.rnd_ge_int [of "2 ^ 33"] by simp
    then have "100 * of_int (2 ^ 33) \<le> of_int b * fl (of_int g)"
      using assms(2) by (intro mult_mono) auto
    then have "300000 \<le> fl (of_int b * fl (of_int g))" using dbl.rnd_ge_int [of 300000] by simp
    moreover have "300000 \<le> b * g"
    proof -
      have "100 * 2 ^ 33 \<le> b * g" using False assms(2) by (intro mult_mono) auto
      then show ?thesis by simp
    qed
    ultimately show ?thesis by (simp add: min_def)
  qed
  then show ?thesis
    using delay_eq [OF assms(1) _ assms(4) False, unfolded grow] assms(2) False
    by (cases "strategy p") (auto simp: g_def)
qed

theorem retry_delay_formula_witness:
  "calculateRetryDelay \<lparr>strategy = Exponential, maxAttempts = Fin 5, baseDelay = Fin 100\<rparr> 4 = Fin 800"
  using retry_delay_formula
    [of "\<lparr>strategy = Exponential, maxAttempts = Fin 5, baseDelay = Fin 100\<rparr>" 100 4]
  by (simp add: eval_nat_numeral)

text \<open>
  A policy the validator accepts allows at most nine consecutive retries, and the waits
  before them add up to at most nine times 300 s.
\<close>

theorem retry_total_bounded:
  assumes "valid_policy p" "\<And>n. 1 \<le> n \<Longrightarrow> n \<le> int k \<Longrightarrow> shouldRetry p n"
  shows "k \<le> 9 \<and> (\<Sum>n\<leftarrow>[1..int k]. js_val (calculateRetryDelay p n)) \<le> 2700000"
proof -
  have k: "int k \<le> 9" using rs.consecutive_retries [OF assms] by simp
  have "(\<Sum>n\<leftarrow>[1..int k]. js_val (calculateRetryDelay p n)) \<le> of_nat k * 300000"
    using assms(1) by (rule rs.total_delay_le)
  moreover have "(of_nat k :: rat) \<le> of_nat 9" using k by (subst of_nat_le_iff) simp
  ultimately show ?thesis using k by simp
qed

theorem retry_total_bounded_witness:
  "(1::nat) \<le> 9 \<and>
   (\<Sum>n\<leftarrow>[1..int 1]. js_val (calculateRetryDelay \<lparr>strategy = Fixed, maxAttempts = Fin 2, baseDelay = Fin 100\<rparr> n)) \<le> 2700000"
proof (rule retry_total_bounded)
  show "valid_policy \<lparr>strategy = Fixed, maxAttempts = Fin 2, baseDelay = Fin 100\<rparr>"
    by (auto simp: valid_policy_iff intro!: exI [of _ "2::int"])
  show "shouldRetry \<lparr>strategy = Fixed, maxAttempts = Fin 2, baseDelay = Fin 100\<rparr> n"
    if "1 \<le> n" "n \<le> int 1" for n
  proof -
    have "n = 1" using that by simp
    moreover have "fl 1 = 1" using fl_of_int [of 1] by simp
    ultimately show ?thesis by (simp add: shouldRetry_def js_fin_def max_double_def)
  qed
qed

end
