(* ===== verification/JsString.thy ===== *)
theory JsString
  imports JsNumber
begin

section \<open>JavaScript strings: splitting and reading numbers\<close>

text \<open>
  A string is a list of code units.  \<open>js_split\<close> is \<open>String.split\<close> with a one-character
  separator, \<open>split_ws\<close> is \<open>split(/\s+/)\<close>, \<open>js_trim\<close> is \<open>trim\<close>, \<open>js_parseInt\<close> is
  \<open>parseInt(s, 10)\<close> with \<^const>\<open>None\<close> for \<open>NaN\<close>, and \<open>js_Number\<close> is \<open>Number(s)\<close> on the
  string numeric literals of the language.
\<close>

definition code_unit :: "char \<Rightarrow> nat" where
  "code_unit c = of_char c"

definition is_ws :: "char \<Rightarrow> bool" where
  "is_ws c \<longleftrightarrow> code_unit c \<in> {9, 10, 11, 12, 13, 32, 160}"

definition is_digit :: "char \<Rightarrow> bool" where
  "is_digit c \<longleftrightarrow> 48 \<le> code_unit c \<and> code_unit c \<le> 57"

subsection \<open>Splitting\<close>

fun js_split :: "char \<Rightarrow> string \<Rightarrow> string list" where
  "js_split c [] = [[]]"
| "js_split c (x # xs) =
     (if x = c then [] # js_split c xs
      else case js_split c xs of [] \<Rightarrow> [[x]] | y # ys \<Rightarrow> (x # y) # ys)"

definition js_trim :: "string \<Rightarrow> string" where
  "js_trim s = rev (dropWhile is_ws (rev (dropWhile is_ws s)))"

text \<open>Splitting at maximal runs of white space.\<close>

function split_ws :: "string \<Rightarrow> string list" where
  "split_ws s =
     (let word = takeWhile (\<lambda>c. \<not> is_ws c) s; rest = dropWhile (\<lambda>c. \<not> is_ws c) s
      in if rest = [] then [word] else word # split_ws (dropWhile is_ws rest))"
  by pat_completeness auto
termination
proof (relation "measure length", goal_cases)
  case 1
  then show ?case by simp
next
  case (2 s word rest)
  then obtain c cs where rest: "rest = c # cs" by (metis neq_Nil_conv)
  then have "is_ws c" using 2 by (metis dropWhile_eq_Cons_conv)
  have "length (dropWhile is_ws rest) \<le> length cs"
    using length_dropWhile_le [of is_ws cs] \<open>is_ws c\<close> rest by simp
  moreover have "length rest \<le> length s" using 2 length_dropWhile_le by simp
  ultimately show ?case using rest by simp
qed

declare split_ws.simps [simp del]

lemma js_split_nonempty [simp]: "js_split c s \<noteq> []"
  by (induction s) (auto split: list.split)

lemma js_split_word: "c \<notin> set w \<Longrightarrow> js_split c w = [w]"
  by (induction w) auto

lemma js_split_Cons: "c \<notin> set w \<Longrightarrow> js_split c (w @ c # s) = w # js_split c s"
  by (induction w) auto

subsection \<open>Reading integers\<close>

definition digit_val :: "char \<Rightarrow> int" where
  "digit_val c = int (code_unit c) - 48"

definition digits_value :: "string \<Rightarrow> int" where
  "digits_value cs = foldl (\<lambda>a c. 10 * a + digit_val c) 0 cs"

definition js_parseInt :: "string \<Rightarrow> int option" where
  "js_parseInt s =
     (let t = dropWhile is_ws s;
          (sign, u) = (case t of
             c # cs \<Rightarrow> if c = CHR ''-'' then (-1, cs) else if c = CHR ''+'' then (1, cs) else (1, t)
           | [] \<Rightarrow> (1, t));
          ds = takeWhile is_digit u
      in if ds = [] then None else Some (sign * digits_value ds))"

subsection \<open>Number(s)\<close>

definition base_digit :: "char \<Rightarrow> int" where
  "base_digit c = (let n = int (code_unit c)
     in if 48 \<le> n \<and> n \<le> 57 then n - 48 else if 97 \<le> n \<and> n \<le> 122 then n - 87
        else if 65 \<le> n \<and> n \<le> 90 then n - 55 else 99)"

definition base_literal :: "int \<Rightarrow> string \<Rightarrow> jsnum" where
  "base_literal b cs =
     (if cs = [] \<or> \<not> list_all (\<lambda>c. base_digit c < b) cs then NaN
      else js_fin (of_int (foldl (\<lambda>a c. b * a + base_digit c) 0 cs)))"

text \<open>The exponent part of a decimal literal, or \<^const>\<open>None\<close> if the rest is not one.\<close>

definition exponent_part :: "string \<Rightarrow> int option" where
  "exponent_part r = (case r of
       [] \<Rightarrow> Some 0
     | c # cs \<Rightarrow>
         if c \<in> {CHR ''e'', CHR ''E''} then
           (let (sign, ds) = (case cs of
                d # ds' \<Rightarrow> if d = CHR ''-'' then (-1, ds') else if d = CHR ''+'' then (1, ds') else (1, cs)
              | [] \<Rightarrow> (1, cs))
            in if ds = [] \<or> \<not> list_all is_digit ds then None else Some (sign * digits_value ds))
         else None)"

definition decimal_literal :: "string \<Rightarrow> rat option" where
  "decimal_literal u =
     (let ip = takeWhile is_digit u;
          r1 = dropWhile is_digit u;
          (fp, r2) = (case r1 of
              c # cs \<Rightarrow> if c = CHR ''.'' then (takeWhile is_digit cs, dropWhile is_digit cs) else ([], r1)
            | [] \<Rightarrow> ([], r1))
      in if ip @ fp = [] then None
         else map_option (\<lambda>e. of_int (digits_value (ip @ fp)) * 10 powi (e - int (length fp)))
                (exponent_part r2))"

definition js_Number :: "string \<Rightarrow> jsnum" where
  "js_Number s =
     (let t = js_trim s in
      if t = [] then Fin 0
      else if take 2 t \<in> {''0x'', ''0X''} then base_literal 16 (drop 2 t)
      else if take 2 t \<in> {''0o'', ''0O''} then base_literal 8 (drop 2 t)
      else if take 2 t \<in> {''0b'', ''0B''} then base_literal 2 (drop 2 t)
      else
        (let neg = (hd t = CHR ''-'');
             u = (if hd t \<in> {CHR ''-'', CHR ''+''} then tl t else t)
         in if u = ''Infinity'' then (if neg then NegInf else PosInf)
            else case decimal_literal u of
                   None \<Rightarrow> NaN
                 | Some q \<Rightarrow> js_fin (if neg then - q else q)))"

subsection \<open>Printed numbers read back\<close>

lemma code_unit_digit_char: "d < 10 \<Longrightarrow> code_unit (digit_char d) = 48 + d"
  by (simp add: code_unit_def digit_char_def)

lemma is_digit_digit_char [simp]: "d < 10 \<Longrightarrow> is_digit (digit_char d)"
  by (simp add: is_digit_def code_unit_digit_char)

lemma digit_val_digit_char [simp]: "d < 10 \<Longrightarrow> digit_val (digit_char d) = int d"
  by (simp add: digit_val_def code_unit_digit_char)

lemma digits_value_snoc: "digits_value (cs @ [c]) = 10 * digits_value cs + digit_val c"
  by (simp add: digits_value_def)

lemma show_nat_digits: "list_all is_digit (show_nat n) \<and> show_nat n \<noteq> []"
proof (induction n rule: show_nat.induct)
  case (1 n)
  then show ?case by (cases "n < 10") (simp_all add: show_nat.simps [of n])
qed

lemma digits_value_show_nat: "digits_value (show_nat n) = int n"
proof (induction n rule: show_nat.induct)
  case (1 n)
  show ?case
  proof (cases "n < 10")
    case True
    then show ?thesis by (simp add: show_nat.simps [of n] digits_value_def)
  next
    case False
    then have "digits_value (show_nat n) = 10 * int (n div 10) + int (n mod 10)"
      using 1 by (simp add: show_nat.simps [of n] digits_value_snoc)
    then show ?thesis by presburger
  qed
qed

lemma digit_not: "is_digit c \<Longrightarrow> \<not> is_ws c \<and> c \<noteq> CHR ''-'' \<and> c \<noteq> CHR ''+'' \<and> c \<noteq> CHR '','' \<and> c \<noteq> CHR ''/'' \<and> c \<noteq> CHR ''*''"
  by (auto simp: is_digit_def is_ws_def code_unit_def)

lemma parseInt_digits:
  assumes "list_all is_digit ds" "ds \<noteq> []"
  shows "js_parseInt ds = Some (digits_value ds)"
proof -
  obtain c cs where ds: "ds = c # cs" and c: "is_digit c" using assms by (cases ds) auto
  have "dropWhile is_ws ds = ds" using digit_not [OF c] by (simp add: ds)
  moreover have "takeWhile is_digit ds = ds" using assms(1) by (simp add: list_all_iff)
  ultimately show ?thesis using digit_not [OF c] ds by (simp add: js_parseInt_def)
qed

lemma parseInt_show_nat [simp]: "js_parseInt (show_nat n) = Some (int n)"
  using parseInt_digits show_nat_digits digits_value_show_nat by simp

end
