(* ===== verification/CronParser.thy ===== *)
theory CronParser
  imports JsString JsSort
begin

section \<open>Cron expressions (packages/shared/src/scheduling/cron-evaluator.ts)\<close>

text \<open>
  \<open>parseCronExpression\<close> and the functions it calls.  Every \<open>throw\<close> is a value of
  \<open>cron_error\<close> that keeps what its message shows.  Field values are numbers: the step branch
  reads its bounds with \<open>Number\<close>, which takes fractions, and adds the step in floating point.
\<close>

datatype cron_error =
    InvalidStep string string
  | InvalidRange string string
  | InvalidValue string string
  | ValueOutOfRange int string
  | RangeStartOut jsnum string
  | RangeEndOut jsnum string
  | RangeReversed jsnum jsnum string
  | NoValues string
  | NonEmptyString
  | WrongFieldCount nat string

record 'a CronFields =
  minutes :: "'a list"
  hours :: "'a list"
  daysOfMonth :: "'a list"
  months :: "'a list"
  daysOfWeek :: "'a list"

record FieldSpec =
  fs_name :: string
  fs_min :: int
  fs_max :: int

definition FIELD_SPECS :: "FieldSpec list" where
  "FIELD_SPECS =
     [\<lparr>fs_name = ''minute'', fs_min = 0, fs_max = 59\<rparr>,
      \<lparr>fs_name = ''hour'', fs_min = 0, fs_max = 23\<rparr>,
      \<lparr>fs_name = ''day-of-month'', fs_min = 1, fs_max = 31\<rparr>,
      \<lparr>fs_name = ''month'', fs_min = 1, fs_max = 12\<rparr>,
      \<lparr>fs_name = ''day-of-week'', fs_min = 0, fs_max = 6\<rparr>]"

definition num :: "int \<Rightarrow> jsnum" where "num n = Fin (of_int n)"

definition validateRange :: "jsnum \<Rightarrow> jsnum \<Rightarrow> FieldSpec \<Rightarrow> cron_error option" where
  "validateRange start end spec =
     (if js_less start (num (fs_min spec)) \<or> js_less (num (fs_max spec)) start
      then Some (RangeStartOut start (fs_name spec))
      else if js_less end (num (fs_min spec)) \<or> js_less (num (fs_max spec)) end
      then Some (RangeEndOut end (fs_name spec))
      else if js_less end start then Some (RangeReversed start end (fs_name spec))
      else None)"

text \<open>
  \<open>for (let i = start; i <= end; i += step)\<close>, at most as many rounds as there are integers
  from the start to the end; \<open>for_step_enough\<close> shows that no more are ever run.
\<close>

fun for_step :: "nat \<Rightarrow> rat \<Rightarrow> rat \<Rightarrow> int \<Rightarrow> rat list" where
  "for_step 0 i end step = []"
| "for_step (Suc k) i end step =
     (if i \<le> end then i # for_step k (fl (i + of_int step)) end step else [])"

fun fin_val :: "jsnum \<Rightarrow> rat" where
  "fin_val (Fin q) = q"
| "fin_val _ = 0"

definition for_values :: "jsnum \<Rightarrow> jsnum \<Rightarrow> int \<Rightarrow> rat list" where
  "for_values start end step =
     (let s = fin_val start; e = fin_val end in for_step (nat (\<lfloor>e\<rfloor> - \<lfloor>s\<rfloor> + 1)) s e step)"

text \<open>A part with a slash: the bounds its range stands for, then its values.\<close>

definition step_bounds :: "string \<Rightarrow> FieldSpec \<Rightarrow> cron_error + (jsnum \<times> jsnum)" where
  "step_bounds rangeStr spec =
     (if rangeStr = ''*'' then Inr (num (fs_min spec), num (fs_max spec))
      else if CHR ''-'' \<in> set rangeStr then
        (let ns = map js_Number (js_split (CHR ''-'') rangeStr); s = ns ! 0; e = ns ! 1
         in if s = NaN \<or> e = NaN then Inl (InvalidRange rangeStr (fs_name spec)) else Inr (s, e))
      else case js_parseInt rangeStr of
             None \<Rightarrow> Inl (InvalidValue rangeStr (fs_name spec))
           | Some start \<Rightarrow> Inr (num start, num (fs_max spec)))"

definition parse_step :: "string \<Rightarrow> FieldSpec \<Rightarrow> cron_error + rat list" where
  "parse_step part spec =
     (let ps = js_split (CHR ''/'') part; rangeStr = ps ! 0; stepStr = ps ! 1
      in case js_parseInt stepStr of
           None \<Rightarrow> Inl (InvalidStep stepStr (fs_name spec))
         | Some step \<Rightarrow>
             if step \<le> 0 then Inl (InvalidStep stepStr (fs_name spec))
             else case step_bounds rangeStr spec of
                    Inl err \<Rightarrow> Inl err
                  | Inr (start, end) \<Rightarrow>
                      (case validateRange start end spec of
                         Some err \<Rightarrow> Inl err
                       | None \<Rightarrow> Inr (for_values start end step)))"

definition parse_range :: "string \<Rightarrow> FieldSpec \<Rightarrow> cron_error + rat list" where
  "parse_range part spec =
     (let ps = js_split (CHR ''-'') part
      in case (js_parseInt (ps ! 0), js_parseInt (ps ! 1)) of
           (Some start, Some end) \<Rightarrow>
             (case validateRange (num start) (num end) spec of
                Some err \<Rightarrow> Inl err
              | None \<Rightarrow> Inr (for_values (num start) (num end) 1))
         | _ \<Rightarrow> Inl (InvalidRange part (fs_name spec)))"

definition parse_value :: "string \<Rightarrow> FieldSpec \<Rightarrow> cron_error + rat list" where
  "parse_value part spec =
     (case js_parseInt part of
        None \<Rightarrow> Inl (InvalidValue part (fs_name spec))
      | Some val \<Rightarrow>
          if val < fs_min spec \<or> fs_max spec < val
          then Inl (ValueOutOfRange val (fs_name spec)) else Inr [of_int val])"

definition parse_part :: "string \<Rightarrow> FieldSpec \<Rightarrow> cron_error + rat list" where
  "parse_part part spec =
     (if CHR ''/'' \<in> set part then parse_step part spec
      else if CHR ''-'' \<in> set part then parse_range part spec
      else if part = ''*'' then Inr (for_values (num (fs_min spec)) (num (fs_max spec)) 1)
      else parse_value part spec)"

fun parse_parts :: "string list \<Rightarrow> FieldSpec \<Rightarrow> rat list \<Rightarrow> cron_error + rat list" where
  "parse_parts [] spec values = Inr values"
| "parse_parts (part # ps) spec values =
     (case parse_part part spec of
        Inl err \<Rightarrow> Inl err
      | Inr vs \<Rightarrow> parse_parts ps spec (set_add_all vs values))"

definition parseField :: "string \<Rightarrow> FieldSpec \<Rightarrow> cron_error + rat list" where
  "parseField token spec =
     (case parse_parts (js_split (CHR '','') token) spec [] of
        Inl err \<Rightarrow> Inl err
      | Inr values \<Rightarrow>
          if values = [] then Inl (NoValues (fs_name spec)) else Inr (js_sort num_cmp values))"

definition and_then :: "'e + 'a \<Rightarrow> ('a \<Rightarrow> 'e + 'b) \<Rightarrow> 'e + 'b" where
  "and_then r f = (case r of Inl e \<Rightarrow> Inl e | Inr x \<Rightarrow> f x)"

definition parseCronExpression :: "string \<Rightarrow> cron_error + rat CronFields" where
  "parseCronExpression expr =
     (if expr = [] then Inl NonEmptyString
      else
        (let trimmed = js_trim expr; tokens = split_ws trimmed
         in if length tokens \<noteq> 5 then Inl (WrongFieldCount (length tokens) trimmed)
            else
              and_then (parseField (tokens ! 0) (FIELD_SPECS ! 0)) (\<lambda>mi.
              and_then (parseField (tokens ! 1) (FIELD_SPECS ! 1)) (\<lambda>h.
              and_then (parseField (tokens ! 2) (FIELD_SPECS ! 2)) (\<lambda>dom.
              and_then (parseField (tokens ! 3) (FIELD_SPECS ! 3)) (\<lambda>mo.
              and_then (parseField (tokens ! 4) (FIELD_SPECS ! 4)) (\<lambda>dow.
                Inr \<lparr>minutes = mi, hours = h, daysOfMonth = dom, months = mo,
                     daysOfWeek = dow\<rparr>)))))))"

subsection \<open>The loop over a range\<close>

definition small :: "rat \<Rightarrow> bool" where "small x \<longleftrightarrow> - 1000 \<le> x \<and> x \<le> 1000"

definition spec_ok :: "FieldSpec \<Rightarrow> bool" where
  "spec_ok spec \<longleftrightarrow> 0 \<le> fs_min spec \<and> fs_min spec \<le> fs_max spec \<and> fs_max spec \<le> 1000"

lemma spec_ok_FIELD_SPECS: "list_all spec_ok FIELD_SPECS"
  by (simp add: FIELD_SPECS_def spec_ok_def)

lemma spec_ok_nth: "i < 5 \<Longrightarrow> spec_ok (FIELD_SPECS ! i)"
  using spec_ok_FIELD_SPECS by (auto simp: list_all_length FIELD_SPECS_def)

lemma fl_step_floor:
  assumes "small i" "1 \<le> k"
  shows "of_int (\<lfloor>i\<rfloor> + 1) \<le> fl (i + of_int k)"
proof -
  have b: "- 1000 \<le> \<lfloor>i\<rfloor>" "\<lfloor>i\<rfloor> \<le> 1000" using assms(1) by (simp_all add: small_def le_floor_iff floor_le_iff)
  have "of_int (\<lfloor>i\<rfloor> + 1) \<le> i + of_int k"
    using of_int_floor_le [of i] assms(2) by (simp add: add_mono)
  then have "fl (of_int (\<lfloor>i\<rfloor> + 1)) \<le> fl (i + of_int k)" by (rule fl_mono)
  moreover have "fl (of_int (\<lfloor>i\<rfloor> + 1)) = (of_int (\<lfloor>i\<rfloor> + 1) :: rat)"
  proof (rule fl_of_int)
    have "\<bar>f + 1\<bar> \<le> 2 ^ 53" if "- 1000 \<le> f" "f \<le> 1000" for f :: int using that by simp
    then show "\<bar>\<lfloor>i\<rfloor> + 1\<bar> \<le> 2 ^ 53" using b by blast
  qed
  ultimately show ?thesis by simp
qed

lemma fl_step_greater: "small i \<Longrightarrow> 1 \<le> k \<Longrightarrow> i < fl (i + of_int k)"
  using fl_step_floor [of i k] by (simp add: floor_less_iff [symmetric]) linarith

lemma for_step_bounds:
  "small end \<Longrightarrow> - 1000 \<le> i \<Longrightarrow> 1 \<le> k \<Longrightarrow> v \<in> set (for_step n i end k) \<Longrightarrow> i \<le> v \<and> v \<le> end"
proof (induction n arbitrary: i)
  case (Suc n)
  then have "i \<le> end" by (auto split: if_splits)
  then have i: "small i" using Suc.prems by (simp add: small_def)
  have less: "i < fl (i + of_int k)" by (rule fl_step_greater [OF i Suc.prems(3)])
  consider "v = i" | "v \<in> set (for_step n (fl (i + of_int k)) end k)"
    using Suc.prems(4) \<open>i \<le> end\<close> by auto
  then show ?case
  proof cases
    case 2
    then show ?thesis using Suc.IH [OF Suc.prems(1) _ Suc.prems(3) 2] less Suc.prems(2) by simp
  qed (use \<open>i \<le> end\<close> in simp)
qed simp

text \<open>The fuel is enough: more rounds give the same values.\<close>

lemma for_step_enough:
  assumes "small end" "- 1000 \<le> i" "1 \<le> k" "\<lfloor>end\<rfloor> - \<lfloor>i\<rfloor> < int n"
  shows "for_step (n + m) i end k = for_step n i end k"
  using assms(2,4)
proof (induction n arbitrary: i)
  case 0
  then have "end < of_int \<lfloor>i\<rfloor>" by (simp add: floor_less_iff)
  then have "end < i" using of_int_floor_le [of i] by linarith
  then show ?case by (cases m) simp_all
next
  case (Suc n)
  show ?case
  proof (cases "i \<le> end")
    case True
    then have i: "small i" using Suc.prems assms(1) by (simp add: small_def)
    have "\<lfloor>i\<rfloor> + 1 \<le> \<lfloor>fl (i + of_int k)\<rfloor>"
      using fl_step_floor [OF i assms(3)] by (simp add: le_floor_iff)
    then have "\<lfloor>end\<rfloor> - \<lfloor>fl (i + of_int k)\<rfloor> < int n" using Suc.prems(2) by linarith
    moreover have "- 1000 \<le> fl (i + of_int k)"
      using fl_step_greater [OF i assms(3)] Suc.prems(1) by linarith
    ultimately show ?thesis using Suc.IH True by simp
  qed simp
qed

text \<open>On integers the loop is the arithmetic progression.\<close>

lemma for_step_int:
  assumes "e \<le> 1000" "1 \<le> k"
  shows "- 1000 \<le> i \<Longrightarrow> e - i < int n \<Longrightarrow>
    for_step n (of_int i) (of_int e) k = map of_int (filter (\<lambda>v. (v - i) mod k = 0) [i..e])"
proof (induction n arbitrary: i)
  case (Suc n)
  show ?case
  proof (cases "i \<le> e")
    case True
    have tail: "filter (\<lambda>v. (v - i) mod k = 0) [i + 1..e] = filter (\<lambda>v. (v - (i + k)) mod k = 0) [i + k..e]"
      (is "_ = ?r")
    proof (cases "i + k \<le> e + 1")
      case True
      have "[i + 1..e] = [i + 1..i + k - 1] @ [i + k..e]"
        using upto_split2 [of "i + 1" "i + k - 1" e] True assms(2) by (cases "k = 1") simp_all
      moreover have "filter (\<lambda>v. (v - i) mod k = 0) [i + 1..i + k - 1] = []"
        by (auto simp: filter_empty_conv zmod_trivial_iff)
      moreover have "(v - (i + k)) mod k = (v - i) mod k" for v
        by (metis diff_diff_eq minus_mod_self2)
      ultimately show ?thesis by simp
    next
      case False
      then show ?thesis by (auto simp: filter_empty_conv zmod_trivial_iff)
    qed
    have step: "for_step n (fl (of_int i + of_int k)) (of_int e) k = map of_int ?r"
    proof (cases "i + k \<le> 2000")
      case True
      have "fl (of_int (i + k)) = (of_int (i + k) :: rat)"
        using True Suc.prems assms by (intro fl_of_int) simp
      then show ?thesis using Suc.IH [of "i + k"] Suc.prems assms by simp
    next
      case False
      have "fl (of_int 2000) \<le> fl (of_int (i + k))" using False by (intro fl_mono) simp
      then have "2000 \<le> fl (of_int i + of_int k)" using fl_of_int [of 2000] by simp
      moreover have "(of_int e :: rat) < 2000" using assms(1) by simp
      ultimately have "for_step n (fl (of_int i + of_int k)) (of_int e) k = []"
        by (cases n) auto
      moreover have "[i + k..e] = []" using False assms(1) by simp
      ultimately show ?thesis by simp
    qed
    show ?thesis using True step by (simp add: upto_rec1 tail)
  qed simp
qed (simp add: upto_empty)

lemma for_values_int:
  assumes "- 1000 \<le> i" "e \<le> 1000" "1 \<le> k"
  shows "for_values (num i) (num e) k = map of_int (filter (\<lambda>v. (v - i) mod k = 0) [i..e])"
  using for_step_int [OF assms(2,3,1), of "nat (e - i + 1)"] by (simp add: for_values_def num_def)

lemma for_values_one: "- 1000 \<le> i \<Longrightarrow> e \<le> 1000 \<Longrightarrow> for_values (num i) (num e) 1 = map of_int [i..e]"
  by (simp add: for_values_int)

subsection \<open>What the parser accepts\<close>

definition mem_range :: "FieldSpec \<Rightarrow> rat \<Rightarrow> bool" where
  "mem_range spec v \<longleftrightarrow> of_int (fs_min spec) \<le> v \<and> v \<le> of_int (fs_max spec)"

definition field_ok :: "FieldSpec \<Rightarrow> rat list \<Rightarrow> bool" where
  "field_ok spec vs \<longleftrightarrow> vs \<noteq> [] \<and> sorted_wrt (<) vs \<and> list_all (mem_range spec) vs"

lemma validateRange_None:
  assumes "validateRange start end spec = None" "start \<noteq> NaN" "end \<noteq> NaN"
  obtains s e where "start = Fin s" "end = Fin e" "mem_range spec s" "mem_range spec e" "s \<le> e"
  using assms
  by (cases start; cases "end")
    (auto simp: validateRange_def num_def not_less mem_range_def split: if_splits)

lemma for_values_mem:
  assumes "spec_ok spec" "validateRange start end spec = None" "start \<noteq> NaN" "end \<noteq> NaN" "1 \<le> k"
    "v \<in> set (for_values start end k)"
  shows "mem_range spec v"
proof -
  obtain s e where se: "start = Fin s" "end = Fin e" "mem_range spec s" "mem_range spec e"
    by (rule validateRange_None [OF assms(2-4)])
  have "0 \<le> (of_int (fs_min spec) :: rat)" "(of_int (fs_max spec) :: rat) \<le> 1000"
    using assms(1) by (simp_all add: spec_ok_def)
  then have "small e" "- 1000 \<le> s" using se(3,4) by (simp_all add: small_def mem_range_def)
  then have "s \<le> v \<and> v \<le> e"
    using for_step_bounds [OF _ _ assms(5)] assms(6) by (simp add: for_values_def se)
  then show ?thesis using se by (simp add: mem_range_def)
qed

lemma validateRange_spec: "spec_ok spec \<Longrightarrow> validateRange (num (fs_min spec)) (num (fs_max spec)) spec = None"
  by (simp add: validateRange_def num_def spec_ok_def)

lemma num_not_NaN [simp]: "num n \<noteq> NaN"
  by (simp add: num_def)

lemma step_bounds_not_NaN: "step_bounds r spec = Inr (s, e) \<Longrightarrow> s \<noteq> NaN \<and> e \<noteq> NaN"
  by (auto simp: step_bounds_def Let_def split: option.splits if_splits)

lemma parse_step_mem:
  assumes "spec_ok spec" "parse_step part spec = Inr vs" "v \<in> set vs"
  shows "mem_range spec v"
proof -
  obtain r s e k where b: "step_bounds r spec = Inr (s, e)"
    and r: "validateRange s e spec = None" "vs = for_values s e k" "1 \<le> k"
    using assms(2) by (auto simp: parse_step_def Let_def split: option.splits sum.splits if_splits)
  show ?thesis
    using for_values_mem [OF assms(1) r(1) _ _ r(3)] step_bounds_not_NaN [OF b] assms(3) r(2) by blast
qed

lemma parse_part_mem:
  assumes "spec_ok spec" "parse_part part spec = Inr vs" "v \<in> set vs"
  shows "mem_range spec v"
proof -
  consider "parse_step part spec = Inr vs" | "parse_range part spec = Inr vs"
    | "vs = for_values (num (fs_min spec)) (num (fs_max spec)) 1" | "parse_value part spec = Inr vs"
    using assms(2) unfolding parse_part_def by (metis sum.inject(2))
  then show ?thesis
  proof cases
    case 1
    then show ?thesis using parse_step_mem assms by blast
  next
    case 2
    then obtain s e where "validateRange (num s) (num e) spec = None" "vs = for_values (num s) (num e) 1"
      by (auto simp: parse_range_def Let_def split: option.splits)
    then show ?thesis using for_values_mem [OF assms(1), of "num s" "num e" 1 v] assms(3) by simp
  next
    case 3
    then show ?thesis
      using for_values_mem [OF assms(1) validateRange_spec [OF assms(1)], of 1 v] assms(3) by simp
  next
    case 4
    then show ?thesis using assms(3) by (auto simp: parse_value_def mem_range_def split: option.splits if_splits)
  qed
qed

lemma parse_parts_mem:
  "spec_ok spec \<Longrightarrow> parse_parts ps spec acc = Inr vs \<Longrightarrow> list_all (mem_range spec) acc \<Longrightarrow> distinct acc
    \<Longrightarrow> list_all (mem_range spec) vs \<and> distinct vs"
proof (induction ps arbitrary: acc)
  case (Cons p ps)
  then obtain us where p: "parse_part p spec = Inr us" and ps: "parse_parts ps spec (set_add_all us acc) = Inr vs"
    by (auto split: sum.splits)
  have "list_all (mem_range spec) us"
    using parse_part_mem [OF Cons.prems(1) p] by (simp add: list_all_iff)
  then have "list_all (mem_range spec) (set_add_all us acc)"
    using Cons.prems(3) by (simp add: list_all_iff) blast
  then show ?case using Cons.IH [OF Cons.prems(1) ps] Cons.prems(4) by simp
qed simp

lemma parseField_ok:
  assumes "spec_ok spec" "parseField token spec = Inr vs"
  shows "field_ok spec vs"
proof -
  obtain us where us: "parse_parts (js_split (CHR '','') token) spec [] = Inr us" "us \<noteq> []"
    "vs = js_sort num_cmp us"
    using assms(2) by (auto simp: parseField_def split: sum.splits if_splits)
  have "list_all (mem_range spec) us \<and> distinct us" using parse_parts_mem [OF assms(1) us(1)] by simp
  moreover have "sorted vs" using num.sort_in_order [of us] us(3) by simp
  ultimately show ?thesis using us
    by (auto simp: field_ok_def strict_sorted_iff list_all_iff) (metis set_empty set_js_sort)
qed

definition fields_ok :: "rat CronFields \<Rightarrow> bool" where
  "fields_ok F \<longleftrightarrow> field_ok (FIELD_SPECS ! 0) (minutes F) \<and> field_ok (FIELD_SPECS ! 1) (hours F) \<and>
     field_ok (FIELD_SPECS ! 2) (daysOfMonth F) \<and> field_ok (FIELD_SPECS ! 3) (months F) \<and>
     field_ok (FIELD_SPECS ! 4) (daysOfWeek F)"

lemma and_then_Inr: "and_then r f = Inr y \<longleftrightarrow> (\<exists>x. r = Inr x \<and> f x = Inr y)"
  by (cases r) (simp_all add: and_then_def)

lemma parse_fields_ok: "parseCronExpression expr = Inr F \<Longrightarrow> fields_ok F"
  by (auto simp: parseCronExpression_def Let_def and_then_Inr fields_ok_def spec_ok_nth
      intro!: parseField_ok split: if_splits)

subsection \<open>Printed expressions\<close>

text \<open>The plainest expression for given fields: every value listed.\<close>

fun join :: "char \<Rightarrow> string list \<Rightarrow> string" where
  "join c [] = []"
| "join c [w] = w"
| "join c (w # v # ws) = w @ c # join c (v # ws)"

definition show_field :: "int list \<Rightarrow> string" where
  "show_field vs = join (CHR '','') (map (\<lambda>v. show_nat (nat v)) vs)"

definition show_cron :: "int CronFields \<Rightarrow> string" where
  "show_cron F = join (CHR '' '')
     (map show_field [minutes F, hours F, daysOfMonth F, months F, daysOfWeek F])"

definition rat_fields :: "int CronFields \<Rightarrow> rat CronFields" where
  "rat_fields F = \<lparr>minutes = map of_int (minutes F), hours = map of_int (hours F),
     daysOfMonth = map of_int (daysOfMonth F), months = map of_int (months F),
     daysOfWeek = map of_int (daysOfWeek F)\<rparr>"

definition word :: "string \<Rightarrow> bool" where
  "word w \<longleftrightarrow> w \<noteq> [] \<and> list_all (\<lambda>c. \<not> is_ws c) w"

lemma js_split_join: "ws \<noteq> [] \<Longrightarrow> (\<And>w. w \<in> set ws \<Longrightarrow> c \<notin> set w) \<Longrightarrow> js_split c (join c ws) = ws"
  by (induction c ws rule: join.induct) (auto simp: js_split_word js_split_Cons)

lemma set_join: "set (join c ws) \<subseteq> insert c (\<Union>w \<in> set ws. set w)"
  by (induction c ws rule: join.induct) auto

lemma join_nonempty: "ws \<noteq> [] \<Longrightarrow> (\<And>w. w \<in> set ws \<Longrightarrow> w \<noteq> []) \<Longrightarrow> join c ws \<noteq> []"
  by (induction c ws rule: join.induct) auto

lemma show_nat_chars: "x \<in> set (show_nat n) \<Longrightarrow> is_digit x"
  using show_nat_digits [of n] by (auto simp: list_all_iff)

lemma show_nat_plain [simp]:
  "CHR ''/'' \<notin> set (show_nat n)" "CHR ''-'' \<notin> set (show_nat n)" "CHR '','' \<notin> set (show_nat n)"
  "show_nat n \<noteq> ''*''" "show_nat n \<noteq> []"
  using show_nat_chars [of _ n] show_nat_digits [of n] by (auto dest: digit_not)

lemma parse_part_show:
  "fs_min spec \<le> v \<Longrightarrow> v \<le> fs_max spec \<Longrightarrow> 0 \<le> v \<Longrightarrow> parse_part (show_nat (nat v)) spec = Inr [of_int v]"
  by (simp add: parse_part_def parse_value_def)

lemma parse_parts_show:
  "\<forall>v \<in> set vs. fs_min spec \<le> v \<and> v \<le> fs_max spec \<and> 0 \<le> v \<Longrightarrow>
    parse_parts (map (\<lambda>v. show_nat (nat v)) vs) spec acc = Inr (set_add_all (map of_int vs) acc)"
  by (induction vs arbitrary: acc) (simp_all add: parse_part_show)

definition int_field_ok :: "FieldSpec \<Rightarrow> int list \<Rightarrow> bool" where
  "int_field_ok spec vs \<longleftrightarrow> field_ok spec (map of_int vs)"

lemma int_field_ok_iff:
  "int_field_ok spec vs \<longleftrightarrow> vs \<noteq> [] \<and> sorted_wrt (<) vs \<and>
     (\<forall>v \<in> set vs. fs_min spec \<le> v \<and> v \<le> fs_max spec)"
  by (auto simp: int_field_ok_def field_ok_def mem_range_def list_all_iff sorted_wrt_map)

lemma parseField_show:
  assumes "spec_ok spec" "int_field_ok spec vs"
  shows "parseField (show_field vs) spec = Inr (map of_int vs)"
proof -
  have vs: "vs \<noteq> []" "sorted_wrt (<) vs" "\<forall>v \<in> set vs. fs_min spec \<le> v \<and> v \<le> fs_max spec \<and> 0 \<le> v"
    using assms by (auto simp: int_field_ok_iff spec_ok_def)
  have split: "js_split (CHR '','') (show_field vs) = map (\<lambda>v. show_nat (nat v)) vs"
    unfolding show_field_def by (rule js_split_join) (use vs(1) in auto)
  have d: "distinct vs" "sorted vs" using vs(2) by (simp_all add: strict_sorted_iff)
  have "set_add_all (map of_int vs) ([] :: rat list) = map of_int vs"
    by (subst set_add_all_distinct) (use d(1) in \<open>simp_all add: distinct_map inj_on_def\<close>)
  moreover have "js_sort num_cmp (map of_int vs) = map of_int vs"
    by (rule num.sort_id) (use d(2) in \<open>simp add: sorted_wrt_map\<close>)
  ultimately show ?thesis using parse_parts_show [OF vs(3)] split vs(1)
    by (simp add: parseField_def)
qed

lemma show_field_word:
  assumes "vs \<noteq> []"
  shows "word (show_field vs)"
proof -
  have "set (show_field vs) \<subseteq> insert (CHR '','') {c. is_digit c}"
    unfolding show_field_def using set_join show_nat_chars by fastforce
  moreover have "\<not> is_ws (CHR '','')" by (simp add: is_ws_def code_unit_def)
  ultimately have "list_all (\<lambda>c. \<not> is_ws c) (show_field vs)"
    using digit_not by (auto simp: list_all_iff)
  moreover have "show_field vs \<noteq> []"
    unfolding show_field_def by (rule join_nonempty) (use assms in auto)
  ultimately show ?thesis by (simp add: word_def)
qed

lemma blank_ws: "is_ws (CHR '' '')"
  by (simp add: is_ws_def code_unit_def)

lemma split_ws_word: "word w \<Longrightarrow> split_ws w = [w]"
  by (simp add: split_ws.simps [of w] word_def list_all_iff takeWhile_eq_all_conv dropWhile_eq_Nil_conv Let_def)

lemma split_ws_Cons:
  assumes "word w" "s \<noteq> []" "\<not> is_ws (hd s)"
  shows "split_ws (w @ CHR '' '' # s) = w # split_ws s"
proof -
  have "takeWhile (\<lambda>c. \<not> is_ws c) (w @ CHR '' '' # s) = w"
    "dropWhile (\<lambda>c. \<not> is_ws c) (w @ CHR '' '' # s) = CHR '' '' # s"
    using assms(1) blank_ws by (auto simp: word_def list_all_iff takeWhile_append dropWhile_append)
  moreover have "dropWhile is_ws (CHR '' '' # s) = s"
    using assms(2,3) blank_ws by (cases s) auto
  ultimately show ?thesis by (simp add: split_ws.simps [of "w @ CHR '' '' # s"] Let_def)
qed

lemma hd_join: "ws \<noteq> [] \<Longrightarrow> \<forall>w \<in> set ws. word w \<Longrightarrow> join c ws \<noteq> [] \<and> hd (join c ws) = hd (hd ws)"
  by (induction c ws rule: join.induct) (auto simp: word_def)

lemma word_hd: "word w \<Longrightarrow> \<not> is_ws (hd w)"
  by (cases w) (auto simp: word_def)

lemma split_ws_join: "ws \<noteq> [] \<Longrightarrow> \<forall>w \<in> set ws. word w \<Longrightarrow> split_ws (join (CHR '' '') ws) = ws"
proof (induction "CHR '' ''" ws rule: join.induct)
  case (3 w v ws)
  then show ?case using split_ws_Cons [of w "join (CHR '' '') (v # ws)"] hd_join [of "v # ws" "CHR '' ''"]
    by (simp add: word_hd)
qed (simp_all add: split_ws_word)

lemma last_join: "ws \<noteq> [] \<Longrightarrow> \<forall>w \<in> set ws. word w \<Longrightarrow> last (join c ws) = last (last ws)"
  using hd_join by (induction c ws rule: join.induct) (auto simp: word_def)

lemma dropWhile_hd: "s \<noteq> [] \<Longrightarrow> \<not> P (hd s) \<Longrightarrow> dropWhile P s = s"
  by (cases s) auto

lemma js_trim_id: "s \<noteq> [] \<Longrightarrow> \<not> is_ws (hd s) \<Longrightarrow> \<not> is_ws (last s) \<Longrightarrow> js_trim s = s"
  using dropWhile_hd [of s is_ws] dropWhile_hd [of "rev s" is_ws] by (simp add: js_trim_def hd_rev)

lemma word_last: "word w \<Longrightarrow> \<not> is_ws (last w)"
  by (auto simp: word_def list_all_iff)

definition int_fields_ok :: "int CronFields \<Rightarrow> bool" where
  "int_fields_ok F \<longleftrightarrow>
     int_field_ok (FIELD_SPECS ! 0) (minutes F) \<and> int_field_ok (FIELD_SPECS ! 1) (hours F) \<and>
     int_field_ok (FIELD_SPECS ! 2) (daysOfMonth F) \<and> int_field_ok (FIELD_SPECS ! 3) (months F) \<and>
     int_field_ok (FIELD_SPECS ! 4) (daysOfWeek F)"

lemma parse_show:
  assumes "int_fields_ok F"
  shows "parseCronExpression (show_cron F) = Inr (rat_fields F)"
proof -
  define ws where "ws = map show_field [minutes F, hours F, daysOfMonth F, months F, daysOfWeek F]"
  have w: "ws \<noteq> []" "\<forall>w \<in> set ws. word w"
    using assms by (auto simp: ws_def int_fields_ok_def int_field_ok_iff show_field_word)
  have "word (hd ws)" "word (last ws)" using w by auto
  then have "js_trim (show_cron F) = show_cron F" "show_cron F \<noteq> []"
    using hd_join [OF w, of "CHR '' ''"] last_join [OF w, of "CHR '' ''"]
    unfolding show_cron_def ws_def [symmetric] by (auto intro!: js_trim_id simp: word_hd word_last)
  moreover have "split_ws (show_cron F) = ws"
    using split_ws_join [OF w] by (simp add: show_cron_def ws_def)
  ultimately show ?thesis
    using assms
    by (simp add: parseCronExpression_def int_fields_ok_def and_then_def ws_def parseField_show
        spec_ok_nth rat_fields_def)
qed

subsection \<open>Properties\<close>

text \<open>
  Whatever the input string, the fields of an accepted expression are non-empty, strictly
  increasing and within the bounds of their position.
\<close>

theorem parsed_fields_in_range:
  assumes "parseCronExpression expr = Inr F"
  shows "fields_ok F"
  using assms by (rule parse_fields_ok)

definition sample_fields :: "int CronFields" where
  "sample_fields = \<lparr>minutes = [0, 30], hours = [9], daysOfMonth = [1..31], months = [2], daysOfWeek = [1..5]\<rparr>"

lemma sample_fields_ok: "int_fields_ok sample_fields"
  by (simp add: int_fields_ok_def int_field_ok_iff FIELD_SPECS_def sample_fields_def sorted_wrt_upto)

theorem parsed_fields_in_range_witness:
  "\<exists>expr. parseCronExpression expr = Inr (rat_fields sample_fields) \<and> fields_ok (rat_fields sample_fields)"
  using parsed_fields_in_range [OF parse_show [OF sample_fields_ok]] parse_show [OF sample_fields_ok] by blast

text \<open>
  C38: Printing any well-formed fields as lists of values and parsing the result gives them back.
\<close>

theorem cron_print_parse:
  assumes "int_fields_ok F"
  shows "parseCronExpression (show_cron F) = Inr (rat_fields F)"
  using assms by (rule parse_show)

theorem cron_print_parse_witness:
  "parseCronExpression (show_cron \<lparr>minutes = [5], hours = [0, 12], daysOfMonth = [1], months = [1], daysOfWeek = [0]\<rparr>) =
     Inr (rat_fields \<lparr>minutes = [5], hours = [0, 12], daysOfMonth = [1], months = [1], daysOfWeek = [0]\<rparr>)"
  by (rule cron_print_parse) (simp add: int_fields_ok_def int_field_ok_iff FIELD_SPECS_def)

text \<open>
  A step over the whole field, as in \<open>*/15\<close>, stands for exactly the values of the field that
  are a multiple of the step above its minimum, in increasing order, for every step from 1 on.
\<close>

theorem cron_step_values:
  assumes "i < 5" "1 \<le> n" "spec = FIELD_SPECS ! i"
  shows "parseField (''*/'' @ show_nat n) spec =
    Inr (map of_int (filter (\<lambda>v. (v - fs_min spec) mod int n = 0) [fs_min spec..fs_max spec]))"
proof -
  let ?vs = "filter (\<lambda>v. (v - fs_min spec) mod int n = 0) [fs_min spec..fs_max spec]"
  have spec: "spec_ok spec" using spec_ok_nth assms(1,3) by simp
  have "js_split (CHR '','') (''*/'' @ show_nat n) = [''*/'' @ show_nat n]"
    by (rule js_split_word) simp
  moreover have "js_split (CHR ''/'') (''*/'' @ show_nat n) = [''*'', show_nat n]"
    using js_split_Cons [of "CHR ''/''" "''*''" "show_nat n"] js_split_word [of "CHR ''/''" "show_nat n"]
    by simp
  then have "parse_part (''*/'' @ show_nat n) spec = Inr (map of_int ?vs)"
    using validateRange_spec [OF spec] for_values_int [of "fs_min spec" "fs_max spec" "int n"] spec assms(2)
    by (simp add: parse_part_def parse_step_def step_bounds_def spec_ok_def)
  moreover have "fs_min spec \<in> set ?vs" using spec by (simp add: spec_ok_def)
  then have "?vs \<noteq> []" by (metis empty_iff list.set(1))
  moreover have "set_add_all (map of_int ?vs) ([] :: rat list) = map of_int ?vs"
    by (subst set_add_all_distinct) (simp_all add: distinct_map inj_on_def)
  moreover have "js_sort num_cmp (map of_int ?vs) = map of_int ?vs"
    by (rule num.sort_id) (simp add: sorted_wrt_map sorted_wrt_filter)
  ultimately show ?thesis by (simp add: parseField_def)
qed

theorem cron_step_values_witness:
  "parseField ''*/15'' (FIELD_SPECS ! 0) = Inr [0, 15, 30, 45]"
proof -
  have "show_nat 15 = ''15''" by code_simp
  moreover have "map of_int (filter (\<lambda>v. (v - 0) mod int 15 = 0) [0..59]) = [0, 15, 30, 45 :: rat]"
    by code_simp
  ultimately show ?thesis using cron_step_values [of 0 15 "FIELD_SPECS ! 0"]
    by (simp add: FIELD_SPECS_def)
qed

text \<open>
  The loop over a range ends within the bound of the model: in a validated range, any
  larger number of rounds gives the same values.
\<close>

theorem range_loop_ends:
  assumes "spec_ok spec" "validateRange (Fin s) (Fin e) spec = None" "1 \<le> step"
    "nat (\<lfloor>e\<rfloor> - \<lfloor>s\<rfloor> + 1) \<le> n"
  shows "for_step n s e step = for_values (Fin s) (Fin e) step"
proof -
  let ?n = "nat (\<lfloor>e\<rfloor> - \<lfloor>s\<rfloor> + 1)"
  have r: "mem_range spec s" "mem_range spec e" "s \<le> e"
    using validateRange_None [OF assms(2)] by auto
  have "0 \<le> (of_int (fs_min spec) :: rat)" "(of_int (fs_max spec) :: rat) \<le> 1000"
    using assms(1) by (simp_all add: spec_ok_def)
  then have "small e" "- 1000 \<le> s" using r by (simp_all add: small_def mem_range_def)
  moreover have "\<lfloor>e\<rfloor> - \<lfloor>s\<rfloor> < int ?n" using r(3) floor_mono by fastforce
  ultimately have "for_step (?n + (n - ?n)) s e step = for_step ?n s e step"
    using for_step_enough assms(3) by blast
  then show ?thesis using assms(4) by (simp add: for_values_def)
qed

theorem range_loop_ends_witness:
  "for_step 100 3 5 2 = for_values (Fin 3) (Fin 5) 2"
  by (rule range_loop_ends [of "FIELD_SPECS ! 0"])
    (simp_all add: FIELD_SPECS_def spec_ok_def validateRange_def num_def)

text \<open>
  The parser promises integers, but the step branch reads its bounds with \<open>Number\<close>: the
  minute field \<open>1.5-5/2\<close> is accepted and stands for the minutes 1.5 and 3.5, while the plain
  range \<open>1.5-5\<close> stands for the minutes 1 to 5.
\<close>

theorem cron_accepts_fractions:
  "parseField ''1.5-5/2'' (FIELD_SPECS ! 0) = Inr [3/2, 7/2] \<and>
   parseField ''1.5-5'' (FIELD_SPECS ! 0) = Inr [1, 2, 3, 4, 5]"
proof
  have "\<lfloor>3 / 2 :: rat\<rfloor> = 1" by (simp add: floor_eq_iff)
  moreover have "for_step 5 (3/2) 5 2 = [3/2, 7/2]" by code_simp
  ultimately have v: "for_values (Fin (3/2)) (Fin 5) 2 = [3/2, 7/2]" by (simp add: for_values_def)
  have "fl (3/2) = 3/2" by code_simp
  moreover have "fl 5 = 5" using fl_of_int [of 5] by simp
  ultimately have "js_fin (3/2) = Fin (3/2)" "js_fin 5 = Fin 5"
    by (simp_all add: js_fin_def max_double_def)
  then have "js_Number ''1.5'' = Fin (3/2)" "js_Number ''5'' = Fin 5"
    by (simp_all add: js_Number_def is_digit_def is_ws_def code_unit_def js_trim_def digits_value_def
        digit_val_def decimal_literal_def exponent_part_def)
  then have b: "step_bounds ''1.5-5'' (FIELD_SPECS ! 0) = Inr (Fin (3/2), Fin 5)"
    by (simp add: step_bounds_def)
  have "validateRange (Fin (3/2)) (Fin 5) (FIELD_SPECS ! 0) = None"
    by (simp add: validateRange_def num_def FIELD_SPECS_def)
  moreover have "js_split (CHR ''/'') ''1.5-5/2'' = [''1.5-5'', ''2'']" by code_simp
  moreover have "js_parseInt ''2'' = Some 2" by code_simp
  ultimately have "parse_part ''1.5-5/2'' (FIELD_SPECS ! 0) = Inr [3/2, 7/2]"
    using v b by (simp add: parse_part_def parse_step_def)
  then show "parseField ''1.5-5/2'' (FIELD_SPECS ! 0) = Inr [3/2, 7/2]"
    by (simp add: parseField_def num_cmp_def set_add_def)
  have "js_split (CHR ''-'') ''1.5-5'' = [''1.5'', ''5'']" by code_simp
  moreover have "js_parseInt ''1.5'' = Some 1" by code_simp
  moreover have "js_parseInt ''5'' = Some 5" by code_simp
  moreover have "validateRange (num 1) (num 5) (FIELD_SPECS ! 0) = None"
    by (simp add: validateRange_def num_def FIELD_SPECS_def)
  moreover have "for_values (num 1) (num 5) 1 = map of_int [1..5]" by (rule for_values_one) simp_all
  moreover have "[1..5] = [1, 2, 3, 4, 5 :: int]" by code_simp
  ultimately have "parse_part ''1.5-5'' (FIELD_SPECS ! 0) = Inr [1, 2, 3, 4, 5]"
    by (simp add: parse_part_def parse_range_def)
  then show "parseField ''1.5-5'' (FIELD_SPECS ! 0) = Inr [1, 2, 3, 4, 5]"
    by (simp add: parseField_def num_cmp_def set_add_def)
qed

end
