(* ===== verification/Calendar.thy ===== *)
theory Calendar
  imports Prelude "HOL-Library.Product_Lexorder"
begin

section \<open>Dates in UTC, as the language computes them\<close>

text \<open>
  The functions of \<open>Date\<close> the cron evaluator uses, after the time functions of the language:
  the day number of a year's first day, the year of a day number, month and day within the
  year, and \<open>Date.UTC\<close> with its reading of the years 0 to 99 as 1900 to 1999.  A time value
  is a number of milliseconds; \<open>timeClip\<close> gives \<^const>\<open>None\<close> (\<open>NaN\<close>) outside the range of
  dates.

  A wall-clock minute is a value of the type \<open>civil\<close>, ordered lexicographically.  The locale
  \<open>clock\<close> is what the scan for the next run relies on: later wall-clock minutes are later
  times, and the parts of a time denote its minute.  It is interpreted on the UTC functions.
\<close>

datatype civil = Civil (c_year: int) (c_month: int) (c_day: int) (c_hour: int) (c_minute: int)

definition civil_key :: "civil \<Rightarrow> int \<times> int \<times> int \<times> int \<times> int" where
  "civil_key c = (c_year c, c_month c, c_day c, c_hour c, c_minute c)"

instantiation civil :: linorder
begin

definition less_civil :: "civil \<Rightarrow> civil \<Rightarrow> bool" where
  "less_civil a b \<longleftrightarrow> civil_key a < civil_key b"

definition less_eq_civil :: "civil \<Rightarrow> civil \<Rightarrow> bool" where
  "less_eq_civil a b \<longleftrightarrow> civil_key a \<le> civil_key b"

instance
  by standard (auto simp: less_eq_civil_def less_civil_def civil_key_def intro: civil.expand)

end

lemma lex_eq: "(a :: int) < b \<or> a \<le> b \<and> P \<longleftrightarrow> a < b \<or> a = b \<and> P"
  by auto

lemma civil_less [simp]:
  "Civil y m d h i < Civil y' m' d' h' i' \<longleftrightarrow>
     y < y' \<or> y = y' \<and> (m < m' \<or> m = m' \<and> (d < d' \<or> d = d' \<and> (h < h' \<or> h = h' \<and> i < i')))"
  by (simp add: less_civil_def civil_key_def less_prod_simp lex_eq)

lemma civil_le [simp]:
  "Civil y m d h i \<le> Civil y' m' d' h' i' \<longleftrightarrow>
     y < y' \<or> y = y' \<and> (m < m' \<or> m = m' \<and> (d < d' \<or> d = d' \<and> (h < h' \<or> h = h' \<and> i \<le> i')))"
  by (simp add: less_eq_civil_def civil_key_def less_eq_prod_simp lex_eq)

subsection \<open>Years\<close>

definition is_leap :: "int \<Rightarrow> bool" where
  "is_leap y \<longleftrightarrow> y mod 4 = 0 \<and> (y mod 100 \<noteq> 0 \<or> y mod 400 = 0)"

definition days_in_year :: "int \<Rightarrow> int" where
  "days_in_year y = (if is_leap y then 366 else 365)"

text \<open>\<open>DayFromYear\<close>: the day number of January 1st.\<close>

definition day_from_year :: "int \<Rightarrow> int" where
  "day_from_year y = 365 * (y - 1970) + (y - 1969) div 4 - (y - 1901) div 100 + (y - 1601) div 400"

lemma div_step: "(x + 1) div k = x div k + (if (x + 1) mod k = 0 then 1 else 0)" if "1 < k" for x k :: int
proof (cases "(x + 1) mod k = 0")
  case True
  then obtain q where q: "x + 1 = k * q" by (auto elim: dvdE simp: mod_eq_0_iff_dvd)
  then have "x = k * (q - 1) + (k - 1)" by (simp add: algebra_simps)
  then have "x div k = q - 1" using that by (simp add: div_mult_self4 zdiv_eq_0_iff)
  then show ?thesis using q that by simp
next
  case False
  have "x + 1 = k * ((x + 1) div k) + (x + 1) mod k" by simp
  then have "x = ((x + 1) mod k - 1) + k * ((x + 1) div k)" by linarith
  moreover have "((x + 1) mod k - 1) div k = 0"
    using False that pos_mod_bound [of k "x + 1"] pos_mod_sign [of k "x + 1"]
    by (intro div_pos_pos_trivial) linarith+
  ultimately have "x div k = (x + 1) div k"
    using that by (metis div_mult_self2 add_cancel_right_right less_irrefl not_one_less_zero)
  then show ?thesis using False by simp
qed

lemma mod_shift: "(y - k * c) mod k = y mod k" for y k c :: int
  by (metis mod_mult_self4 minus_mult_right diff_conv_add_uminus mod_mult_self2)

lemma leap_days: "(if y mod 4 = 0 then 1 else 0) - (if y mod 100 = 0 then 1 else 0)
    + (if y mod 400 = 0 then 1 else 0) = days_in_year y - 365"
proof -
  have "y mod 400 = 0 \<Longrightarrow> y mod 100 = 0" "y mod 100 = 0 \<Longrightarrow> y mod 4 = 0"
    using dvd_trans [of 100 400 y] dvd_trans [of 4 100 y] by (simp_all add: mod_eq_0_iff_dvd)
  then show ?thesis
    by (cases "y mod 400 = 0"; cases "y mod 100 = 0"; cases "y mod 4 = 0")
       (simp_all add: days_in_year_def is_leap_def)
qed

lemma day_from_year_Suc: "day_from_year (y + 1) = day_from_year y + days_in_year y"
proof -
  have a: "(y - 1969 + 1) div 4 = (y - 1969) div 4 + (if (y - 4 * 492) mod 4 = 0 then 1 else 0)"
    using div_step [of 4 "y - 1969"] by simp
  have b: "(y - 1901 + 1) div 100 = (y - 1901) div 100 + (if (y - 100 * 19) mod 100 = 0 then 1 else 0)"
    using div_step [of 100 "y - 1901"] by simp
  have c: "(y - 1601 + 1) div 400 = (y - 1601) div 400 + (if (y - 400 * 4) mod 400 = 0 then 1 else 0)"
    using div_step [of 400 "y - 1601"] by simp
  have "day_from_year (y + 1) = 365 * (y - 1970) + 365 + (y - 1969 + 1) div 4
      - (y - 1901 + 1) div 100 + (y - 1601 + 1) div 400"
    by (simp add: day_from_year_def)
  then show ?thesis unfolding a b c mod_shift using leap_days [of y]
    unfolding day_from_year_def by linarith
qed

text \<open>The year of a day number: count up from a year that is not too late.\<close>

function year_up :: "int \<Rightarrow> int \<Rightarrow> int" where
  "year_up y n = (if day_from_year (y + 1) \<le> n then year_up (y + 1) n else y)"
  by pat_completeness auto
termination
  by (relation "measure (\<lambda>(y, n). nat (n + 1 - day_from_year y))")
     (auto simp: day_from_year_Suc days_in_year_def split: if_splits)

declare year_up.simps [simp del]

definition year_from_day :: "int \<Rightarrow> int" where
  "year_from_day n = year_up (1970 + (if 0 \<le> n then n div 366 else n div 365)) n"

lemma day_from_year_upper: "day_from_year (1970 + k) \<le> 366 * k" if "0 \<le> k"
  using that
proof (induction k rule: int_ge_induct)
  case base
  then show ?case by (simp add: day_from_year_def)
next
  case (step i)
  have "day_from_year (1970 + (i + 1)) = day_from_year (1970 + i) + days_in_year (1970 + i)"
    using day_from_year_Suc [of "1970 + i"] by (simp add: add.assoc)
  then show ?case using step.IH by (simp add: days_in_year_def)
qed

lemma day_from_year_lower: "day_from_year (1970 + k) \<le> 365 * k" if "k \<le> 0"
  using that
proof (induction k rule: int_le_induct)
  case base
  then show ?case by (simp add: day_from_year_def)
next
  case (step i)
  have "day_from_year (1970 + i) = day_from_year (1970 + (i - 1)) + days_in_year (1970 + (i - 1))"
    using day_from_year_Suc [of "1970 + (i - 1)"] by (simp add: algebra_simps)
  moreover have "365 \<le> days_in_year (1970 + (i - 1))" by (simp add: days_in_year_def)
  ultimately show ?case using step.IH by simp
qed

lemma year_up_bounds:
  "day_from_year y \<le> n \<Longrightarrow> day_from_year (year_up y n) \<le> n \<and> n < day_from_year (year_up y n + 1)"
proof (induction y n rule: year_up.induct)
  case (1 y n)
  then show ?case by (cases "day_from_year (y + 1) \<le> n") (simp_all add: year_up.simps [of y n])
qed

lemma year_from_day_bounds:
  "day_from_year (year_from_day n) \<le> n \<and> n < day_from_year (year_from_day n + 1)"
proof -
  have "day_from_year (1970 + (if 0 \<le> n then n div 366 else n div 365)) \<le> n"
    using day_from_year_upper [of "n div 366"] day_from_year_lower [of "n div 365"]
      mult_div_mod_eq [of 366 n] mult_div_mod_eq [of 365 n]
      pos_mod_sign [of 366 n] pos_mod_sign [of 365 n]
      pos_imp_zdiv_nonneg_iff [of 366 n] pos_imp_zdiv_neg_iff [of 365 n]
    by (auto split: if_splits)
  then show ?thesis unfolding year_from_day_def by (rule year_up_bounds)
qed

lemma day_from_year_less: "y < y' \<Longrightarrow> day_from_year y + days_in_year y \<le> day_from_year y'"
proof (induction y' rule: int_gr_induct)
  case base
  then show ?case by (simp add: day_from_year_Suc)
next
  case (step i)
  then show ?case by (simp add: day_from_year_Suc [of i]) (simp add: days_in_year_def split: if_splits)
qed

lemma year_from_day_unique:
  assumes "day_from_year y \<le> n" "n < day_from_year y + days_in_year y"
  shows "year_from_day n = y"
proof -
  have "\<not> y < year_from_day n"
    using day_from_year_less [of y "year_from_day n"] year_from_day_bounds [of n] assms by fastforce
  moreover have "\<not> year_from_day n < y"
    using day_from_year_less [of "year_from_day n" y] year_from_day_bounds [of n] assms
    by (fastforce simp: day_from_year_Suc)
  ultimately show ?thesis by simp
qed

subsection \<open>Months\<close>

text \<open>Days of the year before the first of month \<open>m\<close> (1 to 13).\<close>

definition days_before :: "bool \<Rightarrow> int \<Rightarrow> int" where
  "days_before leap m =
     (let l = (if leap then 1 else 0) in
      if m \<le> 1 then 0 else if m = 2 then 31 else if m = 3 then 59 + l else if m = 4 then 90 + l
      else if m = 5 then 120 + l else if m = 6 then 151 + l else if m = 7 then 181 + l
      else if m = 8 then 212 + l else if m = 9 then 243 + l else if m = 10 then 273 + l
      else if m = 11 then 304 + l else if m = 12 then 334 + l else 365 + l)"

definition month_of :: "bool \<Rightarrow> int \<Rightarrow> int" where
  "month_of leap n =
     (if n < days_before leap 2 then 1 else if n < days_before leap 3 then 2
      else if n < days_before leap 4 then 3 else if n < days_before leap 5 then 4
      else if n < days_before leap 6 then 5 else if n < days_before leap 7 then 6
      else if n < days_before leap 8 then 7 else if n < days_before leap 9 then 8
      else if n < days_before leap 10 then 9 else if n < days_before leap 11 then 10
      else if n < days_before leap 12 then 11 else 12)"

definition month_length :: "bool \<Rightarrow> int \<Rightarrow> int" where
  "month_length leap m = days_before leap (m + 1) - days_before leap m"

lemma month_cases:
  assumes "1 \<le> m" "m \<le> (12 :: int)"
  obtains "m = 1" | "m = 2" | "m = 3" | "m = 4" | "m = 5" | "m = 6" | "m = 7" | "m = 8" | "m = 9"
    | "m = 10" | "m = 11" | "m = 12"
proof -
  have "m \<in> {1..12}" using assms by simp
  also have "{1..12 :: int} = set [1..12]" by simp
  finally show thesis by (simp add: upto_rec1) (use that in blast)
qed

lemma month_length_bounds: "1 \<le> m \<Longrightarrow> m \<le> 12 \<Longrightarrow> 28 \<le> month_length leap m \<and> month_length leap m \<le> 31"
  by (erule (1) month_cases) (simp_all add: month_length_def days_before_def)

lemma month_of_days_before:
  assumes "1 \<le> m" "m \<le> 12" "0 \<le> k" "k < month_length leap m"
  shows "month_of leap (days_before leap m + k) = m"
  using assms(1,2)
  by (rule month_cases) (use assms(3,4) in \<open>auto simp: month_of_def month_length_def days_before_def\<close>)

lemma month_of_bounds:
  assumes "0 \<le> n" "n < 365 + (if leap then 1 else 0)"
  shows "1 \<le> month_of leap n" "month_of leap n \<le> 12" "days_before leap (month_of leap n) \<le> n"
    "n < days_before leap (month_of leap n + 1)"
  using assms by (auto simp: month_of_def days_before_def)

subsection \<open>Days and times\<close>

text \<open>
  \<open>MakeFullYear\<close> and \<open>MakeDay\<close>: the \<open>Date\<close> constructor and \<open>Date.UTC\<close> take the years 0 to 99
  for 1900 to 1999, count months from 0, and let a month or a day overflow into the next year or
  month.
\<close>

definition full_year :: "int \<Rightarrow> int" where
  "full_year y = (if 0 \<le> y \<and> y \<le> 99 then 1900 + y else y)"

definition first_of :: "int \<Rightarrow> int \<Rightarrow> int" where
  "first_of y m = day_from_year y + days_before (is_leap y) m"

definition make_day :: "int \<Rightarrow> int \<Rightarrow> int \<Rightarrow> int" where
  "make_day y m d = first_of (full_year y + m div 12) (m mod 12 + 1) + d - 1"

definition make_time :: "int \<Rightarrow> int \<Rightarrow> int \<Rightarrow> int \<Rightarrow> int \<Rightarrow> int" where
  "make_time y m d h i = make_day y m d * 86400000 + h * 3600000 + i * 60000"

definition max_time :: int where "max_time = 8640000000000000"

definition time_clip :: "int \<Rightarrow> int option" where
  "time_clip t = (if \<bar>t\<bar> \<le> max_time then Some t else None)"

definition day_of_time :: "int \<Rightarrow> int" where "day_of_time t = t div 86400000"

definition month_from_day :: "int \<Rightarrow> int" where
  "month_from_day n =
     (let y = year_from_day n in month_of (is_leap y) (n - day_from_year y))"

definition date_from_day :: "int \<Rightarrow> int" where
  "date_from_day n = n - first_of (year_from_day n) (month_from_day n) + 1"

definition week_day :: "int \<Rightarrow> int" where "week_day n = (n + 4) mod 7"

text \<open>\<open>getUTCFullYear\<close>, \<open>getUTCMonth() + 1\<close>, \<open>getUTCDate\<close>, \<open>getUTCHours\<close>, \<open>getUTCMinutes\<close>.\<close>

definition utc_parts :: "int \<Rightarrow> civil" where
  "utc_parts t =
     (let n = day_of_time t in
      Civil (year_from_day n) (month_from_day n) (date_from_day n)
        (t div 3600000 mod 24) (t div 60000 mod 60))"

definition civil_time :: "civil \<Rightarrow> int" where
  "civil_time c = make_time (c_year c) (c_month c - 1) (c_day c) (c_hour c) (c_minute c)"

definition civil_day :: "civil \<Rightarrow> int" where
  "civil_day c = first_of (c_year c) (c_month c) + c_day c - 1"

text \<open>The minutes of the calendar from 1970 on.\<close>

definition valid_date :: "int \<Rightarrow> int \<Rightarrow> int \<Rightarrow> bool" where
  "valid_date y m d \<longleftrightarrow> 1970 \<le> y \<and> 1 \<le> m \<and> m \<le> 12 \<and> 1 \<le> d \<and> d \<le> month_length (is_leap y) m"

definition valid_civil :: "civil \<Rightarrow> bool" where
  "valid_civil c \<longleftrightarrow> valid_date (c_year c) (c_month c) (c_day c) \<and>
     0 \<le> c_hour c \<and> c_hour c \<le> 23 \<and> 0 \<le> c_minute c \<and> c_minute c \<le> 59"

lemma days_before_mono: "1 \<le> m \<Longrightarrow> m < m' \<Longrightarrow> m' \<le> 13 \<Longrightarrow>
    days_before leap m + month_length leap m \<le> days_before leap m'"
  by (rule month_cases [of m]) (auto simp: days_before_def month_length_def Let_def)

lemma days_before_bounds:
  "1 \<le> m \<Longrightarrow> m \<le> 12 \<Longrightarrow> 0 \<le> days_before leap m \<and>
    days_before leap m + month_length leap m \<le> 365 + (if leap then 1 else 0)"
  using days_before_mono [of m 13 leap] by (auto simp: days_before_def)

lemma first_of_month_less:
  assumes "1 \<le> m" "m < m'" "m' \<le> 13"
  shows "first_of y m + month_length (is_leap y) m \<le> first_of y m'"
  using days_before_mono [OF assms] by (simp add: first_of_def)

lemma first_of_year_less:
  assumes "y < y'" "1 \<le> m" "m \<le> 12" "1 \<le> m'" "m' \<le> 12"
  shows "first_of y m + month_length (is_leap y) m \<le> first_of y' m'"
  using day_from_year_less [OF assms(1)] days_before_bounds [of m "is_leap y"]
    days_before_bounds [of m' "is_leap y'"] assms
  by (simp add: first_of_def days_in_year_def split: if_splits)

lemma first_of_less:
  assumes "valid_date y m d" "valid_date y' m' d'" "y < y' \<or> y = y' \<and> m < m'"
  shows "first_of y m + d - 1 < first_of y' m' + d' - 1"
  using assms first_of_year_less [of y y' m m'] first_of_month_less [of m m' y]
  by (auto simp: valid_date_def)

lemma civil_day_mono:
  assumes "valid_date y m d" "valid_date y' m' d'"
    "y < y' \<or> y = y' \<and> (m < m' \<or> m = m' \<and> d < d')"
  shows "first_of y m + d - 1 < first_of y' m' + d' - 1"
  using first_of_less [OF assms(1,2)] assms(3) by auto

lemma valid_date_parts:
  assumes "valid_date y m d" "n = first_of y m + d - 1"
  shows "year_from_day n = y" "month_from_day n = m" "date_from_day n = d"
proof -
  let ?k = "days_before (is_leap y) m + (d - 1)"
  have n: "n = day_from_year y + ?k" using assms(2) by (simp add: first_of_def)
  have "0 \<le> ?k" "?k < days_in_year y"
    using assms(1) days_before_bounds [of m "is_leap y"]
    by (auto simp: valid_date_def days_in_year_def)
  then show y: "year_from_day n = y" using n by (intro year_from_day_unique) simp_all
  have "month_of (is_leap y) ?k = m"
    using assms(1) by (intro month_of_days_before) (auto simp: valid_date_def)
  then show m: "month_from_day n = m" unfolding month_from_day_def Let_def y by (simp add: n)
  show "date_from_day n = d" unfolding date_from_day_def y m using assms(2) by simp
qed

lemma parts_valid_date:
  assumes "0 \<le> n"
  shows "valid_date (year_from_day n) (month_from_day n) (date_from_day n)"
    "first_of (year_from_day n) (month_from_day n) + date_from_day n - 1 = n"
proof -
  define y where "y = year_from_day n"
  have b: "day_from_year y \<le> n" "n < day_from_year y + days_in_year y"
    using year_from_day_bounds [of n] by (auto simp: y_def day_from_year_Suc)
  have "\<not> y < 1970"
    using day_from_year_less [of y 1970] b assms by (auto simp: day_from_year_def [of 1970])
  moreover have "0 \<le> n - day_from_year y"
    "n - day_from_year y < 365 + (if is_leap y then 1 else 0)"
    using b by (auto simp: days_in_year_def)
  note month_of_bounds [OF this]
  ultimately show "valid_date (year_from_day n) (month_from_day n) (date_from_day n)"
    by (simp add: valid_date_def date_from_day_def month_from_day_def first_of_def Let_def
        month_length_def flip: y_def)
  show "first_of (year_from_day n) (month_from_day n) + date_from_day n - 1 = n"
    by (simp add: date_from_day_def)
qed

lemma year_day_bounds: "y \<le> 270000 \<Longrightarrow> day_from_year y \<le> 98100000"
  using day_from_year_upper [of "270000 - 1970"] day_from_year_less [of y 270000]
  by (cases "y = 270000") (auto simp: days_in_year_def split: if_splits)

lemma make_day_civil:
  "valid_date y m d \<Longrightarrow> make_day y (m - 1) d = first_of y m + d - 1"
  by (simp add: make_day_def valid_date_def full_year_def zmod_trivial_iff zdiv_eq_0_iff)

text \<open>\<open>new Date(y, m, 0)\<close> is the last day of the month \<open>m\<close>, counted from 1.\<close>

lemma make_day_last:
  assumes "1970 \<le> y" "1 \<le> m" "m \<le> 12"
  shows "make_day y m 0 = first_of y m + month_length (is_leap y) m - 1"
proof (cases "m = 12")
  case True
  then show ?thesis using assms(1)
    by (simp add: make_day_def full_year_def first_of_def month_length_def days_before_def
        day_from_year_Suc days_in_year_def Let_def)
next
  case False
  then have "m div 12 = 0" "m mod 12 = m" using assms by (auto simp: zdiv_eq_0_iff)
  then show ?thesis using assms(1)
    by (simp add: make_day_def full_year_def first_of_def month_length_def)
qed

lemma valid_date_last: "1970 \<le> y \<Longrightarrow> 1 \<le> m \<Longrightarrow> m \<le> 12 \<Longrightarrow> valid_date y m (month_length (is_leap y) m)"
  using month_length_bounds [of m "is_leap y"] by (simp add: valid_date_def)

lemma civil_time_day:
  "valid_civil c \<Longrightarrow> civil_time c = civil_day c * 86400000 + c_hour c * 3600000 + c_minute c * 60000"
  by (simp add: civil_time_def make_time_def make_day_civil valid_civil_def civil_day_def)

lemma civil_time_mono: "valid_civil c \<Longrightarrow> valid_civil c' \<Longrightarrow> c < c' \<Longrightarrow> civil_time c < civil_time c'"
  using civil_day_mono [of "c_year c" "c_month c" "c_day c" "c_year c'" "c_month c'" "c_day c'"]
  by (cases c; cases c') (auto simp: civil_time_day, auto simp: valid_civil_def civil_day_def)

lemma utc_parts_civil_time:
  assumes "valid_civil c"
  shows "utc_parts (civil_time c) = c"
proof -
  have h: "0 \<le> c_hour c * 60 + c_minute c" "c_hour c * 60 + c_minute c < 1440"
    using assms by (auto simp: valid_civil_def)
  have m: "civil_time c div 60000 = civil_day c * 1440 + (c_hour c * 60 + c_minute c)"
    by (simp add: civil_time_day [OF assms])
  have "civil_time c div 86400000 = civil_time c div 60000 div 1440"
    by (simp add: zdiv_zmult2_eq)
  then have d: "day_of_time (civil_time c) = civil_day c"
    unfolding m day_of_time_def using h by simp
  have hd: "(civil_day c * 1440 + (c_hour c * 60 + c_minute c)) div 60 = civil_day c * 24 + c_hour c"
    using assms div_mult_self3 [of 60 "civil_day c * 24 + c_hour c" "c_minute c"]
    by (simp add: valid_civil_def algebra_simps)
  have "civil_time c div 3600000 = civil_time c div 60000 div 60" by (simp add: zdiv_zmult2_eq)
  then have hr: "civil_time c div 3600000 mod 24 = c_hour c"
    unfolding m using assms hd by (simp add: valid_civil_def)
  have mi: "civil_time c div 60000 mod 60 = c_minute c"
    unfolding m using assms mod_mult_self3 [of "civil_day c * 24 + c_hour c" 60 "c_minute c"]
    by (simp add: valid_civil_def algebra_simps)
  show ?thesis
    using valid_date_parts [of "c_year c" "c_month c" "c_day c" "civil_day c"] assms
    by (simp add: utc_parts_def Let_def d hr mi valid_civil_def civil_day_def)
qed

lemma valid_utc_parts: "0 \<le> t \<Longrightarrow> valid_civil (utc_parts t)"
  using parts_valid_date(1) [of "day_of_time t"]
    zle_diff1_eq [of "t div 3600000 mod 24" 24] zle_diff1_eq [of "t div 60000 mod 60" 60]
  by (simp add: valid_civil_def utc_parts_def Let_def day_of_time_def)

lemma civil_time_utc_parts:
  assumes "0 \<le> t" "t mod 60000 = 0"
  shows "civil_time (utc_parts t) = t"
proof -
  have "civil_day (utc_parts t) = t div 86400000"
    using parts_valid_date(2) [of "day_of_time t"] assms(1)
    by (simp add: civil_day_def utc_parts_def Let_def day_of_time_def)
  moreover obtain k where k: "t = k * 60000" using assms(2) by (auto elim: dvdE simp: mod_eq_0_iff_dvd mult.commute)
  have "t div 86400000 = k div 60 div 24" "t div 3600000 = k div 60" "t div 60000 = k"
    by (simp_all add: k zdiv_zmult2_eq flip: zdiv_zmult2_eq)
  moreover have "k = 1440 * (k div 60 div 24) + 60 * (k div 60 mod 24) + k mod 60"
    using mult_div_mod_eq [of 60 k] mult_div_mod_eq [of 24 "k div 60"] by linarith
  ultimately show ?thesis
    unfolding civil_time_day [OF valid_utc_parts [OF assms(1)]]
    by (simp add: utc_parts_def Let_def k)
qed

subsection \<open>What the scan for the next run uses of a clock\<close>

locale clock =
  fixes valid :: "civil \<Rightarrow> bool"
    and time :: "civil \<Rightarrow> int"
    and parts :: "int \<Rightarrow> civil"
  assumes time_mono: "valid c \<Longrightarrow> valid c' \<Longrightarrow> c < c' \<Longrightarrow> time c < time c'"
    and parts_time: "valid c \<Longrightarrow> parts (time c) = c"
    and time_parts: "0 \<le> t \<Longrightarrow> t mod 60000 = 0 \<Longrightarrow> time (parts t) = t"
    and valid_parts: "0 \<le> t \<Longrightarrow> valid (parts t)"
begin

lemma parts_less:
  assumes "0 \<le> s" "s mod 60000 = 0" "0 \<le> t" "t mod 60000 = 0"
  shows "parts s < parts t \<longleftrightarrow> s < t"
  using time_mono [OF valid_parts [OF assms(1)] valid_parts [OF assms(3)]]
    time_mono [OF valid_parts [OF assms(3)] valid_parts [OF assms(1)]]
    time_parts [OF assms(1,2)] time_parts [OF assms(3,4)]
  by (metis less_asym linorder_cases order_less_irrefl)

lemma parts_le:
  assumes "0 \<le> s" "s mod 60000 = 0" "0 \<le> t" "t mod 60000 = 0"
  shows "parts s \<le> parts t \<longleftrightarrow> s \<le> t"
  using parts_less [OF assms(3,4,1,2)] by (simp add: linorder_not_less [symmetric])

lemma time_le: "valid c \<Longrightarrow> valid c' \<Longrightarrow> c \<le> c' \<Longrightarrow> time c \<le> time c'"
  using time_mono [of c c'] by (auto simp: le_less)

end

interpretation utc: clock valid_civil civil_time utc_parts
  by unfold_locales
    (simp_all add: civil_time_mono utc_parts_civil_time civil_time_utc_parts valid_utc_parts)

end
