(* ===== verification/CronEvaluator.thy ===== *)
theory CronEvaluator
  imports CronParser Calendar
begin

section \<open>The next run of a schedule (packages/shared/src/scheduling/cron-evaluator.ts)\<close>

text \<open>
  \<open>getNextRunTime\<close> and what it calls.  One round of the loop up to the candidate minute is
  \<open>advance\<close>, written in the stages of the loop body: a \<open>continue\<close> is \<^const>\<open>Inl\<close> of the next
  state, falling through to the timestamp is \<^const>\<open>Inr\<close>.  The loop is \<open>scan\<close>, a total
  function.

  The time zone database is the parameter \<open>tz\<close>: for a known zone, the wall-clock parts of a time
  value; \<^const>\<open>None\<close> for a name \<open>Intl.DateTimeFormat\<close> rejects.  A time is in milliseconds,
  \<^const>\<open>None\<close> is \<open>NaN\<close>.  The loop is modelled for integral field values; the expressions
  with fractional values that the parser lets through end in \<open>FractionalField\<close>, which stands
  for no error of the code.
\<close>

datatype run_error =
    ParseError cron_error
  | InvalidTimeZone string
  | InvalidTimeValue
  | NoRunWithin4Years string
  | FractionalField

type_synonym tz_database = "string \<Rightarrow> (int \<Rightarrow> civil) option"

definition integral :: "rat \<Rightarrow> bool" where
  "integral v \<longleftrightarrow> of_int \<lfloor>v\<rfloor> = v"

definition int_fields :: "rat CronFields \<Rightarrow> int CronFields option" where
  "int_fields F =
     (if list_all integral (minutes F @ hours F @ daysOfMonth F @ months F @ daysOfWeek F)
      then Some \<lparr>minutes = map floor (minutes F), hours = map floor (hours F),
                 daysOfMonth = map floor (daysOfMonth F), months = map floor (months F),
                 daysOfWeek = map floor (daysOfWeek F)\<rparr>
      else None)"

lemma int_fields_rat_fields [simp]: "int_fields (rat_fields F) = Some F"
  by (auto simp: int_fields_def rat_fields_def integral_def list_all_iff comp_def)

subsection \<open>The calendar helpers\<close>

definition daysInMonth :: "int \<Rightarrow> int \<Rightarrow> int option" where
  "daysInMonth year month =
     map_option (\<lambda>t. date_from_day (day_of_time t)) (time_clip (make_day year month 0 * 86400000))"

definition getDayOfWeek :: "int \<Rightarrow> int \<Rightarrow> int \<Rightarrow> int option" where
  "getDayOfWeek year month day =
     map_option (\<lambda>t. week_day (day_of_time t)) (time_clip (make_day year (month - 1) day * 86400000))"

fun findNextOrEqual :: "int list \<Rightarrow> int \<Rightarrow> int option" where
  "findNextOrEqual [] current = None"
| "findNextOrEqual (val # allowed) current =
     (if current \<le> val then Some val else findNextOrEqual allowed current)"

subsection \<open>One round of the loop\<close>

definition next_month :: "int \<Rightarrow> int \<Rightarrow> civil" where
  "next_month year month =
     (if month + 1 > 12 then Civil (year + 1) 1 1 0 0 else Civil year (month + 1) 1 0 0)"

definition next_day :: "int \<Rightarrow> int \<Rightarrow> int \<Rightarrow> int \<Rightarrow> civil" where
  "next_day year month day maxDays =
     (if day + 1 > maxDays then next_month year month else Civil year month (day + 1) 0 0)"

definition pick_minute :: "int CronFields \<Rightarrow> civil \<Rightarrow> civil + civil" where
  "pick_minute F c =
     (case findNextOrEqual (minutes F) (c_minute c) of
        None \<Rightarrow> Inl (Civil (c_year c) (c_month c) (c_day c) (c_hour c + 1) 0)
      | Some nextMinute \<Rightarrow> Inr (Civil (c_year c) (c_month c) (c_day c) (c_hour c) nextMinute))"

definition pick_hour :: "int CronFields \<Rightarrow> int \<Rightarrow> civil \<Rightarrow> civil + civil" where
  "pick_hour F maxDays c =
     (case findNextOrEqual (hours F) (c_hour c) of
        None \<Rightarrow> Inl (next_day (c_year c) (c_month c) (c_day c) maxDays)
      | Some nextHour \<Rightarrow>
          pick_minute F
            (if c_hour c < nextHour then Civil (c_year c) (c_month c) (c_day c) nextHour 0 else c))"

definition check_weekday :: "int CronFields \<Rightarrow> int \<Rightarrow> civil \<Rightarrow> civil + civil" where
  "check_weekday F maxDays c =
     (if getDayOfWeek (c_year c) (c_month c) (c_day c) \<notin> Some ` set (daysOfWeek F)
      then Inl (next_day (c_year c) (c_month c) (c_day c) maxDays)
      else pick_hour F maxDays c)"

definition pick_day :: "int CronFields \<Rightarrow> civil \<Rightarrow> civil + civil" where
  "pick_day F c =
     (case daysInMonth (c_year c) (c_month c) of
        None \<Rightarrow> Inl (next_month (c_year c) (c_month c))
      | Some maxDays \<Rightarrow>
          (let validDays = filter (\<lambda>d. d \<le> maxDays) (daysOfMonth F) in
           if validDays = [] then Inl (next_month (c_year c) (c_month c))
           else case findNextOrEqual validDays (c_day c) of
                  None \<Rightarrow> Inl (next_month (c_year c) (c_month c))
                | Some nextDay \<Rightarrow>
                    check_weekday F maxDays
                      (if c_day c < nextDay then Civil (c_year c) (c_month c) nextDay 0 0 else c)))"

definition advance :: "int CronFields \<Rightarrow> civil \<Rightarrow> civil + civil" where
  "advance F c =
     (case findNextOrEqual (months F) (c_month c) of
        None \<Rightarrow> Inl (Civil (c_year c + 1) (hd (months F)) 1 0 0)
      | Some nextMonth \<Rightarrow>
          pick_day F (if c_month c < nextMonth then Civil (c_year c) nextMonth 1 0 0 else c))"

definition bump_minute :: "civil \<Rightarrow> civil" where
  "bump_minute c =
     (if c_minute c + 1 > 59 then Civil (c_year c) (c_month c) (c_day c) (c_hour c + 1) 0
      else Civil (c_year c) (c_month c) (c_day c) (c_hour c) (c_minute c + 1))"

subsection \<open>The loop ends\<close>

text \<open>
  Each round moves to a later minute, and the first component that changes was at most the
  largest allowed value of its field.
\<close>

definition top :: "int list \<Rightarrow> int" where "top vs = foldr max vs 0"

lemma top_upper: "v \<in> set vs \<Longrightarrow> v \<le> top vs"
  by (induction vs) (auto simp: top_def)

definition rises :: "int CronFields \<Rightarrow> civil \<Rightarrow> civil \<Rightarrow> bool" where
  "rises F c c' \<longleftrightarrow>
     c_year c < c_year c' \<or> c_year c = c_year c' \<and>
     (c_month c < c_month c' \<and> c_month c \<le> top (months F) \<or> c_month c = c_month c' \<and>
      (c_day c < c_day c' \<and> c_day c \<le> top (daysOfMonth F) \<or> c_day c = c_day c' \<and>
       (c_hour c < c_hour c' \<and> c_hour c \<le> top (hours F) \<or> c_hour c = c_hour c' \<and>
        c_minute c < c_minute c' \<and> c_minute c \<le> top (minutes F))))"

lemma findNext_Some:
  "findNextOrEqual vs x = Some v \<Longrightarrow> v \<in> set vs \<and> x \<le> v"
  by (induction vs) (auto split: if_splits)

lemma findNext_least:
  "sorted_wrt (<) vs \<Longrightarrow> findNextOrEqual vs x = Some v \<Longrightarrow> w \<in> set vs \<Longrightarrow> x \<le> w \<Longrightarrow> v \<le> w"
  by (induction vs) (auto split: if_splits)

lemma findNext_None: "findNextOrEqual vs x = None \<longleftrightarrow> (\<forall>v \<in> set vs. v < x)"
  by (induction vs) auto

text \<open>The states between the stages: the components before the one being chosen are allowed.\<close>

definition at_hour :: "int CronFields \<Rightarrow> civil \<Rightarrow> bool" where
  "at_hour F c \<longleftrightarrow> c_month c \<le> top (months F) \<and> c_day c \<le> top (daysOfMonth F)"

lemma rises_next_month: "c_month c \<le> top (months F) \<Longrightarrow> rises F c (next_month (c_year c) (c_month c))"
  by (simp add: rises_def next_month_def)

lemma rises_next_day: "at_hour F c \<Longrightarrow> rises F c (next_day (c_year c) (c_month c) (c_day c) n)"
  using rises_next_month [of c F] by (auto simp: next_day_def at_hour_def) (simp add: rises_def)

definition ends :: "int CronFields \<Rightarrow> civil \<Rightarrow> civil + civil \<Rightarrow> bool" where
  "ends F c r \<longleftrightarrow> (case r of Inl c' \<Rightarrow> rises F c c' | Inr c' \<Rightarrow>
     rises F c (bump_minute c'))"

lemma rises_trans_fix:
  assumes "rises F c c1" "rises F c1 c2"
  shows "rises F c c2"
  using assms unfolding rises_def by linarith

lemma ends_trans: "c1 = c \<or> rises F c c1 \<Longrightarrow> ends F c1 r \<Longrightarrow> ends F c r"
  by (auto simp: ends_def intro: rises_trans_fix split: sum.splits)

lemma ends_minute:
  assumes "at_hour F c" "c_hour c \<le> top (hours F)"
  shows "ends F c (pick_minute F c)"
proof (cases "findNextOrEqual (minutes F) (c_minute c)")
  case None
  then show ?thesis using assms by (simp add: pick_minute_def ends_def rises_def)
next
  case (Some v)
  then have "v \<le> top (minutes F)" "c_minute c \<le> v" using findNext_Some top_upper by blast+
  then show ?thesis using assms Some
    by (simp add: pick_minute_def ends_def bump_minute_def rises_def)
qed

lemma ends_hour:
  assumes "at_hour F c"
  shows "ends F c (pick_hour F n c)"
proof (cases "findNextOrEqual (hours F) (c_hour c)")
  case None
  then show ?thesis using rises_next_day [OF assms] by (simp add: pick_hour_def ends_def)
next
  case (Some v)
  then have v: "v \<le> top (hours F)" "c_hour c \<le> v" using findNext_Some top_upper by blast+
  define c1 where "c1 = (if c_hour c < v then Civil (c_year c) (c_month c) (c_day c) v 0 else c)"
  have "ends F c1 (pick_minute F c1)"
    by (rule ends_minute) (use assms v in \<open>auto simp: c1_def at_hour_def\<close>)
  moreover have "c1 = c \<or> rises F c c1" using v by (simp add: c1_def rises_def)
  ultimately have "ends F c (pick_minute F c1)" using ends_trans by blast
  then show ?thesis using Some by (simp add: pick_hour_def c1_def)
qed

lemma ends_weekday: "at_hour F c \<Longrightarrow> ends F c (check_weekday F n c)"
  using rises_next_day [of F c n] ends_hour [of F c n] by (simp add: check_weekday_def ends_def)

lemma ends_day:
  assumes "c_month c \<le> top (months F)"
  shows "ends F c (pick_day F c)"
proof -
  have nm: "ends F c (Inl (next_month (c_year c) (c_month c)))"
    using rises_next_month [OF assms] by (simp add: ends_def)
  have "ends F c (check_weekday F n (if c_day c < v then Civil (c_year c) (c_month c) v 0 0 else c))"
    (is "ends F c (check_weekday F n ?c1)")
    if "findNextOrEqual (filter (\<lambda>d. d \<le> n) (daysOfMonth F)) (c_day c) = Some v" for n v
  proof -
    have v: "v \<le> top (daysOfMonth F)" "c_day c \<le> v"
      using findNext_Some [OF that] top_upper [of v "daysOfMonth F"] by auto
    have "ends F ?c1 (check_weekday F n ?c1)"
      by (rule ends_weekday) (use assms v in \<open>auto simp: at_hour_def\<close>)
    moreover have "?c1 = c \<or> rises F c ?c1" using v by (simp add: rises_def)
    ultimately show ?thesis using ends_trans by blast
  qed
  then show ?thesis using nm by (auto simp: pick_day_def Let_def split: option.splits)
qed

lemma ends_advance: "ends F c (advance F c)"
proof (cases "findNextOrEqual (months F) (c_month c)")
  case None
  then show ?thesis by (simp add: advance_def ends_def rises_def)
next
  case (Some v)
  then have v: "v \<le> top (months F)" "c_month c \<le> v" using findNext_Some top_upper by blast+
  define c1 where "c1 = (if c_month c < v then Civil (c_year c) v 1 0 0 else c)"
  have "ends F c1 (pick_day F c1)" by (rule ends_day) (use v in \<open>auto simp: c1_def\<close>)
  moreover have "c1 = c \<or> rises F c c1" using v by (simp add: c1_def rises_def)
  ultimately have "ends F c (pick_day F c1)" using ends_trans by blast
  then show ?thesis using Some by (simp add: advance_def c1_def)
qed

function scan :: "int CronFields \<Rightarrow> (civil \<Rightarrow> run_error + int option) \<Rightarrow> int \<Rightarrow> int \<Rightarrow> civil
    \<Rightarrow> run_error + int option"
where
  "scan F build ref maxYear c =
     (if c_year c \<le> maxYear then
        (case advance F c of
           Inl c' \<Rightarrow> scan F build ref maxYear c'
         | Inr c' \<Rightarrow>
             (case build c' of
                Inl err \<Rightarrow> Inl err
              | Inr resultMs \<Rightarrow>
                  if (case resultMs of Some t \<Rightarrow> ref < t | None \<Rightarrow> False) then Inr resultMs
                  else scan F build ref maxYear (bump_minute c')))
      else Inr None)"
  by pat_completeness auto

definition scan_measures :: "int CronFields \<Rightarrow> int \<Rightarrow> (civil \<Rightarrow> nat) list" where
  "scan_measures F maxYear =
     [\<lambda>c. nat (maxYear + 1 - c_year c), \<lambda>c. nat (top (months F) + 1 - c_month c),
      \<lambda>c. nat (top (daysOfMonth F) + 1 - c_day c), \<lambda>c. nat (top (hours F) + 1 - c_hour c),
      \<lambda>c. nat (top (minutes F) + 1 - c_minute c)]"

lemma rises_decreases:
  "rises F c c' \<Longrightarrow> c_year c \<le> maxYear \<Longrightarrow> (c', c) \<in> measures (scan_measures F maxYear)"
  unfolding rises_def scan_measures_def by (elim disjE conjE) simp_all

termination scan
proof (relation "measures
    [\<lambda>(F, build, ref, maxYear, c). nat (maxYear + 1 - c_year c),
     \<lambda>(F, build, ref, maxYear, c). nat (top (months F) + 1 - c_month c),
     \<lambda>(F, build, ref, maxYear, c). nat (top (daysOfMonth F) + 1 - c_day c),
     \<lambda>(F, build, ref, maxYear, c). nat (top (hours F) + 1 - c_hour c),
     \<lambda>(F, build, ref, maxYear, c). nat (top (minutes F) + 1 - c_minute c)]", goal_cases)
  case 1
  then show ?case by simp
next
  case (2 F build ref maxYear c c')
  then have "rises F c c'" using ends_advance [of F c] by (simp add: ends_def)
  then show ?case using rises_decreases [of F c c' maxYear] 2(1) by (simp add: scan_measures_def)
next
  case (3 F build ref maxYear c c' r)
  then have "rises F c (bump_minute c')" using ends_advance [of F c] by (simp add: ends_def)
  then show ?case using rises_decreases [of F c "bump_minute c'" maxYear] 3(1)
    by (simp add: scan_measures_def)
qed

declare scan.simps [simp del]

subsection \<open>Times and zones\<close>

text \<open>\<open>Date.UTC(year, month - 1, day, hour, minute, 0, 0)\<close>.\<close>

definition utc_date :: "civil \<Rightarrow> int option" where
  "utc_date c = time_clip (civil_time c)"

text \<open>The part of \<open>getDatePartsInTimezone\<close> after the test for UTC.\<close>

definition zone_parts :: "tz_database \<Rightarrow> string \<Rightarrow> int option \<Rightarrow> run_error + civil" where
  "zone_parts tz timezone date =
     (case tz timezone of
        None \<Rightarrow> Inl (InvalidTimeZone timezone)
      | Some parts \<Rightarrow>
          (case date of None \<Rightarrow> Inl InvalidTimeValue | Some t \<Rightarrow> Inr (parts t)))"

definition getDatePartsInTimezone ::
    "tz_database \<Rightarrow> int option \<Rightarrow> string \<Rightarrow> run_error + civil option" where
  "getDatePartsInTimezone tz date timezone =
     (if timezone = ''UTC'' then Inr (map_option utc_parts date)
      else and_then (zone_parts tz timezone date) (\<lambda>c. Inr (Some c)))"

definition localMinutes :: "civil \<Rightarrow> int" where
  "localMinutes c =
     c_year c * 525960 + c_month c * 43800 + c_day c * 1440 + c_hour c * 60 + c_minute c"

text \<open>The loop over the four adjustments, with the guess as the fallback.\<close>

fun try_offsets :: "tz_database \<Rightarrow> string \<Rightarrow> civil \<Rightarrow> int \<Rightarrow> int list \<Rightarrow> run_error + int option" where
  "try_offsets tz timezone c result [] = Inr (Some result)"
| "try_offsets tz timezone c result (offsetMs # os) =
     and_then (zone_parts tz timezone (time_clip (result + offsetMs))) (\<lambda>adjParts.
       if adjParts = c then Inr (Some (result + offsetMs))
       else try_offsets tz timezone c result os)"

definition buildTimestampInTimezone ::
    "tz_database \<Rightarrow> string \<Rightarrow> civil \<Rightarrow> run_error + int option" where
  "buildTimestampInTimezone tz timezone c =
     (if timezone = ''UTC'' then Inr (utc_date c)
      else
        and_then (zone_parts tz timezone (utc_date c)) (\<lambda>guessParts.
          case utc_date c of
            None \<Rightarrow> Inl InvalidTimeValue
          | Some utcGuess \<Rightarrow>
              (let diffMinutes = localMinutes c - localMinutes guessParts;
                   result = utcGuess + diffMinutes * 60000
               in and_then (zone_parts tz timezone (time_clip result)) (\<lambda>verifyParts.
                    if verifyParts = c then Inr (Some result)
                    else try_offsets tz timezone c result [3600000, -3600000, 7200000, -7200000]))))"

text \<open>The remainder of the language takes the sign of the dividend.\<close>

definition js_rem :: "int \<Rightarrow> int \<Rightarrow> int" where
  "js_rem a b = sgn a * (\<bar>a\<bar> mod \<bar>b\<bar>)"

text \<open>\<open>getNextRunTime\<close> after its call of the parser.\<close>

definition next_run :: "tz_database \<Rightarrow> string \<Rightarrow> int CronFields \<Rightarrow> int \<Rightarrow> string option \<Rightarrow> run_error + int" where
  "next_run tz cronExpr F referenceTimestamp timezone =
     (let zone = (case timezone of Some z \<Rightarrow> if z = [] then ''UTC'' else z | None \<Rightarrow> ''UTC'');
          startMs = referenceTimestamp + 60000;
          startDate = time_clip (startMs - js_rem startMs 60000)
      in and_then (getDatePartsInTimezone tz startDate zone) (\<lambda>start.
           case start of
             None \<Rightarrow> Inl (NoRunWithin4Years cronExpr)
           | Some c \<Rightarrow>
               and_then
                 (scan F (buildTimestampInTimezone tz zone) referenceTimestamp (c_year c + 4) c)
                 (\<lambda>r. case r of
                    None \<Rightarrow> Inl (NoRunWithin4Years cronExpr)
                  | Some resultMs \<Rightarrow> Inr resultMs)))"

definition getNextRunTime :: "tz_database \<Rightarrow> string \<Rightarrow> int \<Rightarrow> string option \<Rightarrow> run_error + int" where
  "getNextRunTime tz cronExpr referenceTimestamp timezone =
     (case parseCronExpression cronExpr of
        Inl err \<Rightarrow> Inl (ParseError err)
      | Inr parsed \<Rightarrow>
          (case int_fields parsed of
             None \<Rightarrow> Inl FractionalField
           | Some F \<Rightarrow> next_run tz cronExpr F referenceTimestamp timezone))"

lemma getNextRunTime_parsed:
  "parseCronExpression expr = Inr (rat_fields F) \<Longrightarrow> getNextRunTime tz expr ref z = next_run tz expr F ref z"
  by (simp add: getNextRunTime_def)

end
