(* ===== verification/CronNextRun.thy ===== *)
theory CronNextRun
  imports CronEvaluator
begin

section \<open>The next run is the earliest matching minute\<close>

text \<open>
  What an expression means is \<open>cron_matches\<close>: every component of the wall-clock minute, the day of
  the month and the day of the week alike, is an allowed value.  The stages of a round are shown
  to skip no matching minute, the loop to end at the first one, and through the laws of the clock
  (\<open>utc\<close>) the next run in UTC to be the first matching minute after the reference time.
\<close>

definition cron_matches :: "int CronFields \<Rightarrow> civil \<Rightarrow> bool" where
  "cron_matches F c \<longleftrightarrow>
     c_month c \<in> set (months F) \<and> c_day c \<in> set (daysOfMonth F) \<and>
     week_day (civil_day c) \<in> set (daysOfWeek F) \<and>
     c_hour c \<in> set (hours F) \<and> c_minute c \<in> set (minutes F)"

definition hit :: "int CronFields \<Rightarrow> civil \<Rightarrow> bool" where
  "hit F c \<longleftrightarrow> valid_civil c \<and> cron_matches F c"

text \<open>States of the loop: a valid date, an hour that may have run over.\<close>

definition state_ok :: "civil \<Rightarrow> bool" where
  "state_ok c \<longleftrightarrow> valid_date (c_year c) (c_month c) (c_day c) \<and>
     0 \<le> c_hour c \<and> c_hour c \<le> 24 \<and> 0 \<le> c_minute c \<and> c_minute c \<le> 59"

definition skips :: "int CronFields \<Rightarrow> civil \<Rightarrow> civil \<Rightarrow> bool" where
  "skips F c c' \<longleftrightarrow> (\<forall>x. hit F x \<and> c \<le> x \<longrightarrow> c' \<le> x)"

definition sound :: "int CronFields \<Rightarrow> civil \<Rightarrow> civil + civil \<Rightarrow> bool" where
  "sound F c r \<longleftrightarrow> (case r of
     Inl c' \<Rightarrow> state_ok c' \<and> skips F c c'
   | Inr c' \<Rightarrow> hit F c' \<and> c \<le> c' \<and> c_year c' = c_year c \<and> skips F c c')"

lemma sound_trans:
  "c = c1 \<or> c \<le> c1 \<and> c_year c1 = c_year c \<and> skips F c c1 \<Longrightarrow> sound F c1 r \<Longrightarrow> sound F c r"
  by (auto simp: sound_def skips_def split: sum.splits intro: order_trans)

lemma hit_bounds:
  "hit F x \<Longrightarrow> 1970 \<le> c_year x \<and> 1 \<le> c_month x \<and> c_month x \<le> 12 \<and> 1 \<le> c_day x \<and>
     c_day x \<le> month_length (is_leap (c_year x)) (c_month x) \<and>
     0 \<le> c_hour x \<and> c_hour x \<le> 23 \<and> 0 \<le> c_minute x \<and> c_minute x \<le> 59"
  by (simp add: hit_def valid_civil_def valid_date_def)

lemma int_fields_okD:
  assumes "int_fields_ok F"
  shows "sorted_wrt (<) (minutes F)" "sorted_wrt (<) (hours F)" "sorted_wrt (<) (daysOfMonth F)"
    "sorted_wrt (<) (months F)" "months F \<noteq> []"
    "v \<in> set (minutes F) \<Longrightarrow> 0 \<le> v \<and> v \<le> 59" "v \<in> set (hours F) \<Longrightarrow> 0 \<le> v \<and> v \<le> 23"
    "v \<in> set (daysOfMonth F) \<Longrightarrow> 1 \<le> v \<and> v \<le> 31" "v \<in> set (months F) \<Longrightarrow> 1 \<le> v \<and> v \<le> 12"
  using assms by (auto simp: int_fields_ok_def int_field_ok_iff FIELD_SPECS_def)

lemma daysInMonth_eq:
  assumes "1970 \<le> y" "y \<le> 270000" "1 \<le> m" "m \<le> 12"
  shows "daysInMonth y m = Some (month_length (is_leap y) m)"
proof -
  let ?n = "first_of y m + month_length (is_leap y) m - 1"
  have v: "valid_date y m (month_length (is_leap y) m)" using assms by (intro valid_date_last) auto
  have "0 \<le> day_from_year y" using day_from_year_less [of 1970 y] assms(1)
    by (cases "y = 1970") (auto simp: day_from_year_def [of 1970] days_in_year_def split: if_splits)
  moreover have "day_from_year y \<le> 98100000" using year_day_bounds assms(2) by simp
  ultimately have "0 \<le> ?n" "?n \<le> 100000000"
    using days_before_bounds [OF assms(3,4), of "is_leap y"] month_length_bounds [OF assms(3,4), of "is_leap y"]
    by (auto simp: first_of_def split: if_splits)
  then show ?thesis
    using valid_date_parts(3) [OF v refl] make_day_last [OF assms(1,3,4)]
    by (simp add: daysInMonth_def time_clip_def max_time_def day_of_time_def)
qed

lemma getDayOfWeek_eq:
  assumes "valid_date y m d" "y \<le> 270000"
  shows "getDayOfWeek y m d = Some (week_day (first_of y m + d - 1))"
proof -
  let ?n = "first_of y m + d - 1"
  have m: "1970 \<le> y" "1 \<le> m" "m \<le> 12" using assms(1) by (auto simp: valid_date_def)
  have "0 \<le> day_from_year y" using day_from_year_less [of 1970 y] m(1)
    by (cases "y = 1970") (auto simp: day_from_year_def [of 1970] days_in_year_def split: if_splits)
  moreover have "day_from_year y \<le> 98100000" using year_day_bounds assms(2) by simp
  ultimately have "0 \<le> ?n" "?n \<le> 100000000"
    using days_before_bounds [OF m(2,3), of "is_leap y"] assms(1)
    by (auto simp: first_of_def valid_date_def split: if_splits)
  then show ?thesis
    using make_day_civil [OF assms(1)]
    by (simp add: getDayOfWeek_def time_clip_def max_time_def day_of_time_def)
qed

subsection \<open>The stages\<close>

lemma skips_next_month:
  assumes "\<And>x. hit F x \<Longrightarrow> c \<le> x \<Longrightarrow> c_year x = c_year c \<Longrightarrow> c_month x = c_month c \<Longrightarrow> False"
  shows "skips F c (next_month (c_year c) (c_month c))"
  unfolding skips_def
proof (intro allI impI, elim conjE)
  fix x assume x: "hit F x" "c \<le> x"
  note b = hit_bounds [OF x(1)]
  have "c_year c < c_year x \<or> c_year c = c_year x \<and> c_month c < c_month x"
    using assms [OF x] x(2) by (cases c; cases x) auto
  then show "next_month (c_year c) (c_month c) \<le> x"
    using b by (cases x) (auto simp: next_month_def)
qed

lemma state_ok_next_month:
  assumes "valid_date (c_year c) (c_month c) d"
  shows "state_ok (next_month (c_year c) (c_month c))"
  using assms month_length_bounds [of "c_month c + 1" "is_leap (c_year c)"]
    month_length_bounds [of 1 "is_leap (c_year c + 1)"]
  by (auto simp: state_ok_def next_month_def valid_date_def)

lemma skips_next_day:
  assumes "\<And>x. hit F x \<Longrightarrow> c \<le> x \<Longrightarrow> c_year x = c_year c \<Longrightarrow> c_month x = c_month c \<Longrightarrow>
      c_day x = c_day c \<Longrightarrow> False"
    and "n = month_length (is_leap (c_year c)) (c_month c)"
  shows "skips F c (next_day (c_year c) (c_month c) (c_day c) n)"
proof (cases "c_day c + 1 > n")
  case True
  have "skips F c (next_month (c_year c) (c_month c))"
  proof (rule skips_next_month)
    fix x assume x: "hit F x" "c \<le> x" "c_year x = c_year c" "c_month x = c_month c"
    then have "c_day c \<le> c_day x" by (cases c; cases x) auto
    then have "c_day x = c_day c" using hit_bounds [OF x(1)] True assms(2) x by simp
    then show False using assms(1) x by blast
  qed
  then show ?thesis using True by (simp add: next_day_def)
next
  case False
  show ?thesis unfolding skips_def
  proof (intro allI impI, elim conjE)
    fix x assume x: "hit F x" "c \<le> x"
    note b = hit_bounds [OF x(1)]
    have "Civil (c_year c) (c_month c) (c_day c + 1) 0 0 \<le> x"
      using assms(1) [OF x] x(2) b by (cases c; cases x) auto
    then show "next_day (c_year c) (c_month c) (c_day c) n \<le> x" using False by (simp add: next_day_def)
  qed
qed

lemma state_ok_next_day:
  assumes "valid_date (c_year c) (c_month c) (c_day c)"
    "n = month_length (is_leap (c_year c)) (c_month c)"
  shows "state_ok (next_day (c_year c) (c_month c) (c_day c) n)"
  using assms state_ok_next_month [OF assms(1)]
  by (auto simp: next_day_def) (auto simp: state_ok_def valid_date_def)

lemma sound_minute:
  assumes F: "int_fields_ok F" and ok: "state_ok c" "c_month c \<in> set (months F)"
    "c_day c \<in> set (daysOfMonth F)" "week_day (civil_day c) \<in> set (daysOfWeek F)"
    "c_hour c \<in> set (hours F)"
  shows "sound F c (pick_minute F c)"
proof (cases "findNextOrEqual (minutes F) (c_minute c)")
  case None
  let ?c' = "Civil (c_year c) (c_month c) (c_day c) (c_hour c + 1) 0"
  have "skips F c ?c'" unfolding skips_def
  proof (intro allI impI, elim conjE)
    fix x assume x: "hit F x" "c \<le> x"
    have "c_minute x < c_minute c" using x(1) None by (auto simp: findNext_None hit_def cron_matches_def)
    then show "?c' \<le> x" using x(2) hit_bounds [OF x(1)] by (cases c; cases x) auto
  qed
  moreover have "state_ok ?c'" using ok int_fields_okD(7) [OF F ok(5)] by (simp add: state_ok_def)
  ultimately show ?thesis using None by (simp add: pick_minute_def sound_def)
next
  case (Some v)
  let ?c' = "Civil (c_year c) (c_month c) (c_day c) (c_hour c) v"
  have v: "v \<in> set (minutes F)" "c_minute c \<le> v" using findNext_Some [OF Some] by auto
  have "skips F c ?c'" unfolding skips_def
  proof (intro allI impI, elim conjE)
    fix x assume x: "hit F x" "c \<le> x"
    have "v \<le> c_minute x" if "c_minute c \<le> c_minute x"
      using findNext_least [OF int_fields_okD(1) [OF F] Some _ that] x(1)
      by (simp add: hit_def cron_matches_def)
    then show "?c' \<le> x" using x(2) by (cases c; cases x) auto
  qed
  moreover have "hit F ?c'"
    using ok v int_fields_okD(6) [OF F v(1)] int_fields_okD(7) [OF F ok(5)]
    by (simp add: hit_def cron_matches_def valid_civil_def state_ok_def civil_day_def)
  moreover have "c \<le> ?c'" using v(2) by (cases c) auto
  ultimately show ?thesis using Some by (simp add: pick_minute_def sound_def)
qed

lemma sound_hour:
  assumes F: "int_fields_ok F" and ok: "state_ok c" "c_month c \<in> set (months F)"
    "c_day c \<in> set (daysOfMonth F)" "week_day (civil_day c) \<in> set (daysOfWeek F)"
    and n: "n = month_length (is_leap (c_year c)) (c_month c)"
  shows "sound F c (pick_hour F n c)"
proof (cases "findNextOrEqual (hours F) (c_hour c)")
  case None
  have "skips F c (next_day (c_year c) (c_month c) (c_day c) n)"
  proof (rule skips_next_day [OF _ n])
    fix x assume x: "hit F x" "c \<le> x" "c_year x = c_year c" "c_month x = c_month c" "c_day x = c_day c"
    have "c_hour x < c_hour c" using x(1) None by (auto simp: findNext_None hit_def cron_matches_def)
    then show False using x by (cases c; cases x) auto
  qed
  moreover have "state_ok (next_day (c_year c) (c_month c) (c_day c) n)"
    using ok(1) n by (intro state_ok_next_day) (simp_all add: state_ok_def)
  ultimately show ?thesis using None by (simp add: pick_hour_def sound_def)
next
  case (Some v)
  have v: "v \<in> set (hours F)" "c_hour c \<le> v" using findNext_Some [OF Some] by auto
  define c1 where "c1 = (if c_hour c < v then Civil (c_year c) (c_month c) (c_day c) v 0 else c)"
  have "skips F c c1" unfolding skips_def
  proof (intro allI impI, elim conjE)
    fix x assume x: "hit F x" "c \<le> x"
    have "v \<le> c_hour x" if "c_hour c \<le> c_hour x"
      using findNext_least [OF int_fields_okD(2) [OF F] Some _ that] x(1)
      by (simp add: hit_def cron_matches_def)
    then show "c1 \<le> x" using x(2) hit_bounds [OF x(1)] by (cases c; cases x) (auto simp: c1_def)
  qed
  moreover have "c \<le> c1" by (cases c) (auto simp: c1_def)
  moreover have "sound F c1 (pick_minute F c1)"
    by (rule sound_minute [OF F])
      (use ok v int_fields_okD(7) [OF F v(1)] in \<open>auto simp: c1_def state_ok_def civil_day_def\<close>)
  ultimately have "sound F c (pick_minute F c1)" by (intro sound_trans [of c c1]) (simp_all add: c1_def)
  then show ?thesis using Some by (simp add: pick_hour_def c1_def)
qed

lemma sound_weekday:
  assumes F: "int_fields_ok F" and ok: "state_ok c" "c_month c \<in> set (months F)"
    "c_day c \<in> set (daysOfMonth F)" "c_year c \<le> 270000"
    and n: "n = month_length (is_leap (c_year c)) (c_month c)"
  shows "sound F c (check_weekday F n c)"
proof (cases "week_day (civil_day c) \<in> set (daysOfWeek F)")
  case True
  then show ?thesis using sound_hour [OF F ok(1-3) True n] ok(1,4)
    by (simp add: check_weekday_def getDayOfWeek_eq state_ok_def civil_day_def)
next
  case False
  have "skips F c (next_day (c_year c) (c_month c) (c_day c) n)"
  proof (rule skips_next_day [OF _ n])
    fix x assume x: "hit F x" "c \<le> x" "c_year x = c_year c" "c_month x = c_month c" "c_day x = c_day c"
    then have "civil_day x = civil_day c" by (simp add: civil_day_def)
    then show False using x(1) False by (simp add: hit_def cron_matches_def)
  qed
  moreover have "state_ok (next_day (c_year c) (c_month c) (c_day c) n)"
    using ok(1) n by (intro state_ok_next_day) (simp_all add: state_ok_def)
  ultimately show ?thesis using False ok(1,4)
    by (simp add: check_weekday_def getDayOfWeek_eq state_ok_def civil_day_def sound_def image_iff)
qed

lemma sound_day:
  assumes F: "int_fields_ok F" and ok: "state_ok c" "c_month c \<in> set (months F)" "c_year c \<le> 270000"
  shows "sound F c (pick_day F c)"
proof -
  define n where "n = month_length (is_leap (c_year c)) (c_month c)"
  define vs where "vs = filter (\<lambda>d. d \<le> n) (daysOfMonth F)"
  have n: "daysInMonth (c_year c) (c_month c) = Some n"
    using ok by (simp add: daysInMonth_eq n_def state_ok_def valid_date_def)
  have vs: "c_day x \<in> set vs"
    if "hit F x" "c_year x = c_year c" "c_month x = c_month c" for x
    using that hit_bounds [OF that(1)] by (auto simp: vs_def n_def hit_def cron_matches_def)
  have sorted: "sorted_wrt (<) vs" using int_fields_okD(3) [OF F] by (simp add: vs_def sorted_wrt_filter)
  show ?thesis
  proof (cases "findNextOrEqual vs (c_day c)")
    case None
    have "skips F c (next_month (c_year c) (c_month c))"
    proof (rule skips_next_month)
      fix x assume x: "hit F x" "c \<le> x" "c_year x = c_year c" "c_month x = c_month c"
      then have "c_day x < c_day c" using None vs by (auto simp: findNext_None)
      then show False using x by (cases c; cases x) auto
    qed
    moreover have "state_ok (next_month (c_year c) (c_month c))"
      using ok(1) by (intro state_ok_next_month [where d = "c_day c"]) (simp add: state_ok_def)
    ultimately show ?thesis using None
      by (simp add: pick_day_def n sound_def Let_def flip: vs_def)
  next
    case (Some v)
    have v: "v \<in> set vs" "c_day c \<le> v" using findNext_Some [OF Some] by auto
    then have vm: "v \<in> set (daysOfMonth F)" "v \<le> n" by (auto simp: vs_def)
    define c1 where "c1 = (if c_day c < v then Civil (c_year c) (c_month c) v 0 0 else c)"
    have "skips F c c1" unfolding skips_def
    proof (intro allI impI, elim conjE)
      fix x assume x: "hit F x" "c \<le> x"
      have "v \<le> c_day x" if "c_year x = c_year c" "c_month x = c_month c" "c_day c \<le> c_day x"
        using findNext_least [OF sorted Some _ that(3)] vs [OF x(1) that(1,2)] by simp
      then show "c1 \<le> x" using x(2) hit_bounds [OF x(1)] by (cases c; cases x) (auto simp: c1_def)
    qed
    moreover have "c \<le> c1" by (cases c) (auto simp: c1_def)
    moreover have "sound F c1 (check_weekday F n c1)"
      by (rule sound_weekday [OF F])
        (use ok v vm int_fields_okD(8) [OF F vm(1)] in
          \<open>auto simp: c1_def state_ok_def valid_date_def n_def\<close>)
    ultimately have "sound F c (check_weekday F n c1)"
      by (intro sound_trans [of c c1]) (simp_all add: c1_def)
    moreover have "vs \<noteq> []" using v(1) by auto
    ultimately show ?thesis using Some by (simp add: pick_day_def n c1_def Let_def flip: vs_def)
  qed
qed

lemma sound_advance:
  assumes F: "int_fields_ok F" and ok: "state_ok c" "c_year c \<le> 270000"
  shows "sound F c (advance F c)"
proof (cases "findNextOrEqual (months F) (c_month c)")
  case None
  let ?c' = "Civil (c_year c + 1) (hd (months F)) 1 0 0"
  have hd: "hd (months F) \<in> set (months F)" using int_fields_okD(5) [OF F] by simp
  have least: "hd (months F) \<le> m" if "m \<in> set (months F)" for m
    using int_fields_okD(4) [OF F] that by (cases "months F") auto
  have "skips F c ?c'" unfolding skips_def
  proof (intro allI impI, elim conjE)
    fix x assume x: "hit F x" "c \<le> x"
    have "c_month x < c_month c" "hd (months F) \<le> c_month x"
      using x(1) None least by (auto simp: findNext_None hit_def cron_matches_def)
    then show "?c' \<le> x" using x(2) hit_bounds [OF x(1)] by (cases c; cases x) auto
  qed
  moreover have "state_ok ?c'"
    using ok int_fields_okD(9) [OF F hd] month_length_bounds [of "hd (months F)" "is_leap (c_year c + 1)"]
    by (auto simp: state_ok_def valid_date_def)
  ultimately show ?thesis using None by (simp add: advance_def sound_def)
next
  case (Some v)
  have v: "v \<in> set (months F)" "c_month c \<le> v" using findNext_Some [OF Some] by auto
  define c1 where "c1 = (if c_month c < v then Civil (c_year c) v 1 0 0 else c)"
  have "skips F c c1" unfolding skips_def
  proof (intro allI impI, elim conjE)
    fix x assume x: "hit F x" "c \<le> x"
    have "v \<le> c_month x" if "c_month c \<le> c_month x"
      using findNext_least [OF int_fields_okD(4) [OF F] Some _ that] x(1)
      by (simp add: hit_def cron_matches_def)
    then show "c1 \<le> x" using x(2) hit_bounds [OF x(1)] by (cases c; cases x) (auto simp: c1_def)
  qed
  moreover have "c \<le> c1" by (cases c) (auto simp: c1_def)
  moreover have "sound F c1 (pick_day F c1)"
    by (rule sound_day [OF F])
      (use ok v int_fields_okD(9) [OF F v(1)] month_length_bounds [of v "is_leap (c_year c)"] in
        \<open>auto simp: c1_def state_ok_def valid_date_def\<close>)
  ultimately have "sound F c (pick_day F c1)" by (intro sound_trans [of c c1]) (simp_all add: c1_def)
  then show ?thesis using Some by (simp add: advance_def c1_def)
qed

subsection \<open>The loop\<close>

lemma rises_less: "rises F c c' \<Longrightarrow> c < c'"
  by (cases c; cases c') (auto simp: rises_def)

lemma scan_first:
  assumes "int_fields_ok F" "maxYear \<le> 270000" "state_ok c"
    and "\<And>x. hit F x \<Longrightarrow> c \<le> x \<Longrightarrow> c_year x \<le> maxYear \<Longrightarrow>
           build x = Inr (Some (civil_time x)) \<and> ref < civil_time x"
  shows "(\<exists>x. hit F x \<and> c \<le> x \<and> skips F c x \<and> c_year x \<le> maxYear \<and>
              scan F build ref maxYear c = Inr (Some (civil_time x))) \<or>
         scan F build ref maxYear c = Inr None \<and>
           (\<forall>x. hit F x \<and> c \<le> x \<longrightarrow> maxYear < c_year x)"
  using assms
proof (induction F build ref maxYear c rule: scan.induct)
  case (1 F build ref maxYear c)
  note F = "1.prems"(1) and max = "1.prems"(2) and ok = "1.prems"(3) and build = "1.prems"(4)
  show ?case
  proof (cases "c_year c \<le> maxYear")
    case False
    then have "maxYear < c_year x" if "c \<le> x" for x using that by (cases c; cases x) auto
    then show ?thesis using False by (simp add: scan.simps [of F build ref maxYear c])
  next
    case year: True
    have sound: "sound F c (advance F c)" using sound_advance [OF F ok] year max by simp
    show ?thesis
    proof (cases "advance F c")
      case (Inl c')
      then have c': "state_ok c'" "skips F c c'" "c < c'"
        using sound ends_advance [of F c] rises_less by (auto simp: sound_def ends_def)
      have scan: "scan F build ref maxYear c = scan F build ref maxYear c'"
        using Inl year by (simp add: scan.simps [of F build ref maxYear c])
      have "build x = Inr (Some (civil_time x)) \<and> ref < civil_time x"
        if "hit F x" "c' \<le> x" "c_year x \<le> maxYear" for x
        using build [OF that(1) _ that(3)] that(2) c'(3) by simp
      note IH = "1.IH"(1) [OF year Inl F max c'(1) this]
      have later: "c' \<le> x" if "hit F x" "c \<le> x" for x using c'(2) that by (simp add: skips_def)
      show ?thesis using IH
      proof
        assume "\<exists>x. hit F x \<and> c' \<le> x \<and> skips F c' x \<and> c_year x \<le> maxYear \<and>
          scan F build ref maxYear c' = Inr (Some (civil_time x))"
        then obtain x where "hit F x" "c' \<le> x" "skips F c' x" "c_year x \<le> maxYear"
          "scan F build ref maxYear c' = Inr (Some (civil_time x))" by blast
        moreover from this have "c \<le> x" "skips F c x"
          using c'(3) later by (auto simp: skips_def)
        ultimately show ?thesis using scan by auto
      qed (use scan later in auto)
    next
      case (Inr x)
      then have x: "hit F x" "c \<le> x" "c_year x = c_year c" "skips F c x"
        using sound by (auto simp: sound_def)
      then show ?thesis using build [OF x(1,2)] year Inr
        by (auto simp: scan.simps [of F build ref maxYear c])
    qed
  qed
qed

text \<open>Whatever the zone, a time the loop returns is later than the reference.\<close>

lemma scan_after: "scan F build ref maxYear c = Inr (Some t) \<Longrightarrow> ref < t"
proof (induction F build ref maxYear c rule: scan.induct)
  case (1 F build ref maxYear c)
  show ?case
    using "1.prems" "1.IH"
    by (subst (asm) scan.simps) (auto split: if_splits sum.splits option.splits)
qed

subsection \<open>UTC\<close>

lemma year_bound:
  assumes "0 \<le> t" "t \<le> 8400000000000000"
  shows "c_year (utc_parts t) \<le> 269990"
proof (rule ccontr)
  assume "\<not> ?thesis"
  then have "269991 \<le> year_from_day (day_of_time t)" by (simp add: utc_parts_def Let_def)
  then have "day_from_year 269991 \<le> day_from_year (year_from_day (day_of_time t))"
    using day_from_year_less [of 269991 "year_from_day (day_of_time t)"]
    by (cases "year_from_day (day_of_time t) = 269991") (auto simp: days_in_year_def split: if_splits)
  also have "\<dots> \<le> t div 86400000" using year_from_day_bounds by (simp add: day_of_time_def)
  also have "\<dots> \<le> 97222222" using assms(2) by simp
  finally show False by (simp add: day_from_year_def)
qed

lemma utc_date_Some:
  assumes "valid_civil c" "c_year c \<le> 270000"
  shows "utc_date c = Some (civil_time c)" "0 \<le> civil_time c" "civil_time c \<le> 8500000000000000"
proof -
  have v: "valid_date (c_year c) (c_month c) (c_day c)" and
    h: "0 \<le> c_hour c" "c_hour c \<le> 23" "0 \<le> c_minute c" "c_minute c \<le> 59"
    using assms(1) by (simp_all add: valid_civil_def)
  have m: "1970 \<le> c_year c" "1 \<le> c_month c" "c_month c \<le> 12" using v by (auto simp: valid_date_def)
  have "0 \<le> day_from_year (c_year c)" using day_from_year_less [of 1970 "c_year c"] m(1)
    by (cases "c_year c = 1970") (auto simp: day_from_year_def [of 1970] days_in_year_def split: if_splits)
  moreover have "day_from_year (c_year c) \<le> 98100000" using year_day_bounds assms(2) by simp
  ultimately have d: "0 \<le> civil_day c" "civil_day c \<le> 98100366"
    using days_before_bounds [OF m(2,3), of "is_leap (c_year c)"] v
    by (auto simp: civil_day_def first_of_def valid_date_def split: if_splits)
  show "civil_time c \<le> 8500000000000000" using d h by (simp add: civil_time_day [OF assms(1)])
  show "0 \<le> civil_time c" using d h by (simp add: civil_time_day [OF assms(1)])
  then show "utc_date c = Some (civil_time c)"
    using d h by (simp add: utc_date_def time_clip_def max_time_def civil_time_day [OF assms(1)])
qed

lemma civil_time_minute: "civil_time c mod 60000 = 0"
proof -
  have "civil_time c = 60000 * (make_day (c_year c) (c_month c - 1) (c_day c) * 1440
      + c_hour c * 60 + c_minute c)"
    by (simp add: civil_time_def make_time_def algebra_simps)
  then show ?thesis by simp
qed

text \<open>The first minute after the reference.\<close>

definition first_minute :: "int \<Rightarrow> int" where
  "first_minute ref = (ref + 60000) - (ref + 60000) mod 60000"

lemma first_minute:
  assumes "0 \<le> ref"
  shows "0 \<le> first_minute ref" "first_minute ref mod 60000 = 0" "ref < first_minute ref"
    "first_minute ref \<le> ref + 60000" "ref < s \<Longrightarrow> s mod 60000 = 0 \<Longrightarrow> first_minute ref \<le> s"
proof -
  define q where "q = ref div 60000"
  have e: "first_minute ref = 60000 * (q + 1)"
    by (simp add: first_minute_def q_def minus_mod_eq_mult_div)
  have m: "60000 * q \<le> ref" "ref < 60000 * q + 60000"
    using mult_div_mod_eq [of 60000 ref] pos_mod_bound [of 60000 ref] pos_mod_sign [of 60000 ref]
    by (simp_all add: q_def)
  show "0 \<le> first_minute ref" "ref < first_minute ref" "first_minute ref \<le> ref + 60000"
    using m assms by (simp_all add: e)
  show "first_minute ref mod 60000 = 0" by (simp add: e)
  show "first_minute ref \<le> s" if "ref < s" "s mod 60000 = 0"
  proof -
    obtain k where k: "s = 60000 * k" using \<open>s mod 60000 = 0\<close> by (auto simp: mod_eq_0_iff_dvd)
    then have "60000 * q < 60000 * k" using that(1) m(1) by linarith
    then show ?thesis by (simp add: k e)
  qed
qed

definition utc_zone :: "string option \<Rightarrow> bool" where
  "utc_zone z \<longleftrightarrow> z \<in> {None, Some [], Some ''UTC''}"

definition utc_outcome :: "string \<Rightarrow> int CronFields \<Rightarrow> int \<Rightarrow> run_error + int \<Rightarrow> bool" where
  "utc_outcome expr F ref r \<longleftrightarrow>
     (case r of
        Inr t \<Rightarrow> ref < t \<and> t mod 60000 = 0 \<and> cron_matches F (utc_parts t) \<and>
          c_year (utc_parts t) \<le> c_year (utc_parts (first_minute ref)) + 4 \<and>
          (\<forall>s. ref < s \<and> s < t \<and> s mod 60000 = 0 \<longrightarrow> \<not> cron_matches F (utc_parts s))
      | Inl err \<Rightarrow> err = NoRunWithin4Years expr \<and>
          (\<forall>s. ref < s \<and> s mod 60000 = 0 \<and> cron_matches F (utc_parts s) \<longrightarrow>
             c_year (utc_parts (first_minute ref)) + 4 < c_year (utc_parts s)))"

lemma next_run_utc:
  assumes parse: "parseCronExpression expr = Inr (rat_fields F)" and F: "int_fields_ok F"
    and ref: "0 \<le> ref" "ref \<le> 8300000000000000" and z: "utc_zone z"
  shows "utc_outcome expr F ref (getNextRunTime tz expr ref z)"
proof -
  note fm = first_minute [OF ref(1)]
  define c0 where "c0 = utc_parts (first_minute ref)"
  define m where "m = c_year c0 + 4"
  let ?b = "buildTimestampInTimezone tz ''UTC''"
  have m: "m \<le> 270000" using year_bound [OF fm(1)] fm(4) ref(2) by (simp add: m_def c0_def)
  have v0: "valid_civil c0" using valid_utc_parts fm(1) by (simp add: c0_def)
  have t0: "civil_time c0 = first_minute ref" using civil_time_utc_parts fm(1,2) by (simp add: c0_def)
  have after: "ref < civil_time x \<and> 0 \<le> civil_time x" if "hit F x" "c0 \<le> x" for x
    using utc.time_le [OF v0, of x] that fm(1,3) t0 by (simp add: hit_def)
  have "?b x = Inr (Some (civil_time x)) \<and> ref < civil_time x"
    if "hit F x" "c0 \<le> x" "c_year x \<le> m" for x
    using utc_date_Some [of x] after [OF that(1,2)] that m by (simp add: buildTimestampInTimezone_def hit_def)
  note first = scan_first [OF F m _ this]
  have "state_ok c0" using v0 by (simp add: valid_civil_def state_ok_def)
  note first = first [OF this]
  have hits: "c0 \<le> utc_parts s \<and> (cron_matches F (utc_parts s) \<longleftrightarrow> hit F (utc_parts s))"
    if "ref < s" "s mod 60000 = 0" for s
    using utc.parts_le [OF fm(1,2) _ that(2)] fm(5) [OF that] valid_utc_parts [of s] that ref(1)
    by (simp add: c0_def hit_def)
  have start: "ref + 60000 - js_rem (ref + 60000) 60000 = first_minute ref"
    using ref(1) by (simp add: js_rem_def first_minute_def sgn_if)
  have clip: "time_clip (first_minute ref) = Some (first_minute ref)"
    using fm(1,4) ref(2) by (simp add: time_clip_def max_time_def)
  have zone: "(case z of Some z \<Rightarrow> if z = [] then ''UTC'' else z | None \<Rightarrow> ''UTC'') = ''UTC''"
    using z by (auto simp: utc_zone_def)
  have run: "getNextRunTime tz expr ref z =
      and_then (scan F ?b ref m c0) (\<lambda>r. case r of None \<Rightarrow> Inl (NoRunWithin4Years expr) | Some t \<Rightarrow> Inr t)"
    by (simp add: getNextRunTime_def next_run_def parse zone start clip getDatePartsInTimezone_def and_then_def
        Let_def m_def flip: c0_def)
  show ?thesis using first
  proof
    assume "\<exists>x. hit F x \<and> c0 \<le> x \<and> skips F c0 x \<and> c_year x \<le> m \<and> scan F ?b ref m c0 = Inr (Some (civil_time x))"
    then obtain x where x: "hit F x" "c0 \<le> x" "skips F c0 x" "c_year x \<le> m"
      "scan F ?b ref m c0 = Inr (Some (civil_time x))" by blast
    have p: "utc_parts (civil_time x) = x" using utc_parts_civil_time x(1) by (simp add: hit_def)
    have "\<not> cron_matches F (utc_parts s)" if "ref < s" "s < civil_time x" "s mod 60000 = 0" for s
    proof
      assume "cron_matches F (utc_parts s)"
      then have "x \<le> utc_parts s" using hits [OF that(1,3)] x(3) by (simp add: skips_def)
      then have "civil_time x \<le> s"
        using utc.parts_le [of "civil_time x" s] after [OF x(1,2)] civil_time_minute [of x] p that ref(1)
        by simp
      then show False using that(2) by simp
    qed
    then show ?thesis using after [OF x(1,2)] civil_time_minute [of x] p x
      by (simp add: utc_outcome_def run and_then_def hit_def m_def c0_def)
  qed (use hits in \<open>auto simp: utc_outcome_def run and_then_def m_def c0_def\<close>)
qed

subsection \<open>Other zones\<close>

text \<open>
  Two minutes of one month differ by what \<open>localMinutes\<close> says, so the first guess is corrected
  exactly when it falls into the same month of local time.
\<close>

lemma civil_time_same_month:
  assumes "valid_civil a" "valid_civil b" "c_year a = c_year b" "c_month a = c_month b"
  shows "civil_time a - civil_time b = (localMinutes a - localMinutes b) * 60000"
  using assms by (simp add: civil_time_day civil_day_def localMinutes_def)

definition fixed_zone :: "int \<Rightarrow> int \<Rightarrow> civil" where
  "fixed_zone offset t = utc_parts (t + offset * 60000)"

subsection \<open>Schedules used below\<close>

text \<open>09:00 UTC every day; 02:00 on the first of each month; the 29th of February.\<close>

definition daily_nine :: "int CronFields" where
  "daily_nine = \<lparr>minutes = [0], hours = [9], daysOfMonth = [1..31], months = [1..12], daysOfWeek = [0..6]\<rparr>"

definition first_nights :: "int CronFields" where
  "first_nights = \<lparr>minutes = [0], hours = [2], daysOfMonth = [1], months = [1..12], daysOfWeek = [0..6]\<rparr>"

definition leap_days :: "int CronFields" where
  "leap_days = \<lparr>minutes = [0], hours = [0], daysOfMonth = [29], months = [2], daysOfWeek = [0..6]\<rparr>"

definition no_zones :: tz_database where "no_zones z = None"

definition bogota :: tz_database where "bogota z = Some (fixed_zone (-300))"

lemma daily_nine_ok: "int_fields_ok daily_nine"
  by (simp add: int_fields_ok_def int_field_ok_iff FIELD_SPECS_def daily_nine_def sorted_wrt_upto)

lemma first_nights_ok: "int_fields_ok first_nights"
  by (simp add: int_fields_ok_def int_field_ok_iff FIELD_SPECS_def first_nights_def sorted_wrt_upto)

lemma leap_days_ok: "int_fields_ok leap_days"
  by (simp add: int_fields_ok_def int_field_ok_iff FIELD_SPECS_def leap_days_def sorted_wrt_upto)

lemma daily_nine_run: "next_run no_zones e daily_nine 0 None = Inr 32400000"
  by code_simp

lemma first_nights_run:
  "next_run bogota e first_nights 1706688000000 (Some ''America/Bogota'') = Inr 1706720400000"
  by code_simp

subsection \<open>Properties\<close>

text \<open>
  C28: For every expression that lists its values and every reference time of the supported range,
  the next run in UTC is later than the reference, falls on a full minute, matches the expression
  (day of the month and day of the week both), and no full minute in between matches.
\<close>

theorem next_run_earliest:
  assumes "parseCronExpression expr = Inr (rat_fields F)" "int_fields_ok F"
    "0 \<le> ref" "ref \<le> 8300000000000000" "utc_zone z"
    and "getNextRunTime tz expr ref z = Inr t"
  shows "ref < t \<and> t mod 60000 = 0 \<and> cron_matches F (utc_parts t) \<and>
    (\<forall>s. ref < s \<and> s < t \<and> s mod 60000 = 0 \<longrightarrow> \<not> cron_matches F (utc_parts s))"
  using next_run_utc [OF assms(1-5), of tz] assms(6) by (simp add: utc_outcome_def)

theorem next_run_earliest_witness:
  "0 < (32400000 :: int) \<and> (32400000 :: int) mod 60000 = 0 \<and> cron_matches daily_nine (utc_parts 32400000) \<and>
   \<not> (\<exists>s. 0 < s \<and> s < 32400000 \<and> s mod 60000 = 0 \<and> cron_matches daily_nine (utc_parts s))"
  using next_run_earliest [OF parse_show [OF daily_nine_ok] daily_nine_ok, of 0 None no_zones 32400000]
  by (simp add: utc_zone_def getNextRunTime_parsed [OF parse_show [OF daily_nine_ok]] daily_nine_run)



text \<open>
  In every time zone, whatever the zone database answers, a time that is returned is later
  than the reference time.
\<close>

theorem next_run_after_reference:
  assumes "getNextRunTime tz expr ref z = Inr t"
  shows "ref < t"
  using assms scan_after
  by (auto simp: getNextRunTime_def next_run_def and_then_def Let_def split: sum.splits option.splits)

theorem next_run_after_reference_witness:
  "(1706688000000 :: int) < 1706720400000"
  using next_run_after_reference [of bogota "show_cron first_nights" 1706688000000 "Some ''America/Bogota''" 1706720400000]
  by (simp add: getNextRunTime_parsed [OF parse_show [OF first_nights_ok]] first_nights_run)

text \<open>
  In a zone with a fixed offset, a local minute is translated to the right time whenever the
  guess, the same wall-clock minute in UTC, lies in the same month of the zone's local time.
\<close>

theorem fixed_zone_same_month:
  assumes "tz zone = Some (fixed_zone offset)" "zone \<noteq> ''UTC''" "valid_civil c" "c_year c \<le> 250000"
    "\<bar>offset\<bar> < 1440" "0 \<le> civil_time c + offset * 60000" "0 \<le> civil_time c - offset * 60000"
    "c_year (fixed_zone offset (civil_time c)) = c_year c"
    "c_month (fixed_zone offset (civil_time c)) = c_month c"
  shows "buildTimestampInTimezone tz zone c = Inr (Some (civil_time c - offset * 60000)) \<and>
    fixed_zone offset (civil_time c - offset * 60000) = c"
proof -
  let ?g = "fixed_zone offset (civil_time c)"
  have g: "valid_civil ?g" "civil_time ?g = civil_time c + offset * 60000"
    using assms(6) civil_time_minute [of c]
    by (simp_all add: fixed_zone_def valid_utc_parts civil_time_utc_parts mod_add_eq [symmetric])
  have u: "utc_date c = Some (civil_time c)" using utc_date_Some(1) [OF assms(3)] assms(4) by simp
  have d: "(localMinutes c - localMinutes ?g) * 60000 = - offset * 60000"
    using civil_time_same_month [OF assms(3) g(1)] assms(8,9) g(2) by simp
  have rt: "fixed_zone offset (civil_time c - offset * 60000) = c"
    using utc_parts_civil_time [OF assms(3)] by (simp add: fixed_zone_def)
  have "\<bar>civil_time c\<bar> \<le> 8500000000000000"
    using utc_date_Some(2,3) [OF assms(3)] assms(4) by simp
  then have "time_clip (civil_time c - offset * 60000) = Some (civil_time c - offset * 60000)"
    using assms(5) by (simp add: time_clip_def max_time_def)
  then show ?thesis
    using assms(1,2) u d rt
    by (simp add: buildTimestampInTimezone_def zone_parts_def and_then_def Let_def)
qed

theorem fixed_zone_same_month_witness:
  "buildTimestampInTimezone bogota ''America/Bogota'' (Civil 2024 2 15 9 0) = Inr (Some 1708005600000) \<and>
   fixed_zone (-300) 1708005600000 = Civil 2024 2 15 9 0"
proof -
  have t: "civil_time (Civil 2024 2 15 9 0) = 1707987600000" by code_simp
  have g: "fixed_zone (-300) 1707987600000 = Civil 2024 2 15 4 0" by code_simp
  have v: "valid_civil (Civil 2024 2 15 9 0)" by code_simp
  show ?thesis
    using fixed_zone_same_month [of bogota "''America/Bogota''" "-300" "Civil 2024 2 15 9 0"] v
    by (simp add: bogota_def t g)
qed

text \<open>
  Across a month boundary the translation is wrong, because the offset is measured with
  months of 43800 minutes.  On 31 January 2024, 03:00 in Bogota (UTC-5), the next run of the
  schedule \<open>0 2 1 * *\<close>, the first of the month at 02:00, comes out as 17:00 UTC on 31 January:
  noon local time, on a day the schedule does not name.
\<close>

theorem next_run_wrong_across_months:
  "getNextRunTime bogota (show_cron first_nights) 1706688000000 (Some ''America/Bogota'') = Inr 1706720400000 \<and>
   fixed_zone (-300) 1706720400000 = Civil 2024 1 31 12 0 \<and>
   \<not> cron_matches first_nights (fixed_zone (-300) 1706720400000)"
proof -
  have p: "fixed_zone (-300) 1706720400000 = Civil 2024 1 31 12 0" by code_simp
  then have "\<not> cron_matches first_nights (fixed_zone (-300) 1706720400000)"
    by (simp add: cron_matches_def first_nights_def)
  then show ?thesis
    using p by (simp add: getNextRunTime_parsed [OF parse_show [OF first_nights_ok]] first_nights_run)
qed

text \<open>
  The four-year limit is too short around 2100, which is no leap year: from 1 March 2096 on,
  the next 29 February is in 2104, and the computation ends in the error.
\<close>

theorem leap_day_schedule_fails:
  "utc_parts 3981398400000 = Civil 2096 3 1 0 0 \<and>
   getNextRunTime tz (show_cron leap_days) 3981398400000 None =
     Inl (NoRunWithin4Years (show_cron leap_days))"
proof -
  have f: "utc_parts (first_minute 3981398400000) = Civil 2096 3 1 0 1" by code_simp
  have u: "utc_parts 3981398400000 = Civil 2096 3 1 0 0" by code_simp
  have out: "utc_outcome (show_cron leap_days) leap_days 3981398400000
      (getNextRunTime tz (show_cron leap_days) 3981398400000 None)"
    by (rule next_run_utc [OF parse_show [OF leap_days_ok] leap_days_ok]) (simp_all add: utc_zone_def)
  show ?thesis
  proof (cases "getNextRunTime tz (show_cron leap_days) 3981398400000 None")
    case (Inl err)
    then show ?thesis using out u by (simp add: utc_outcome_def)
  next
    case (Inr t)
    then have t: "3981398400000 < t" "cron_matches leap_days (utc_parts t)" "c_year (utc_parts t) \<le> 2100"
      "t mod 60000 = 0"
      using out f by (simp_all add: utc_outcome_def)
    obtain y m d h i where c: "utc_parts t = Civil y m d h i" by (cases "utc_parts t") auto
    have v: "valid_civil (Civil y m d h i)" using valid_utc_parts [of t] t(1) c by simp
    have md: "m = 2" "d = 29" using t(2) by (simp_all add: c cron_matches_def leap_days_def)
    then have leap: "is_leap y" using v
      by (auto simp: valid_civil_def valid_date_def month_length_def days_before_def split: if_splits)
    have "Civil 2096 3 1 0 0 < Civil y m d h i"
      using utc.parts_less [of 3981398400000 t] t u c by simp
    then have "y \<in> {2097, 2098, 2099, 2100}" using md t(3) c by auto
    then show ?thesis using leap by (auto simp: is_leap_def)
  qed
qed

end
