(* ===== verification/EventBus.thy ===== *)
theory EventBus
  imports Types
begin

section \<open>The event bus (packages/shared/src/redis/event-bus.ts)\<close>

text \<open>
  A published message is a pair of a channel and an event; the JSON text in between is decoded to
  the event it was made from.  The subscriber side keeps the channels the connection is
  subscribed to and the listeners in the order they were added: every listener sees every message
  and filters by its own channel.  The clock \<open>Date.now()\<close> is the argument \<open>now\<close>.
\<close>

definition CHANNEL_TASK_COMPLETED :: string where "CHANNEL_TASK_COMPLETED = ''channel:task.completed''"
definition CHANNEL_TASK_FAILED :: string where "CHANNEL_TASK_FAILED = ''channel:task.failed''"

record TaskEvent =
  ev_taskStateId :: string
  ev_executionId :: string
  ev_timestamp :: date

type_synonym message = "string \<times> TaskEvent"

definition publishTaskCompleted :: "date \<Rightarrow> string \<Rightarrow> string \<Rightarrow> message" where
  "publishTaskCompleted now taskStateId executionId =
     (CHANNEL_TASK_COMPLETED,
      \<lparr>ev_taskStateId = taskStateId, ev_executionId = executionId, ev_timestamp = now\<rparr>)"

definition publishTaskFailed :: "date \<Rightarrow> string \<Rightarrow> string \<Rightarrow> message" where
  "publishTaskFailed now taskStateId executionId =
     (CHANNEL_TASK_FAILED,
      \<lparr>ev_taskStateId = taskStateId, ev_executionId = executionId, ev_timestamp = now\<rparr>)"

record 'h bus =
  bus_channels :: "string list"
  bus_listeners :: "(string \<times> 'h) list"

definition new_bus :: "'h bus" where
  "new_bus = \<lparr>bus_channels = [], bus_listeners = []\<rparr>"

definition subscribe :: "string \<Rightarrow> 'h \<Rightarrow> 'h bus \<Rightarrow> 'h bus" where
  "subscribe channel handler b =
     b\<lparr>bus_channels := channel # bus_channels b, bus_listeners := bus_listeners b @ [(channel, handler)]\<rparr>"

text \<open>The handler calls a message leads to, in order.\<close>

definition deliver :: "message \<Rightarrow> 'h bus \<Rightarrow> ('h \<times> TaskEvent) list" where
  "deliver m b =
     (if fst m \<in> set (bus_channels b)
      then map (\<lambda>l. (snd l, snd m)) (filter (\<lambda>l. fst l = fst m) (bus_listeners b)) else [])"

lemma deliver_new [simp]: "deliver m new_bus = []"
  by (simp add: deliver_def new_bus_def)

lemma deliver_subscribe_other: "fst m \<noteq> c \<Longrightarrow> deliver m (subscribe c h b) = deliver m b"
  by (simp add: deliver_def subscribe_def)

end
