(* ===== verification/Redis.thy ===== *)
theory Redis
  imports Prelude
begin

section \<open>The Redis commands the sources use\<close>

text \<open>
  Redis is a service outside the repository: its commands are a parameter of the model, the record
  \<open>redis\<close> of functions on a server state \<open>'s\<close> that nothing here looks into.  What the code
  relies on is stated as the laws of two locales, each with a view of the state: \<open>redis_lists\<close>
  for lists (index 0 is the left end) and \<open>redis_keys\<close> for string keys with an expiry time, read
  against the server's clock, which \<open>r_tick\<close> advances.  The laws are the documented behaviour of
  \<open>LPUSH\<close>, \<open>BRPOPLPUSH\<close>, \<open>LREM key 1\<close>, \<open>LRANGE key 0 -1\<close>, \<open>LLEN\<close>, \<open>SET key value PX ttl NX\<close>,
  \<open>GET\<close>, \<open>PEXPIRE\<close>, \<open>DEL\<close> and \<open>EXISTS\<close>.  A Lua script runs atomically, so it is the
  composition of the commands it calls.

  The reference server at the end, association lists and a clock, shows that the laws can hold;
  witnesses run on it.
\<close>

record 's redis =
  r_lpush :: "string \<Rightarrow> string \<Rightarrow> 's \<Rightarrow> 's"
  r_brpoplpush :: "string \<Rightarrow> string \<Rightarrow> 's \<Rightarrow> string option \<times> 's"
  r_lrem1 :: "string \<Rightarrow> string \<Rightarrow> 's \<Rightarrow> 's"
  r_lrange :: "string \<Rightarrow> 's \<Rightarrow> string list"
  r_llen :: "string \<Rightarrow> 's \<Rightarrow> nat"
  r_set_px_nx :: "string \<Rightarrow> string \<Rightarrow> int \<Rightarrow> 's \<Rightarrow> bool \<times> 's"
  r_get :: "string \<Rightarrow> 's \<Rightarrow> string option"
  r_pexpire :: "string \<Rightarrow> int \<Rightarrow> 's \<Rightarrow> int \<times> 's"
  r_del :: "string \<Rightarrow> 's \<Rightarrow> int \<times> 's"
  r_exists :: "string \<Rightarrow> 's \<Rightarrow> int"
  r_tick :: "int \<Rightarrow> 's \<Rightarrow> 's"

locale redis_lists =
  fixes R :: "'s redis" and lists :: "'s \<Rightarrow> string \<Rightarrow> string list"
  assumes lists_lpush: "lists (r_lpush R k v s) = (lists s)(k := v # lists s k)"
    and brpoplpush_empty: "lists s k = [] \<Longrightarrow> \<exists>s'. r_brpoplpush R k d s = (None, s') \<and> lists s' = lists s"
    and brpoplpush_pop: "lists s k \<noteq> [] \<Longrightarrow> k \<noteq> d \<Longrightarrow>
      \<exists>s'. r_brpoplpush R k d s = (Some (last (lists s k)), s') \<and>
        lists s' = (lists s)(k := butlast (lists s k), d := last (lists s k) # lists s d)"
    and lists_lrem1: "lists (r_lrem1 R k v s) = (lists s)(k := remove1 v (lists s k))"
    and lrange_all: "r_lrange R k s = lists s k"
    and llen: "r_llen R k s = length (lists s k)"
    and lists_set: "lists (snd (r_set_px_nx R k v t s)) = lists s"
    and lists_pexpire: "lists (snd (r_pexpire R k t s)) = lists s"
    and lists_del: "lists s k = [] \<Longrightarrow> lists (snd (r_del R k s)) = lists s"
    and lists_tick: "lists (r_tick R n s) = lists s"

definition live :: "('s \<Rightarrow> string \<Rightarrow> (string \<times> int) option) \<Rightarrow> ('s \<Rightarrow> int) \<Rightarrow> 's \<Rightarrow> string \<Rightarrow> string option" where
  "live keys now s k = (case keys s k of Some (v, e) \<Rightarrow> if now s < e then Some v else None | None \<Rightarrow> None)"

locale redis_keys =
  fixes R :: "'s redis" and keys :: "'s \<Rightarrow> string \<Rightarrow> (string \<times> int) option" and now :: "'s \<Rightarrow> int"
  assumes get_live: "r_get R k s = live keys now s k"
    and set_free: "live keys now s k = None \<Longrightarrow> 0 < t \<Longrightarrow>
      \<exists>s'. r_set_px_nx R k v t s = (True, s') \<and> keys s' = (keys s)(k \<mapsto> (v, now s + t)) \<and> now s' = now s"
    and set_taken: "live keys now s k \<noteq> None \<Longrightarrow>
      \<exists>s'. r_set_px_nx R k v t s = (False, s') \<and> keys s' = keys s \<and> now s' = now s"
    and pexpire_live: "live keys now s k = Some v \<Longrightarrow>
      \<exists>s'. r_pexpire R k t s = (1, s') \<and> keys s' = (keys s)(k \<mapsto> (v, now s + t)) \<and> now s' = now s"
    and del_live: "live keys now s k \<noteq> None \<Longrightarrow>
      \<exists>s'. r_del R k s = (1, s') \<and> keys s' = (keys s)(k := None) \<and> now s' = now s"
    and exists_live: "r_exists R k s = (if live keys now s k = None then 0 else 1)"
    and keys_tick: "keys (r_tick R n s) = keys s" and now_tick: "now (r_tick R n s) = now s + n"
    and keys_lpush: "keys (r_lpush R k v s) = keys s" and now_lpush: "now (r_lpush R k v s) = now s"
    and keys_lrem1: "keys (r_lrem1 R k v s) = keys s" and now_lrem1: "now (r_lrem1 R k v s) = now s"
begin

lemma live_upd:
  "keys s' = (keys s)(k \<mapsto> (v, e)) \<Longrightarrow> now s' = now s \<Longrightarrow>
     live keys now s' k' = (if k' = k then if now s < e then Some v else None else live keys now s k')"
  by (simp add: live_def split: option.split)

end

subsection \<open>A reference server\<close>

record mem_server =
  m_lists :: "(string \<times> string list) list"
  m_keys :: "(string \<times> (string \<times> int)) list"
  m_now :: int

definition m_list :: "mem_server \<Rightarrow> string \<Rightarrow> string list" where
  "m_list s k = (case map_of (m_lists s) k of None \<Rightarrow> [] | Some xs \<Rightarrow> xs)"

definition m_key :: "mem_server \<Rightarrow> string \<Rightarrow> (string \<times> int) option" where
  "m_key s k = map_of (m_keys s) k"

definition put_list :: "string \<Rightarrow> string list \<Rightarrow> mem_server \<Rightarrow> mem_server" where
  "put_list k xs s = s\<lparr>m_lists := (k, xs) # m_lists s\<rparr>"

definition mem_redis :: "mem_server redis" where
  "mem_redis =
     \<lparr>r_lpush = (\<lambda>k v s. put_list k (v # m_list s k) s),
      r_brpoplpush = (\<lambda>k d s. if m_list s k = [] then (None, s)
        else (Some (last (m_list s k)),
              put_list d (last (m_list s k) # m_list s d) (put_list k (butlast (m_list s k)) s))),
      r_lrem1 = (\<lambda>k v s. put_list k (remove1 v (m_list s k)) s),
      r_lrange = (\<lambda>k s. m_list s k),
      r_llen = (\<lambda>k s. length (m_list s k)),
      r_set_px_nx = (\<lambda>k v t s. if live m_key m_now s k = None
        then (True, s\<lparr>m_keys := (k, (v, m_now s + t)) # m_keys s\<rparr>) else (False, s)),
      r_get = (\<lambda>k s. live m_key m_now s k),
      r_pexpire = (\<lambda>k t s. case live m_key m_now s k of None \<Rightarrow> (0, s)
        | Some v \<Rightarrow> (1, s\<lparr>m_keys := (k, (v, m_now s + t)) # m_keys s\<rparr>)),
      r_del = (\<lambda>k s. if live m_key m_now s k = None then (0, s)
        else (1, s\<lparr>m_keys := filter (\<lambda>(k', _). k' \<noteq> k) (m_keys s)\<rparr>)),
      r_exists = (\<lambda>k s. if live m_key m_now s k = None then 0 else 1),
      r_tick = (\<lambda>n s. s\<lparr>m_now := m_now s + n\<rparr>)\<rparr>"

definition empty_server :: mem_server where
  "empty_server = \<lparr>m_lists = [], m_keys = [], m_now = 0\<rparr>"

lemma m_list_put [simp]: "m_list (put_list k xs s) = (m_list s)(k := xs)"
  by (auto simp: m_list_def put_list_def)

lemma m_other [simp]: "m_key (put_list k xs s) = m_key s" "m_now (put_list k xs s) = m_now s"
  by (auto simp: m_key_def put_list_def)

lemma map_of_filter_key: "map_of (filter (\<lambda>(k', _). k' \<noteq> k) xs) = (map_of xs)(k := None)"
  by (induction xs) auto

lemma m_key_upd [simp]:
  "m_key (s\<lparr>m_keys := (k, x) # m_keys s\<rparr>) = (m_key s)(k \<mapsto> x)"
  "m_key (s\<lparr>m_keys := filter (\<lambda>(k', _). k' \<noteq> k) (m_keys s)\<rparr>) = (m_key s)(k := None)"
  "m_key (s\<lparr>m_now := n\<rparr>) = m_key s" "m_list (s\<lparr>m_keys := ys\<rparr>) = m_list s" "m_list (s\<lparr>m_now := n\<rparr>) = m_list s"
  by (auto simp: m_key_def m_list_def map_of_filter_key)

interpretation mem_lists: redis_lists mem_redis m_list
  by unfold_locales (auto simp: mem_redis_def fun_upd_twist split: option.split)

interpretation mem_keys: redis_keys mem_redis m_key m_now
  by unfold_locales (auto simp: mem_redis_def)

end
