(* ===== verification/TaskQueue.thy ===== *)
theory TaskQueue
  imports Redis "HOL-Library.Multiset"
begin

section \<open>The task queue (packages/shared/src/redis/task-queue.ts)\<close>

text \<open>
  The class \<open>TaskQueue\<close> over the parameter \<open>R\<close>.  New ids enter the queue list at the left,
  \<open>claim\<close> takes from the right and pushes the id on the processing list.  The timeout of \<open>claim\<close>
  only says how long the server may block before it answers with nothing.

  \<open>work_queue\<close> is what the executors rely on: a waiting line, next id first, and the list of ids
  being processed.  Every server that obeys the laws of lists gives one.
\<close>

definition TASK_QUEUE_KEY :: string where "TASK_QUEUE_KEY = ''task_queue''"
definition TASK_PROCESSING_KEY :: string where "TASK_PROCESSING_KEY = ''task_processing''"

definition enqueue :: "'s redis \<Rightarrow> string \<Rightarrow> 's \<Rightarrow> 's" where
  "enqueue R taskStateId s = r_lpush R TASK_QUEUE_KEY taskStateId s"

definition enqueueBatch :: "'s redis \<Rightarrow> string list \<Rightarrow> 's \<Rightarrow> 's" where
  "enqueueBatch R taskStateIds s =
     (if taskStateIds = [] then s else fold (\<lambda>i. r_lpush R TASK_QUEUE_KEY i) taskStateIds s)"

definition claim :: "'s redis \<Rightarrow> 's \<Rightarrow> string option \<times> 's" where
  "claim R s = r_brpoplpush R TASK_QUEUE_KEY TASK_PROCESSING_KEY s"

definition requeue :: "'s redis \<Rightarrow> string \<Rightarrow> 's \<Rightarrow> 's" where
  "requeue R taskStateId s =
     r_lpush R TASK_QUEUE_KEY taskStateId (r_lrem1 R TASK_PROCESSING_KEY taskStateId s)"

definition removeFromProcessing :: "'s redis \<Rightarrow> string \<Rightarrow> 's \<Rightarrow> 's" where
  "removeFromProcessing R taskStateId s = r_lrem1 R TASK_PROCESSING_KEY taskStateId s"

definition getProcessingList :: "'s redis \<Rightarrow> 's \<Rightarrow> string list" where
  "getProcessingList R s = r_lrange R TASK_PROCESSING_KEY s"

definition getQueueDepth :: "'s redis \<Rightarrow> 's \<Rightarrow> nat" where
  "getQueueDepth R s = r_llen R TASK_QUEUE_KEY s"

subsection \<open>The contract\<close>

locale work_queue =
  fixes put :: "string \<Rightarrow> 's \<Rightarrow> 's" and take_next :: "'s \<Rightarrow> string option \<times> 's"
    and give_back :: "string \<Rightarrow> 's \<Rightarrow> 's" and finish :: "string \<Rightarrow> 's \<Rightarrow> 's"
    and waiting :: "'s \<Rightarrow> string list" and taken :: "'s \<Rightarrow> string list"
  assumes put_last: "waiting (put i s) = waiting s @ [i] \<and> taken (put i s) = taken s"
    and take_none: "waiting s = [] \<Longrightarrow>
      fst (take_next s) = None \<and> waiting (snd (take_next s)) = [] \<and> taken (snd (take_next s)) = taken s"
    and take_first: "waiting s = i # is \<Longrightarrow>
      fst (take_next s) = Some i \<and> waiting (snd (take_next s)) = is \<and> taken (snd (take_next s)) = i # taken s"
    and give_back_last: "waiting (give_back i s) = waiting s @ [i] \<and> taken (give_back i s) = remove1 i (taken s)"
    and finish_taken: "waiting (finish i s) = waiting s \<and> taken (finish i s) = remove1 i (taken s)"
begin

lemma put_all: "waiting (fold put is s) = waiting s @ is \<and> taken (fold put is s) = taken s"
  by (induction "is" arbitrary: s) (simp_all add: put_last)

fun take_many :: "nat \<Rightarrow> 's \<Rightarrow> string option list \<times> 's" where
  "take_many 0 s = ([], s)"
| "take_many (Suc n) s =
     (let (r, s') = take_next s; (rs, s'') = take_many n s' in (r # rs, s''))"

lemma take_many_waiting:
  "n \<le> length (waiting s) \<Longrightarrow>
     fst (take_many n s) = map Some (take n (waiting s)) \<and>
     waiting (snd (take_many n s)) = drop n (waiting s) \<and>
     taken (snd (take_many n s)) = rev (take n (waiting s)) @ taken s"
proof (induction n arbitrary: s)
  case (Suc n)
  then obtain i "is" where w: "waiting s = i # is" by (cases "waiting s") auto
  show ?case using Suc.IH [of "snd (take_next s)"] Suc.prems take_first [OF w] w
    by (auto simp: Let_def split: prod.splits)
qed simp

abbreviation load :: "'s \<Rightarrow> string multiset" where
  "load s \<equiv> mset (waiting s) + mset (taken s)"

lemma load_put: "load (put i s) = add_mset i (load s)"
  by (simp add: put_last)

lemma load_take: "load (snd (take_next s)) = load s"
  by (cases "waiting s") (simp_all add: take_none take_first)

lemma load_give_back: "load s \<subseteq># load (give_back i s)"
  by (simp add: give_back_last) (metis insert_DiffM2 diff_single_trivial mset_subset_eq_add_left
      subset_mset.add_left_mono subset_mset.order_refl union_mset_add_mset_right add.assoc
      add_mset_add_single)

lemma load_give_back_taken: "i \<in> set (taken s) \<Longrightarrow> load (give_back i s) = load s"
  by (simp add: give_back_last)

end

sublocale redis_lists \<subseteq> wq: work_queue "enqueue R" "claim R" "requeue R" "removeFromProcessing R"
    "\<lambda>s. rev (lists s TASK_QUEUE_KEY)" "\<lambda>s. lists s TASK_PROCESSING_KEY"
proof unfold_locales
  have ne: "TASK_QUEUE_KEY \<noteq> TASK_PROCESSING_KEY" by (simp add: TASK_QUEUE_KEY_def TASK_PROCESSING_KEY_def)
  fix s i "is"
  show "rev (lists (enqueue R i s) TASK_QUEUE_KEY) = rev (lists s TASK_QUEUE_KEY) @ [i] \<and>
      lists (enqueue R i s) TASK_PROCESSING_KEY = lists s TASK_PROCESSING_KEY"
    using ne by (simp add: enqueue_def lists_lpush)
  show "fst (claim R s) = None \<and> rev (lists (snd (claim R s)) TASK_QUEUE_KEY) = [] \<and>
      lists (snd (claim R s)) TASK_PROCESSING_KEY = lists s TASK_PROCESSING_KEY"
    if "rev (lists s TASK_QUEUE_KEY) = []"
    using brpoplpush_empty [of s TASK_QUEUE_KEY TASK_PROCESSING_KEY] that by (auto simp: claim_def)
  show "fst (claim R s) = Some i \<and> rev (lists (snd (claim R s)) TASK_QUEUE_KEY) = is \<and>
      lists (snd (claim R s)) TASK_PROCESSING_KEY = i # lists s TASK_PROCESSING_KEY"
    if "rev (lists s TASK_QUEUE_KEY) = i # is"
  proof -
    have l: "lists s TASK_QUEUE_KEY = rev is @ [i]" using that by (metis rev.simps(2) rev_swap)
    show ?thesis using brpoplpush_pop [of s TASK_QUEUE_KEY TASK_PROCESSING_KEY] ne l by (auto simp: claim_def)
  qed
  show "rev (lists (requeue R i s) TASK_QUEUE_KEY) = rev (lists s TASK_QUEUE_KEY) @ [i] \<and>
      lists (requeue R i s) TASK_PROCESSING_KEY = remove1 i (lists s TASK_PROCESSING_KEY)"
    using ne by (simp add: requeue_def lists_lpush lists_lrem1)
  show "rev (lists (removeFromProcessing R i s) TASK_QUEUE_KEY) = rev (lists s TASK_QUEUE_KEY) \<and>
      lists (removeFromProcessing R i s) TASK_PROCESSING_KEY = remove1 i (lists s TASK_PROCESSING_KEY)"
    using ne by (simp add: removeFromProcessing_def lists_lrem1)
qed

lemma enqueueBatch_fold: "enqueueBatch R is = fold (enqueue R) is"
  by (auto simp: enqueueBatch_def enqueue_def fun_eq_iff intro!: fold_cong)

subsection \<open>Histories of the queue\<close>

datatype queue_op = Enqueue string | EnqueueBatch "string list" | Claim | Requeue string | Remove string

fun queue_step :: "'s redis \<Rightarrow> queue_op \<Rightarrow> 's \<Rightarrow> 's" where
  "queue_step R (Enqueue i) s = enqueue R i s"
| "queue_step R (EnqueueBatch is) s = enqueueBatch R is s"
| "queue_step R Claim s = snd (claim R s)"
| "queue_step R (Requeue i) s = requeue R i s"
| "queue_step R (Remove i) s = removeFromProcessing R i s"

fun offered :: "queue_op \<Rightarrow> string list" where
  "offered (Enqueue i) = [i]"
| "offered (EnqueueBatch is) = is"
| "offered _ = []"

fun removed :: "queue_op \<Rightarrow> string list" where
  "removed (Remove i) = [i]"
| "removed _ = []"

context redis_lists
begin

lemma queue_step_load:
  "wq.load s + mset (offered p) \<subseteq># wq.load (queue_step R p s) + mset (removed p)"
proof (cases p)
  case (EnqueueBatch "is")
  have "wq.load (fold (enqueue R) is s) = wq.load s + mset is"
    using wq.put_all [of "is" s] by simp
  then show ?thesis by (simp add: EnqueueBatch enqueueBatch_fold)
next
  case (Remove i)
  let ?w = "mset (lists s TASK_QUEUE_KEY)" and ?t = "mset (lists s TASK_PROCESSING_KEY)"
  have "?w + ?t - {#i#} \<subseteq># ?w + (?t - {#i#})"
    by (cases "i \<in># ?t") (simp_all add: diff_union_single_conv [symmetric] diff_single_trivial)
  then have "?w + ?t \<subseteq># ?w + (?t - {#i#}) + {#i#}" by (simp only: subset_eq_diff_conv)
  then show ?thesis using wq.finish_taken [of i s] Remove by simp
qed (use wq.load_put wq.load_take wq.load_give_back in simp_all)

lemma queue_run_load:
  "wq.load s + mset (concat (map offered ps))
     \<subseteq># wq.load (fold (queue_step R) ps s) + mset (concat (map removed ps))"
proof (induction ps arbitrary: s)
  case (Cons p ps)
  have "wq.load s + mset (offered p) + mset (concat (map offered ps))
      \<subseteq># wq.load (queue_step R p s) + mset (removed p) + mset (concat (map offered ps))"
    using queue_step_load by (rule subset_mset.add_right_mono)
  also have "\<dots> \<subseteq># wq.load (fold (queue_step R) ps (queue_step R p s)) + mset (concat (map removed ps))
      + mset (removed p)"
    using subset_mset.add_right_mono [OF Cons.IH [of "queue_step R p s"], of "mset (removed p)"]
    by (simp add: ac_simps)
  finally show ?case by (simp add: ac_simps)
qed simp

end

subsection \<open>Properties\<close>

fun claims :: "'s redis \<Rightarrow> nat \<Rightarrow> 's \<Rightarrow> string option list \<times> 's" where
  "claims R 0 s = ([], s)"
| "claims R (Suc n) s = (let (r, s') = claim R s; (rs, s'') = claims R n s' in (r # rs, s''))"

context redis_lists
begin

lemma batch_order: "rev (lists (enqueueBatch R xs s) TASK_QUEUE_KEY) = rev (lists s TASK_QUEUE_KEY) @ xs"
  using wq.put_all [of xs s] by (simp add: enqueueBatch_fold)

lemma enqueue_all:
  "rev (lists (fold (\<lambda>x. enqueue R (f x)) xs s) TASK_QUEUE_KEY) = rev (lists s TASK_QUEUE_KEY) @ map f xs"
  using wq.put_all [of "map f xs" s] by (simp add: fold_map comp_def)

lemma take_many_claims: "wq.take_many n s = claims R n s"
  by (induction n arbitrary: s) (simp_all split: prod.split)

lemma claims_after_batch:
  assumes "rev (lists s TASK_QUEUE_KEY) = is"
  shows "fst (claims R (length is + length js) (enqueueBatch R js s)) = map Some (is @ js) \<and>
    lists (snd (claims R (length is + length js) (enqueueBatch R js s))) TASK_PROCESSING_KEY =
      rev (is @ js) @ lists s TASK_PROCESSING_KEY"
  using wq.put_all [of js s] wq.take_many_waiting [of "length is + length js" "enqueueBatch R js s"] assms
  by (simp add: enqueueBatch_fold take_many_claims)

end

text \<open>
  C31: The queue is first in, first out: after a batch has been added to a queue that holds the
  ids \<open>is\<close>, the next claims return \<open>is\<close> and then the batch, in order, and every id claimed is
  in the processing list.
\<close>

theorem queue_fifo:
  assumes "redis_lists R ls" "rev (ls s TASK_QUEUE_KEY) = is"
  shows "fst (claims R (length is + length js) (enqueueBatch R js s)) = map Some (is @ js) \<and>
    ls (snd (claims R (length is + length js) (enqueueBatch R js s))) TASK_PROCESSING_KEY =
      rev (is @ js) @ ls s TASK_PROCESSING_KEY"
  using redis_lists.claims_after_batch [OF assms] .

theorem queue_fifo_witness:
  "fst (claims mem_redis 3 (enqueueBatch mem_redis [''b'', ''c''] (enqueue mem_redis ''a'' empty_server))) =
     [Some ''a'', Some ''b'', Some ''c'']"
  using queue_fifo [OF mem_lists.redis_lists_axioms, of "enqueue mem_redis ''a'' empty_server" "[''a'']" "[''b'', ''c'']"]
  by (simp add: enqueue_def mem_redis_def m_list_def put_list_def empty_server_def numeral_3_eq_3)

text \<open>
  No queue operation loses a task: after any history of operations, every id is waiting or
  being processed at least as often as it was at the start and has been offered since, less the
  times it was removed from the processing list.
\<close>

theorem queue_loses_nothing:
  assumes "redis_lists R ls" "s' = fold (queue_step R) ps s"
  shows "mset (ls s TASK_QUEUE_KEY) + mset (ls s TASK_PROCESSING_KEY) + mset (concat (map offered ps))
    \<subseteq># mset (ls s' TASK_QUEUE_KEY) + mset (ls s' TASK_PROCESSING_KEY) + mset (concat (map removed ps))"
  using redis_lists.queue_run_load [OF assms(1), of s ps] assms(2) by simp

theorem queue_loses_nothing_witness:
  "let s' = fold (queue_step mem_redis) [EnqueueBatch [''a'', ''b''], Claim, Requeue ''a'', Claim] empty_server
   in {#''a'', ''b''#} \<subseteq># mset (m_list s' TASK_QUEUE_KEY) + mset (m_list s' TASK_PROCESSING_KEY)"
  using queue_loses_nothing [OF mem_lists.redis_lists_axioms refl,
      of empty_server "[EnqueueBatch [''a'', ''b''], Claim, Requeue ''a'', Claim]"]
  by (simp add: Let_def m_list_def empty_server_def)

end
