(* ===== verification/FanOutFanIn.thy ===== *)
theory FanOutFanIn
  imports TaskQueue EventBus
begin

section \<open>Fan-out and fan-in (services/executor-service/src/services/fan-out-fan-in.ts)\<close>

text \<open>
  The class \<open>FanOutFanIn\<close>.  \<open>taskStateByDefId\<close> maps a task definition to its task state object;
  \<open>markSkipped\<close> changes the objects in place, so the map is the state the functions pass on.
  Conditions are compiled with \<open>new Function\<close>: what an expression evaluates to on an output is
  the parameter \<open>js_eval\<close>, with \<^const>\<open>None\<close> for an exception.
\<close>

type_synonym state_map = "(string \<times> TaskState) list"

definition state_map :: "TaskState list \<Rightarrow> state_map" where
  "state_map taskStates = fold (\<lambda>ts. AList.update (ts_taskDefinitionId ts) ts) taskStates []"

definition status_in :: "TaskStatus list \<Rightarrow> state_map \<Rightarrow> string \<Rightarrow> bool" where
  "status_in sts m defId = (case map_of m defId of None \<Rightarrow> False | Some ts \<Rightarrow> ts_status ts \<in> set sts)"

definition evaluateCondition ::
    "(string \<Rightarrow> jsval \<Rightarrow> bool option) \<Rightarrow> string \<Rightarrow> jsval option \<Rightarrow> bool" where
  "evaluateCondition js_eval expression output =
     (case output of
        Some (JObj ps) \<Rightarrow> (case js_eval expression (JObj ps) of Some b \<Rightarrow> b | None \<Rightarrow> False)
      | Some (JArr vs) \<Rightarrow> (case js_eval expression (JArr vs) of Some b \<Rightarrow> b | None \<Rightarrow> False)
      | _ \<Rightarrow> False)"

definition incoming :: "Edge list \<Rightarrow> string \<Rightarrow> Edge list" where
  "incoming edges t = filter (\<lambda>e. targetTaskId e = t) edges"

definition outgoing :: "Edge list \<Rightarrow> string \<Rightarrow> Edge list" where
  "outgoing edges t = filter (\<lambda>e. sourceTaskId e = t) edges"

definition allSkipped :: "Edge list \<Rightarrow> state_map \<Rightarrow> string \<Rightarrow> bool" where
  "allSkipped edges m t =
     list_all (\<lambda>inc. status_in [Skipped, Failed, Cancelled, TimedOut] m (sourceTaskId inc)) (incoming edges t)"

definition skip :: "string \<Rightarrow> TaskState \<Rightarrow> state_map \<Rightarrow> state_map" where
  "skip t ts m = AList.update t (ts\<lparr>ts_status := Skipped\<rparr>) m"

function markSkipped :: "Edge list \<Rightarrow> string \<Rightarrow> state_map \<Rightarrow> state_map"
  and markDownstream :: "Edge list \<Rightarrow> Edge list \<Rightarrow> state_map \<Rightarrow> state_map" where
  "markSkipped edges taskDefId m =
     (case map_of m taskDefId of
        None \<Rightarrow> m
      | Some ts \<Rightarrow>
          if ts_status ts = Pending
          then markDownstream edges (outgoing edges taskDefId) (skip taskDefId ts m) else m)"
| "markDownstream edges [] m = m"
| "markDownstream edges (edge # downstream) m =
     markDownstream edges downstream
       (if allSkipped edges m (targetTaskId edge) then markSkipped edges (targetTaskId edge) m else m)"
  by pat_completeness auto

definition pendings :: "state_map \<Rightarrow> nat" where
  "pendings m = length (filter (\<lambda>p. ts_status (snd p) = Pending) m)"

lemma pendings_update_le: "ts_status ts \<noteq> Pending \<Longrightarrow> pendings (AList.update k ts m) \<le> pendings m"
  by (induction m) (auto simp: pendings_def)

lemma pendings_update_less:
  "map_of m k = Some ts \<Longrightarrow> ts_status ts = Pending \<Longrightarrow> ts_status ts' \<noteq> Pending \<Longrightarrow>
     pendings (AList.update k ts' m) < pendings m"
  by (induction m) (auto simp: pendings_def split: if_splits)

lemma pendings_skip_less:
  "map_of m k = Some ts \<Longrightarrow> ts_status ts = Pending \<Longrightarrow> pendings (skip k ts m) < pendings m"
  by (simp add: skip_def pendings_update_less)

lemma mark_dom_pendings:
  "markSkipped_markDownstream_dom (Inl (edges, t, m)) \<Longrightarrow> pendings (markSkipped edges t m) \<le> pendings m"
  "markSkipped_markDownstream_dom (Inr (edges, es, m)) \<Longrightarrow> pendings (markDownstream edges es m) \<le> pendings m"
proof (induction edges t m and edges es m rule: markSkipped_markDownstream.pinduct)
  case (1 edges t m)
  then show ?case
    using pendings_skip_less [of m t] by (fastforce simp: markSkipped.psimps split: option.split)
next
  case (2 edges m)
  then show ?case by (simp add: markDownstream.psimps)
next
  case (3 edges e es m)
  then show ?case by (force simp: markDownstream.psimps)
qed

termination markSkipped
proof (relation "inv_image (less_than <*lex*> less_than)
    (\<lambda>x. case x of Inl (edges, t, m) \<Rightarrow> (pendings m, 0) | Inr (edges, es, m) \<Rightarrow> (pendings m, Suc (length es)))",
    goal_cases)
  case 1
  then show ?case by (auto intro!: wf_inv_image)
next
  case (2 edges t m ts)
  then show ?case by (simp add: pendings_skip_less)
next
  case (3 edges e es m)
  then show ?case by simp
next
  case (4 edges e es m)
  then show ?case using mark_dom_pendings(1) [of edges "targetTaskId e" m] by (auto simp: le_less)
qed

declare markSkipped.simps [simp del] markDownstream.simps(2) [simp del]

subsection \<open>evaluateDownstream\<close>

definition allSatisfied :: "Edge list \<Rightarrow> state_map \<Rightarrow> string \<Rightarrow> bool" where
  "allSatisfied edges m t =
     list_all (\<lambda>inc. status_in [Completed, Skipped] m (sourceTaskId inc)) (incoming edges t)"

definition atLeastOneCompleted :: "Edge list \<Rightarrow> state_map \<Rightarrow> string \<Rightarrow> bool" where
  "atLeastOneCompleted edges m t =
     list_ex (\<lambda>inc. status_in [Completed] m (sourceTaskId inc)) (incoming edges t)"

definition ready :: "Edge list \<Rightarrow> state_map \<Rightarrow> string \<Rightarrow> bool" where
  "ready edges m t \<longleftrightarrow> allSatisfied edges m t \<and> atLeastOneCompleted edges m t"

definition condition_holds ::
    "(string \<Rightarrow> jsval \<Rightarrow> bool option) \<Rightarrow> state_map \<Rightarrow> string \<Rightarrow> Edge \<Rightarrow> bool" where
  "condition_holds js_eval m completedTaskDefId edge =
     (if truthy_str (conditionExpr edge)
      then evaluateCondition js_eval (the (conditionExpr edge))
             (case map_of m completedTaskDefId of None \<Rightarrow> None | Some cs \<Rightarrow> ts_output cs)
      else True)"

fun fan_loop :: "(string \<Rightarrow> jsval \<Rightarrow> bool option) \<Rightarrow> Edge list \<Rightarrow> string \<Rightarrow> Edge list \<Rightarrow>
    state_map \<times> string list \<Rightarrow> state_map \<times> string list" where
  "fan_loop js_eval edges completed [] (m, readyIds) = (m, readyIds)"
| "fan_loop js_eval edges completed (edge # es) (m, readyIds) =
     fan_loop js_eval edges completed es
       (case map_of m (targetTaskId edge) of
          None \<Rightarrow> (m, readyIds)
        | Some targetState \<Rightarrow>
            if ts_status targetState \<noteq> Pending then (m, readyIds)
            else if \<not> condition_holds js_eval m completed edge
            then (markSkipped edges (targetTaskId edge) m, readyIds)
            else if ready edges m (targetTaskId edge) then (m, readyIds @ [ts_id targetState])
            else (m, readyIds))"

record 's fan_result =
  fan_ready :: "string list"
  fan_states :: state_map
  fan_store :: 's
  fan_message :: message

definition evaluateDownstream ::
    "'s redis \<Rightarrow> (string \<Rightarrow> jsval \<Rightarrow> bool option) \<Rightarrow> date \<Rightarrow> string \<Rightarrow> string \<Rightarrow> string \<Rightarrow> Edge list \<Rightarrow>
     TaskState list \<Rightarrow> 's \<Rightarrow> 's fan_result"
where
  "evaluateDownstream R js_eval now completedTaskStateId completedTaskDefId executionId edges taskStates s =
     (let (m, readyTaskStateIds) =
            fan_loop js_eval edges completedTaskDefId (outgoing edges completedTaskDefId)
              (state_map taskStates, [])
      in \<lparr>fan_ready = readyTaskStateIds, fan_states = m,
          fan_store = (if readyTaskStateIds \<noteq> [] then enqueueBatch R readyTaskStateIds s else s),
          fan_message = publishTaskCompleted now completedTaskStateId executionId\<rparr>)"

subsection \<open>Only pending tasks are skipped\<close>

definition skips_only :: "state_map \<Rightarrow> state_map \<Rightarrow> bool" where
  "skips_only m m' \<longleftrightarrow> (\<forall>k. map_of m' k = map_of m k \<or>
     (\<exists>ts. map_of m k = Some ts \<and> ts_status ts = Pending \<and> map_of m' k = Some (ts\<lparr>ts_status := Skipped\<rparr>)))"

lemma skips_onlyD:
  "skips_only m m' \<Longrightarrow> map_of m' k = map_of m k \<or>
     (\<exists>ts. map_of m k = Some ts \<and> ts_status ts = Pending \<and> map_of m' k = Some (ts\<lparr>ts_status := Skipped\<rparr>))"
  by (simp add: skips_only_def)

lemma skips_only_refl [simp]: "skips_only m m"
  by (simp add: skips_only_def)

lemma skips_only_trans: "skips_only m m1 \<Longrightarrow> skips_only m1 m2 \<Longrightarrow> skips_only m m2"
  unfolding skips_only_def by (metis option.inject TaskStatus.distinct(11) TaskState.select_convs(4)
      TaskState.update_convs(4) TaskState.surjective)

lemma skips_only_skip: "map_of m t = Some ts \<Longrightarrow> ts_status ts = Pending \<Longrightarrow> skips_only m (skip t ts m)"
  by (simp add: skips_only_def skip_def)

lemma skips_only_mark:
  "skips_only m (markSkipped edges t m)"
  "skips_only m (markDownstream edges es m)"
proof (induction edges t m and edges es m rule: markSkipped_markDownstream.induct)
  case (1 edges t m)
  then show ?case
    using skips_only_trans [OF skips_only_skip]
    by (auto simp: markSkipped.simps [of edges t m] split: option.split)
next
  case (3 edges e es m)
  then show ?case using skips_only_trans by (auto simp: markDownstream.simps(2)[of edges e es m])
qed simp

lemma skips_only_status:
  "skips_only m m' \<Longrightarrow> Pending \<notin> set sts \<Longrightarrow> status_in sts m k \<Longrightarrow> status_in sts m' k"
  using skips_onlyD [of m m' k] by (auto simp: status_in_def split: option.splits)

lemma skips_only_allSkipped: "skips_only m m' \<Longrightarrow> allSkipped edges m t \<Longrightarrow> allSkipped edges m' t"
  using skips_only_status [of m m' "[Skipped, Failed, Cancelled, TimedOut]"]
  by (auto simp: allSkipped_def list_all_iff)

lemma skips_only_ready: "skips_only m m' \<Longrightarrow> ready edges m t \<Longrightarrow> ready edges m' t"
  using skips_only_status [of m m' "[Completed, Skipped]"] skips_only_status [of m m' "[Completed]"]
  by (auto simp: ready_def allSatisfied_def atLeastOneCompleted_def list_all_iff list_ex_iff)

lemma skips_only_pending:
  "skips_only m m' \<Longrightarrow> map_of m' k = Some ts \<Longrightarrow> ts_status ts = Pending \<Longrightarrow> map_of m k = Some ts"
  by (auto simp: skips_only_def) (metis option.inject TaskStatus.distinct(11) TaskState.select_convs(4)
      TaskState.update_convs(4) TaskState.surjective)

lemma skips_only_condition:
  "skips_only m m' \<Longrightarrow> condition_holds js_eval m' c edge = condition_holds js_eval m c edge"
  using skips_onlyD [of m m' c] by (auto simp: condition_holds_def split: option.splits)

subsection \<open>Every skip is justified\<close>

lemma skipped_mark:
  "map_of (markSkipped edges t m) k \<noteq> map_of m k \<Longrightarrow> k = t \<or> allSkipped edges (markSkipped edges t m) k"
  "map_of (markDownstream edges es m) k \<noteq> map_of m k \<Longrightarrow> allSkipped edges (markDownstream edges es m) k"
proof (induction edges t m and edges es m rule: markSkipped_markDownstream.induct)
  case (1 edges t m)
  then show ?case
    by (cases "k = t") (auto simp: markSkipped.simps [of edges t m] skip_def split: option.splits if_splits)
next
  case (3 edges e es m)
  let ?t = "targetTaskId e"
  define m1 where "m1 = (if allSkipped edges m ?t then markSkipped edges ?t m else m)"
  have r: "markDownstream edges (e # es) m = markDownstream edges es m1"
    by (simp add: markDownstream.simps(2) m1_def)
  have mono: "skips_only m1 (markDownstream edges es m1)" by (rule skips_only_mark)
  show ?case
  proof (cases "map_of (markDownstream edges es m1) k = map_of m1 k")
    case False
    then show ?thesis using "3.IH"(2) r m1_def by simp
  next
    case True
    then have changed: "map_of m1 k \<noteq> map_of m k" using "3.prems" r by simp
    then have a: "allSkipped edges m ?t" and m1: "m1 = markSkipped edges ?t m"
      by (auto simp: m1_def split: if_splits)
    have "k = ?t \<or> allSkipped edges m1 k" using "3.IH"(1) [OF a] changed m1 by simp
    moreover have "allSkipped edges m1 ?t" using skips_only_allSkipped [OF skips_only_mark(1) a] m1 by simp
    ultimately show ?thesis using skips_only_allSkipped [OF mono] r by auto
  qed
qed simp

lemma fan_loop_all:
  "fan_loop js_eval edges c es (m, rs) = (m', rs') \<Longrightarrow>
   skips_only m m' \<and>
   (\<exists>new. rs' = rs @ new \<and> (\<forall>x \<in> set new. \<exists>e ts. e \<in> set es \<and> map_of m (targetTaskId e) = Some ts \<and>
      ts_status ts = Pending \<and> ts_id ts = x \<and> condition_holds js_eval m c e \<and> ready edges m' (targetTaskId e))) \<and>
   (\<forall>k. map_of m' k \<noteq> map_of m k \<longrightarrow> allSkipped edges m' k \<or>
      (\<exists>e. e \<in> set es \<and> targetTaskId e = k \<and> \<not> condition_holds js_eval m c e))"
proof (induction es arbitrary: m rs)
  case Nil
  then show ?case by simp
next
  case (Cons e es)
  define st where "st = (case map_of m (targetTaskId e) of
      None \<Rightarrow> (m, rs)
    | Some targetState \<Rightarrow>
        if ts_status targetState \<noteq> Pending then (m, rs)
        else if \<not> condition_holds js_eval m c e then (markSkipped edges (targetTaskId e) m, rs)
        else if ready edges m (targetTaskId e) then (m, rs @ [ts_id targetState]) else (m, rs))"
  obtain m1 rs1 where st: "st = (m1, rs1)" by (cases st)
  have step: "skips_only m m1" using st skips_only_mark(1)
    by (auto simp: st_def split: option.splits if_splits)
  have loop: "fan_loop js_eval edges c es (m1, rs1) = (m', rs')"
    using Cons.prems unfolding st [symmetric] st_def by simp
  note IH = Cons.IH [OF loop]
  have skips: "skips_only m m'" using skips_only_trans [OF step] IH by blast
  obtain new where new: "rs' = rs1 @ new" "\<And>x. x \<in> set new \<Longrightarrow> \<exists>e ts. e \<in> set es \<and>
      map_of m1 (targetTaskId e) = Some ts \<and> ts_status ts = Pending \<and> ts_id ts = x \<and>
      condition_holds js_eval m1 c e \<and> ready edges m' (targetTaskId e)"
    using IH by blast
  have later: "\<exists>e' ts. e' \<in> set (e # es) \<and> map_of m (targetTaskId e') = Some ts \<and>
     ts_status ts = Pending \<and> ts_id ts = x \<and> condition_holds js_eval m c e' \<and> ready edges m' (targetTaskId e')"
    if "x \<in> set new" for x
    using new(2) [OF that] skips_only_pending [OF step] skips_only_condition [OF step] by (metis list.set_intros(2))
  have first: "rs1 = rs \<or> (\<exists>ts. rs1 = rs @ [ts_id ts] \<and> map_of m (targetTaskId e) = Some ts \<and>
      ts_status ts = Pending \<and> condition_holds js_eval m c e \<and> ready edges m' (targetTaskId e))"
    using st skips_only_ready [of m1 m'] IH
    by (auto simp: st_def split: option.splits if_splits)
  have all: "\<exists>new. rs' = rs @ new \<and> (\<forall>x \<in> set new. \<exists>e' ts. e' \<in> set (e # es) \<and>
      map_of m (targetTaskId e') = Some ts \<and> ts_status ts = Pending \<and> ts_id ts = x \<and>
      condition_holds js_eval m c e' \<and> ready edges m' (targetTaskId e'))"
  proof (cases "rs1 = rs")
    case True
    then show ?thesis using new(1) later by blast
  next
    case False
    then obtain ts where ts: "rs1 = rs @ [ts_id ts]" "map_of m (targetTaskId e) = Some ts"
      "ts_status ts = Pending" "condition_holds js_eval m c e" "ready edges m' (targetTaskId e)"
      using first by blast
    show ?thesis
      by (rule exI [of _ "ts_id ts # new"]) (use new(1) ts later in auto)
  qed
  have "allSkipped edges m' k \<or>
      (\<exists>e'. e' \<in> set (e # es) \<and> targetTaskId e' = k \<and> \<not> condition_holds js_eval m c e')"
    if k: "map_of m' k \<noteq> map_of m k" for k
  proof (cases "map_of m' k = map_of m1 k")
    case False
    then show ?thesis using IH skips_only_condition [OF step] by (metis list.set_intros(2))
  next
    case True
    then have ch: "map_of m1 k \<noteq> map_of m k" using k by simp
    then have "\<not> condition_holds js_eval m c e" "m1 = markSkipped edges (targetTaskId e) m"
      using st by (auto simp: st_def split: option.splits if_splits)
    then show ?thesis
      using skipped_mark(1) [of edges "targetTaskId e" m k] ch skips_only_allSkipped [of m1 m'] IH by auto
  qed
  then show ?case using skips all by blast
qed

lemmas fan_loop_facts = fan_loop_all [THEN conjunct1] fan_loop_all [THEN conjunct2, THEN conjunct1]
  fan_loop_all [THEN conjunct2, THEN conjunct2, rule_format]

subsection \<open>Without conditions\<close>

lemma fan_loop_unconditional:
  assumes "list_all (\<lambda>e. \<not> truthy_str (conditionExpr e)) es"
  shows "fan_loop js_eval edges c es (m, rs) = (m, rs @ concat (map (\<lambda>e.
    case map_of m (targetTaskId e) of
      Some ts \<Rightarrow> if ts_status ts = Pending \<and> ready edges m (targetTaskId e) then [ts_id ts] else []
    | None \<Rightarrow> []) es))"
  using assms
proof (induction es arbitrary: rs)
  case (Cons e es)
  then show ?case by (cases "map_of m (targetTaskId e)") (simp_all add: condition_holds_def)
qed simp

subsection \<open>Examples\<close>

definition sample_state :: "string \<Rightarrow> TaskStatus \<Rightarrow> TaskState" where
  "sample_state d st = \<lparr>ts_id = ''ts-'' @ d, ts_executionId = ''x'', ts_taskDefinitionId = d, ts_status = st,
     ts_attemptCount = 0, ts_output = Some (JObj []), ts_error = None, ts_startedAt = None, ts_completedAt = None\<rparr>"

definition cond_edge :: "string \<Rightarrow> string \<Rightarrow> Edge" where
  "cond_edge u v = (plain_edge u v)\<lparr>conditionExpr := Some ''output.ok''\<rparr>"

definition always_false :: "string \<Rightarrow> jsval \<Rightarrow> bool option" where
  "always_false e v = Some False"

text \<open>\<open>b\<close> and \<open>c\<close> precede \<open>d\<close>; \<open>b\<close> has just completed.\<close>

definition diamond :: "TaskStatus \<Rightarrow> mem_server fan_result" where
  "diamond st = evaluateDownstream mem_redis always_false 0 ''ts-b'' ''b'' ''x''
     [plain_edge ''b'' ''d'', plain_edge ''c'' ''d'']
     [sample_state ''b'' Completed, sample_state ''c'' st, sample_state ''d'' Pending] empty_server"

subsection \<open>Properties\<close>



text \<open>
  A call changes nothing but the status of pending tasks, to skipped, and each such task is
  the target of an edge from the completed task whose condition fails, or has only tasks before
  it that are skipped, failed, cancelled or timed out.
\<close>

theorem skips_justified:
  assumes "r = evaluateDownstream R js_eval now tsid c exid edges taskStates s"
    and "map_of (fan_states r) k \<noteq> map_of (state_map taskStates) k"
  shows "\<exists>ts. map_of (state_map taskStates) k = Some ts \<and> ts_status ts = Pending \<and>
    map_of (fan_states r) k = Some (ts\<lparr>ts_status := Skipped\<rparr>) \<and>
    (allSkipped edges (fan_states r) k \<or>
     (\<exists>e \<in> set edges. sourceTaskId e = c \<and> targetTaskId e = k \<and>
        \<not> condition_holds js_eval (state_map taskStates) c e))"
proof -
  obtain m' rs where l: "fan_loop js_eval edges c (outgoing edges c) (state_map taskStates, []) = (m', rs)"
    by (cases "fan_loop js_eval edges c (outgoing edges c) (state_map taskStates, [])")
  then have r: "fan_states r = m'" by (simp add: assms(1) evaluateDownstream_def)
  show ?thesis
    using skips_onlyD [OF fan_loop_facts(1) [OF l], of k] fan_loop_facts(3) [OF l, of k] assms(2)
    unfolding r by (auto simp: outgoing_def)
qed

theorem skips_justified_witness:
  "let r = evaluateDownstream mem_redis always_false 0 ''ts-a'' ''a'' ''x''
         [cond_edge ''a'' ''b'', plain_edge ''b'' ''c'']
         [sample_state ''a'' Completed, sample_state ''b'' Pending, sample_state ''c'' Pending] empty_server
   in status_in [Skipped] (fan_states r) ''c'' \<and>
      allSkipped [cond_edge ''a'' ''b'', plain_edge ''b'' ''c''] (fan_states r) ''c''"
proof -
  let ?es = "[cond_edge ''a'' ''b'', plain_edge ''b'' ''c'']"
  let ?ts = "[sample_state ''a'' Completed, sample_state ''b'' Pending, sample_state ''c'' Pending]"
  let ?r = "evaluateDownstream mem_redis always_false 0 ''ts-a'' ''a'' ''x'' ?es ?ts empty_server"
  have "status_in [Skipped] (fan_states ?r) ''c''" by code_simp
  moreover have "map_of (fan_states ?r) ''c'' \<noteq> map_of (state_map ?ts) ''c''" by code_simp
  ultimately show ?thesis using skips_justified [OF refl, of mem_redis always_false 0 "''ts-a''" "''a''" "''x''" ?es ?ts empty_server "''c''"]
    by (auto simp: Let_def cond_edge_def)
qed

text \<open>
  When no outgoing edge has a condition, the ready tasks are exactly the pending ones, in the
  order of the edges, whose tasks before them have all completed or been skipped and at least one
  completed, and they are added to the queue in that order.
\<close>

theorem fan_out_exact:
  assumes "redis_lists R ls" "r = evaluateDownstream R js_eval now tsid c exid edges taskStates s"
    "list_all (\<lambda>e. \<not> truthy_str (conditionExpr e)) (outgoing edges c)" "m = state_map taskStates"
  shows "fan_states r = m \<and>
    fan_ready r = concat (map (\<lambda>e. case map_of m (targetTaskId e) of
        Some ts \<Rightarrow> if ts_status ts = Pending \<and> ready edges m (targetTaskId e) then [ts_id ts] else []
      | None \<Rightarrow> []) (outgoing edges c)) \<and>
    rev (ls (fan_store r) TASK_QUEUE_KEY) = rev (ls s TASK_QUEUE_KEY) @ fan_ready r"
proof -
  have batch: "rev (ls (enqueueBatch R xs s) TASK_QUEUE_KEY) = rev (ls s TASK_QUEUE_KEY) @ xs" for xs
    using redis_lists.batch_order [OF assms(1)] .
  show ?thesis
    using fan_loop_unconditional [OF assms(3), of js_eval edges c m "[]"] batch
    by (simp add: assms(2,4) evaluateDownstream_def)
qed

theorem fan_out_exact_witness:
  "rev (m_list (fan_store (diamond Skipped)) TASK_QUEUE_KEY) = [''ts-d'']"
proof -
  have "list_all (\<lambda>e. \<not> truthy_str (conditionExpr e))
      (outgoing [plain_edge ''b'' ''d'', plain_edge ''c'' ''d''] ''b'')" by code_simp
  from fan_out_exact [OF mem_lists.redis_lists_axioms diamond_def this refl]
  have "rev (m_list (fan_store (diamond Skipped)) TASK_QUEUE_KEY) =
      rev (m_list empty_server TASK_QUEUE_KEY) @ fan_ready (diamond Skipped)" by blast
  moreover have "fan_ready (diamond Skipped) = [''ts-d'']" by code_simp
  moreover have "m_list empty_server TASK_QUEUE_KEY = []" by code_simp
  ultimately show ?thesis by simp
qed

text \<open>
  A task can be forgotten.  \<open>d\<close> waits for \<open>b\<close> and \<open>c\<close>; \<open>b\<close> has completed, and now \<open>a\<close> completes
  and its condition rules out \<open>c\<close>.  \<open>c\<close> becomes skipped, which satisfies the last requirement of
  \<open>d\<close>, but only the direct successors of \<open>a\<close> are examined: \<open>d\<close> is not enqueued, although it is
  pending and ready, and no task is left whose completion would look at it again.
\<close>

theorem fan_in_forgets_ready_task:
  "let r = evaluateDownstream mem_redis always_false 0 ''ts-a'' ''a'' ''x''
         [cond_edge ''a'' ''c'', plain_edge ''b'' ''d'', plain_edge ''c'' ''d'']
         [sample_state ''a'' Completed, sample_state ''b'' Completed, sample_state ''c'' Pending,
          sample_state ''d'' Pending] empty_server
   in fan_ready r = [] \<and> status_in [Pending] (fan_states r) ''d'' \<and>
      ready [cond_edge ''a'' ''c'', plain_edge ''b'' ''d'', plain_edge ''c'' ''d''] (fan_states r) ''d'' \<and>
      map (\<lambda>p. ts_status (snd p)) (fan_states r) = [Completed, Completed, Skipped, Pending]"
  by code_simp

end
