(* ===== verification/LockManager.thy ===== *)
theory LockManager
  imports Redis
begin

section \<open>Distributed locks (packages/shared/src/redis/lock-manager.ts)\<close>

text \<open>
  The class \<open>LockManager\<close> over the parameter \<open>R\<close>.  \<open>renew\<close> and \<open>release\<close> run a Lua script, which
  the server executes atomically, so each is one step.

  What a lock is for is stated by the leases an executor believes in: a successful \<open>acquire\<close> or
  \<open>renew\<close> gives it the task until the time to live has passed, a failed \<open>renew\<close> or any \<open>release\<close>
  ends its lease.
\<close>

definition LOCK_PREFIX :: string where "LOCK_PREFIX = ''lock:task:''"
definition DEFAULT_TTL_MS :: int where "DEFAULT_TTL_MS = 30000"

definition lock_key :: "string \<Rightarrow> string" where
  "lock_key taskStateId = LOCK_PREFIX @ taskStateId"

definition acquire :: "'s redis \<Rightarrow> string \<Rightarrow> string \<Rightarrow> int \<Rightarrow> 's \<Rightarrow> bool \<times> 's" where
  "acquire R taskStateId executorId ttlMs s = r_set_px_nx R (lock_key taskStateId) executorId ttlMs s"

definition renew :: "'s redis \<Rightarrow> string \<Rightarrow> string \<Rightarrow> int \<Rightarrow> 's \<Rightarrow> bool \<times> 's" where
  "renew R taskStateId executorId ttlMs s =
     (let key = lock_key taskStateId;
          (result, s') = (if r_get R key s = Some executorId then r_pexpire R key ttlMs s else (0, s))
      in (result = 1, s'))"

definition release :: "'s redis \<Rightarrow> string \<Rightarrow> string \<Rightarrow> 's \<Rightarrow> bool \<times> 's" where
  "release R taskStateId executorId s =
     (let key = lock_key taskStateId;
          (result, s') = (if r_get R key s = Some executorId then r_del R key s else (0, s))
      in (result = 1, s'))"

definition isHeld :: "'s redis \<Rightarrow> string \<Rightarrow> 's \<Rightarrow> bool" where
  "isHeld R taskStateId s \<longleftrightarrow> r_exists R (lock_key taskStateId) s = 1"

definition getOwner :: "'s redis \<Rightarrow> string \<Rightarrow> 's \<Rightarrow> string option" where
  "getOwner R taskStateId s = r_get R (lock_key taskStateId) s"

lemma lock_key_inj [simp]: "lock_key a = lock_key b \<longleftrightarrow> a = b"
  by (simp add: lock_key_def)

subsection \<open>What each operation does\<close>

context redis_keys
begin

abbreviation owner :: "'s \<Rightarrow> string \<Rightarrow> string option" where
  "owner s t \<equiv> live keys now s (lock_key t)"

lemma acquire_free:
  assumes "owner s t = None" "0 < n"
  shows "fst (acquire R t e n s) \<and> keys (snd (acquire R t e n s)) = (keys s)(lock_key t \<mapsto> (e, now s + n)) \<and>
    now (snd (acquire R t e n s)) = now s"
  using set_free [OF assms, of e] by (auto simp: acquire_def)

lemma acquire_taken:
  assumes "owner s t \<noteq> None"
  shows "\<not> fst (acquire R t e n s) \<and> keys (snd (acquire R t e n s)) = keys s \<and>
    now (snd (acquire R t e n s)) = now s"
  using set_taken [OF assms, of e n] by (auto simp: acquire_def)

lemma renew_owner:
  assumes "owner s t = Some e"
  shows "fst (renew R t e n s) \<and> keys (snd (renew R t e n s)) = (keys s)(lock_key t \<mapsto> (e, now s + n)) \<and>
    now (snd (renew R t e n s)) = now s"
  using pexpire_live [OF assms, of n] assms by (auto simp: renew_def get_live)

lemma renew_other:
  assumes "owner s t \<noteq> Some e"
  shows "renew R t e n s = (False, s)"
  using assms by (simp add: renew_def get_live)

lemma release_owner:
  assumes "owner s t = Some e"
  shows "fst (release R t e s) \<and> keys (snd (release R t e s)) = (keys s)(lock_key t := None) \<and>
    now (snd (release R t e s)) = now s"
  using del_live [of s "lock_key t"] assms by (auto simp: release_def get_live)

lemma release_other:
  assumes "owner s t \<noteq> Some e"
  shows "release R t e s = (False, s)"
  using assms by (simp add: release_def get_live)

end

subsection \<open>Histories and leases\<close>

text \<open>
  A history is a list of operations by any executors on any tasks, with time passing in between.
  Its state is the server and the leases: the end of the lease each executor believes it has.
\<close>

datatype lock_op =
    Acquire string string int
  | Renew string string int
  | Release string string
  | Tick nat

type_synonym leases = "string \<Rightarrow> string \<Rightarrow> int option"

definition set_lease :: "leases \<Rightarrow> string \<Rightarrow> string \<Rightarrow> int option \<Rightarrow> leases" where
  "set_lease L e t x = L(e := (L e)(t := x))"

fun lock_step :: "'s redis \<Rightarrow> ('s \<Rightarrow> int) \<Rightarrow> lock_op \<Rightarrow> 's \<times> leases \<Rightarrow> 's \<times> leases" where
  "lock_step R now (Acquire e t n) (s, L) =
     (let (ok, s') = acquire R t e n s in (s', if ok then set_lease L e t (Some (now s + n)) else L))"
| "lock_step R now (Renew e t n) (s, L) =
     (let (ok, s') = renew R t e n s in (s', set_lease L e t (if ok then Some (now s + n) else None)))"
| "lock_step R now (Release e t) (s, L) = (snd (release R t e s), set_lease L e t None)"
| "lock_step R now (Tick n) (s, L) = (r_tick R (int n) s, L)"

fun op_ok :: "lock_op \<Rightarrow> bool" where
  "op_ok (Acquire e t n) \<longleftrightarrow> 0 < n"
| "op_ok (Renew e t n) \<longleftrightarrow> 0 < n"
| "op_ok _ \<longleftrightarrow> True"

definition has_lease :: "('s \<Rightarrow> int) \<Rightarrow> 's \<times> leases \<Rightarrow> string \<Rightarrow> string \<Rightarrow> bool" where
  "has_lease now c e t \<longleftrightarrow> (case snd c e t of None \<Rightarrow> False | Some x \<Rightarrow> now (fst c) < x)"

context redis_keys
begin

text \<open>A running lease is the key of the lock, with its owner and its end.\<close>

definition leases_ok :: "'s \<times> leases \<Rightarrow> bool" where
  "leases_ok c \<longleftrightarrow> (\<forall>e t x. snd c e t = Some x \<and> now (fst c) < x \<longrightarrow> keys (fst c) (lock_key t) = Some (e, x))"

lemma leases_ok_owner: "leases_ok (s, L) \<Longrightarrow> L e t = Some x \<Longrightarrow> now s < x \<Longrightarrow> owner s t = Some e"
  by (auto simp: leases_ok_def live_def)

lemma leases_ok_set:
  assumes "leases_ok (s, L)" "keys s' = (keys s)(lock_key t \<mapsto> (e, x))" "now s' = now s"
    "\<And>e'. owner s t = Some e' \<Longrightarrow> e' = e"
  shows "leases_ok (s', set_lease L e t (Some x))"
  using assms leases_ok_owner [OF assms(1)] unfolding leases_ok_def set_lease_def
  by (auto split: if_splits)

lemma leases_ok_clear:
  assumes "leases_ok (s, L)" "keys s' = (keys s)(lock_key t := None)" "now s' = now s" "owner s t = Some e"
  shows "leases_ok (s', set_lease L e t None)"
  using assms leases_ok_owner [OF assms(1)] unfolding leases_ok_def set_lease_def
  by (auto split: if_splits)

lemma acquired:
  assumes "leases_ok (s, L)" "owner s t = None" "0 < n"
  shows "fst (acquire R t e n s) \<and> leases_ok (snd (acquire R t e n s), set_lease L e t (Some (now s + n)))"
  using acquire_free [OF assms(2,3), of e]
    leases_ok_set [OF assms(1), of "snd (acquire R t e n s)" t e "now s + n"] assms(2) by simp

lemma renewed:
  assumes "leases_ok (s, L)" "owner s t = Some e"
  shows "fst (renew R t e n s) \<and> leases_ok (snd (renew R t e n s), set_lease L e t (Some (now s + n)))"
proof -
  note r = renew_owner [OF assms(2), of n]
  have "leases_ok (snd (renew R t e n s), set_lease L e t (Some (now s + n)))"
    by (rule leases_ok_set [OF assms(1)]) (use r assms(2) in simp_all)
  then show ?thesis using r by simp
qed

lemma released:
  assumes "leases_ok (s, L)" "owner s t = Some e"
  shows "leases_ok (snd (release R t e s), set_lease L e t None)"
  using release_owner [OF assms(2)] leases_ok_clear [OF assms(1) _ _ assms(2)] by simp

lemma leases_ok_step:
  assumes "leases_ok c" "op_ok p"
  shows "leases_ok (lock_step R now p c)"
proof -
  obtain s L where c: "c = (s, L)" by (cases c)
  show ?thesis
  proof (cases p)
    case (Acquire e t n)
    show ?thesis
    proof (cases "owner s t = None")
      case True
      then show ?thesis
        using acquired [of s L t n e] True assms Acquire c by (simp add: case_prod_unfold)
    next
      case False
      then show ?thesis
        using acquire_taken [OF False, of e n] assms Acquire c
        by (simp add: leases_ok_def case_prod_unfold)
    qed
  next
    case (Renew e t n)
    show ?thesis
    proof (cases "owner s t = Some e")
      case True
      then show ?thesis
        using renewed [of s L t e n] True assms Renew c by (simp add: case_prod_unfold)
    next
      case False
      then show ?thesis
        using renew_other [OF False, of n] assms Renew c by (auto simp: leases_ok_def set_lease_def)
    qed
  next
    case (Release e t)
    show ?thesis
    proof (cases "owner s t = Some e")
      case True
      then show ?thesis
        using released [of s L t e] True assms Release c by simp
    next
      case False
      then show ?thesis
        using release_other [OF False] assms Release c by (auto simp: leases_ok_def set_lease_def)
    qed
  next
    case (Tick n)
    then show ?thesis using assms c by (auto simp: leases_ok_def keys_tick now_tick)
  qed
qed

lemma leases_ok_run: "leases_ok c \<Longrightarrow> list_all op_ok ps \<Longrightarrow> leases_ok (fold (lock_step R now) ps c)"
  by (induction ps arbitrary: c) (simp_all add: leases_ok_step)

lemma lease_owner:
  "leases_ok c \<Longrightarrow> has_lease now c e t \<Longrightarrow> getOwner R t (fst c) = Some e"
  using leases_ok_owner [of "fst c" "snd c"] by (auto simp: has_lease_def getOwner_def get_live split: option.splits)

lemma leases_ok_start: "leases_ok (s, \<lambda>e t. None)"
  by (simp add: leases_ok_def)

end

subsection \<open>Properties\<close>

text \<open>
  C26: Mutual exclusion.  After any history of acquisitions, renewals, releases and passing time,
  by any number of executors with positive times to live, two different executors never both
  have a running lease on a task, and the one that has is the owner Redis names.
\<close>

theorem lock_mutual_exclusion:
  assumes "redis_keys R keys now" "list_all op_ok ps" "c = fold (lock_step R now) ps (s, \<lambda>e t. None)"
    and "has_lease now c e t"
  shows "getOwner R t (fst c) = Some e \<and> (e' \<noteq> e \<longrightarrow> \<not> has_lease now c e' t)"
proof -
  have ok: "redis_keys.leases_ok keys now c"
    using redis_keys.leases_ok_run [OF assms(1) redis_keys.leases_ok_start [OF assms(1)] assms(2)] assms(3)
    by simp
  have o: "getOwner R t (fst c) = Some f" if "has_lease now c f t" for f
    using redis_keys.lease_owner [OF assms(1) ok that] .
  show ?thesis using o [OF assms(4)] o [of e'] by force
qed

theorem lock_mutual_exclusion_witness:
  "let c = fold (lock_step mem_redis m_now) [Acquire ''A'' ''t'' 30, Tick 40, Acquire ''B'' ''t'' 30]
         (empty_server, \<lambda>e t. None)
   in getOwner mem_redis ''t'' (fst c) = Some ''B'' \<and> \<not> has_lease m_now c ''A'' ''t''"
proof -
  let ?ps = "[Acquire ''A'' ''t'' 30, Tick 40, Acquire ''B'' ''t'' 30]"
  let ?c = "fold (lock_step mem_redis m_now) ?ps (empty_server, \<lambda>e t. None)"
  have "has_lease m_now ?c ''B'' ''t''" by code_simp
  then show ?thesis
    using lock_mutual_exclusion [OF mem_keys.redis_keys_axioms, of ?ps ?c empty_server "''B''" "''t''" "''A''"]
    by (simp add: Let_def)
qed

text \<open>
  Only the owner renews or releases a lock, and an owner always can: for another executor both
  return false and leave the server as it was.
\<close>

theorem lock_owner_only:
  assumes "redis_keys R keys now" "getOwner R t s = Some e" "e' \<noteq> e"
  shows "renew R t e' n s = (False, s) \<and> release R t e' s = (False, s) \<and> \<not> fst (acquire R t e' n s) \<and>
    fst (renew R t e n s) \<and> fst (release R t e s) \<and> getOwner R t (snd (release R t e s)) = None"
proof -
  have o: "live keys now s (lock_key t) = Some e"
    using assms(2) by (simp add: getOwner_def redis_keys.get_live [OF assms(1)])
  have n: "live keys now s (lock_key t) \<noteq> Some e'" "live keys now s (lock_key t) \<noteq> None"
    unfolding o using assms(3) by blast+
  have r: "fst (release R t e s)" "keys (snd (release R t e s)) = (keys s)(lock_key t := None)"
    using redis_keys.release_owner [OF assms(1) o] by simp_all
  have "getOwner R t (snd (release R t e s)) = None"
    by (simp add: getOwner_def redis_keys.get_live [OF assms(1)] live_def r(2))
  then show ?thesis
    using redis_keys.renew_other [OF assms(1) n(1)] redis_keys.release_other [OF assms(1) n(1)]
      redis_keys.acquire_taken [OF assms(1) n(2)] redis_keys.renew_owner [OF assms(1) o] r(1)
    by simp
qed

theorem lock_owner_only_witness:
  "let s = snd (acquire mem_redis ''t'' ''A'' 30000 empty_server)
   in renew mem_redis ''t'' ''B'' 30000 s = (False, s) \<and> fst (release mem_redis ''t'' ''A'' s)"
proof -
  let ?s = "snd (acquire mem_redis ''t'' ''A'' 30000 empty_server)"
  have "getOwner mem_redis ''t'' ?s = Some ''A''" by code_simp
  then show ?thesis
    using lock_owner_only [OF mem_keys.redis_keys_axioms, of "''t''" ?s "''A''" "''B''" 30000]
    by (simp add: Let_def)
qed

end
