(* ===== verification/TaskClaimer.thy ===== *)
theory TaskClaimer
  imports TaskQueue LockManager
begin

section \<open>Claiming tasks (services/executor-service/src/services/task-claimer.ts)\<close>

text \<open>
  The class \<open>TaskClaimer\<close>: its fields as the record \<open>claimer\<close>, beside the server state.  The
  renewal interval of a claimed task is the flag \<open>ct_renewing\<close>; \<open>renewal_tick\<close> is one firing of it.
  \<open>claim_pass\<close> is one pass of the polling loop up to the callback, \<open>start_loop\<close> the loop with a bound
  on the number of passes, since it runs until \<open>stop\<close> is called; the callback says whether it threw.
  Waiting a second is a tick of the server's clock.
\<close>

record ClaimedTask =
  ct_taskStateId :: string
  ct_renewing :: bool
  ct_aborted :: bool

record claimer =
  cl_running :: bool
  cl_currentTask :: "ClaimedTask option"
  cl_executorId :: string
  cl_lockTtlMs :: int

definition new_claimer :: "string \<Rightarrow> int option \<Rightarrow> claimer" where
  "new_claimer executorId lockTtlMs =
     \<lparr>cl_running = False, cl_currentTask = None, cl_executorId = executorId,
      cl_lockTtlMs = (case lockTtlMs of Some n \<Rightarrow> n | None \<Rightarrow> 30000)\<rparr>"

datatype claim_result = Busy | Idle | Requeued string | Claimed string

definition claim_pass :: "'s redis \<Rightarrow> claimer \<times> 's \<Rightarrow> claim_result \<times> (claimer \<times> 's)" where
  "claim_pass R st =
     (let (c, s) = st in
      if cl_currentTask c \<noteq> None then (Busy, (c, r_tick R 1000 s))
      else
        (case claim R s of
           (None, s1) \<Rightarrow> (Idle, (c, s1))
         | (Some taskStateId, s1) \<Rightarrow>
             if taskStateId = [] then (Idle, (c, s1))
             else
               (let (lockAcquired, s2) = acquire R taskStateId (cl_executorId c) (cl_lockTtlMs c) s1 in
                if \<not> lockAcquired then (Requeued taskStateId, (c, requeue R taskStateId s2))
                else (Claimed taskStateId,
                  (c\<lparr>cl_currentTask := Some \<lparr>ct_taskStateId = taskStateId, ct_renewing = True, ct_aborted = False\<rparr>\<rparr>,
                   s2)))))"

fun start_loop ::
    "'s redis \<Rightarrow> (string \<Rightarrow> claimer \<times> 's \<Rightarrow> bool \<times> (claimer \<times> 's)) \<Rightarrow> nat \<Rightarrow> claimer \<times> 's \<Rightarrow> claimer \<times> 's" where
  "start_loop R onTaskClaimed 0 st = st"
| "start_loop R onTaskClaimed (Suc n) st =
     (if \<not> cl_running (fst st) then st
      else
        (case claim_pass R st of
           (Claimed taskStateId, st1) \<Rightarrow>
             (let (threw, (c, s)) = onTaskClaimed taskStateId st1 in
              start_loop R onTaskClaimed n (c, if threw then r_tick R 1000 s else s))
         | (_, st1) \<Rightarrow> start_loop R onTaskClaimed n st1))"

definition start ::
    "'s redis \<Rightarrow> (string \<Rightarrow> claimer \<times> 's \<Rightarrow> bool \<times> (claimer \<times> 's)) \<Rightarrow> nat \<Rightarrow> claimer \<times> 's \<Rightarrow> claimer \<times> 's" where
  "start R onTaskClaimed n st = (let (c, s) = st in start_loop R onTaskClaimed n (c\<lparr>cl_running := True\<rparr>, s))"

definition renewal_tick :: "'s redis \<Rightarrow> claimer \<times> 's \<Rightarrow> claimer \<times> 's" where
  "renewal_tick R st =
     (let (c, s) = st in
      case cl_currentTask c of
        None \<Rightarrow> (c, s)
      | Some t \<Rightarrow>
          if \<not> ct_renewing t then (c, s)
          else
            (let (renewed, s1) = renew R (ct_taskStateId t) (cl_executorId c) (cl_lockTtlMs c) s in
             if renewed then (c, s1)
             else (c\<lparr>cl_currentTask := Some (t\<lparr>ct_aborted := True, ct_renewing := False\<rparr>)\<rparr>, s1)))"

definition releaseCurrentTask :: "'s redis \<Rightarrow> claimer \<times> 's \<Rightarrow> claimer \<times> 's" where
  "releaseCurrentTask R st =
     (let (c, s) = st in
      case cl_currentTask c of
        None \<Rightarrow> (c, s)
      | Some t \<Rightarrow>
          (let (_, s1) = release R (ct_taskStateId t) (cl_executorId c) s;
               s2 = removeFromProcessing R (ct_taskStateId t) s1
           in (c\<lparr>cl_currentTask := None\<rparr>, s2)))"

definition releaseLock :: "'s redis \<Rightarrow> string \<Rightarrow> claimer \<times> 's \<Rightarrow> claimer \<times> 's" where
  "releaseLock R taskStateId st =
     (let (c, s) = st; (_, s1) = release R taskStateId (cl_executorId c) s in (c, s1))"

definition isCurrentTaskAborted :: "claimer \<Rightarrow> bool" where
  "isCurrentTaskAborted c = (case cl_currentTask c of Some t \<Rightarrow> ct_aborted t | None \<Rightarrow> False)"

definition getCurrentTaskId :: "claimer \<Rightarrow> string option" where
  "getCurrentTaskId c = map_option ct_taskStateId (cl_currentTask c)"

definition hasActiveTask :: "claimer \<Rightarrow> bool" where
  "hasActiveTask c \<longleftrightarrow> cl_currentTask c \<noteq> None"

definition clearCurrentTask :: "claimer \<Rightarrow> claimer" where
  "clearCurrentTask c = c\<lparr>cl_currentTask := None\<rparr>"

definition stop :: "claimer \<Rightarrow> claimer" where
  "stop c = c\<lparr>cl_running := False, cl_currentTask := map_option (ct_renewing_update (\<lambda>_. False)) (cl_currentTask c)\<rparr>"

subsection \<open>A server with lists and keys\<close>

text \<open>What the executor relies on: the laws of lists and of keys for the same server, and that the
  commands on one kind leave the other alone.\<close>

locale redis_server = redis_lists R lists + redis_keys R keys now
  for R :: "'s redis" and lists :: "'s \<Rightarrow> string \<Rightarrow> string list"
    and keys :: "'s \<Rightarrow> string \<Rightarrow> (string \<times> int) option" and now :: "'s \<Rightarrow> int" +
  assumes keys_brpoplpush: "keys (snd (r_brpoplpush R k k' s)) = keys s"
    and now_brpoplpush: "now (snd (r_brpoplpush R k k' s)) = now s"
    and lists_del_key: "live keys now s k \<noteq> None \<Longrightarrow> lists (snd (r_del R k s)) = lists s"
begin

abbreviation waiting :: "'s \<Rightarrow> string list" where
  "waiting s \<equiv> rev (lists s TASK_QUEUE_KEY)"

abbreviation processing :: "'s \<Rightarrow> string list" where
  "processing s \<equiv> lists s TASK_PROCESSING_KEY"

lemma lock_lists:
  "lists (snd (acquire R t e n s)) = lists s" "lists (snd (renew R t e n s)) = lists s"
  "lists (snd (release R t e s)) = lists s"
  using lists_del_key [of s "lock_key t"]
  by (auto simp: acquire_def renew_def release_def lists_set lists_pexpire get_live Let_def case_prod_unfold)

lemma queue_keys:
  "keys (enqueue R i s) = keys s" "now (enqueue R i s) = now s"
  "keys (requeue R i s) = keys s" "now (requeue R i s) = now s"
  "keys (removeFromProcessing R i s) = keys s" "now (removeFromProcessing R i s) = now s"
  "keys (snd (claim R s)) = keys s" "now (snd (claim R s)) = now s"
  by (simp_all add: enqueue_def requeue_def removeFromProcessing_def claim_def keys_lpush now_lpush
      keys_lrem1 now_lrem1 keys_brpoplpush now_brpoplpush)

lemma owner_same: "keys s' = keys s \<Longrightarrow> now s' = now s \<Longrightarrow> owner s' t = owner s t"
  by (simp add: live_def split: option.split)

lemma claim_pass_empty:
  assumes "cl_currentTask c = None" "waiting s = []"
  shows "\<exists>s'. claim_pass R (c, s) = (Idle, (c, s')) \<and> waiting s' = [] \<and> processing s' = processing s \<and> keys s' = keys s"
proof -
  obtain r s' where cl: "claim R s = (r, s')" by (cases "claim R s")
  show ?thesis using wq.take_none [OF assms(2)] queue_keys(7) [of s] assms(1)
    by (simp add: claim_pass_def cl)
qed

lemma claim_pass_next:
  assumes "cl_currentTask c = None" "waiting s = i # is" "i \<noteq> []" "0 < cl_lockTtlMs c"
  shows "\<exists>s'. if owner s i = None
    then claim_pass R (c, s) = (Claimed i,
        (c\<lparr>cl_currentTask := Some \<lparr>ct_taskStateId = i, ct_renewing = True, ct_aborted = False\<rparr>\<rparr>, s')) \<and>
      waiting s' = is \<and> processing s' = i # processing s \<and>
      keys s' = (keys s)(lock_key i \<mapsto> (cl_executorId c, now s + cl_lockTtlMs c)) \<and> now s' = now s
    else claim_pass R (c, s) = (Requeued i, (c, s')) \<and>
      waiting s' = is @ [i] \<and> processing s' = processing s \<and> keys s' = keys s \<and> now s' = now s"
proof -
  obtain r s1 where cl: "claim R s = (r, s1)" by (cases "claim R s")
  have s1: "r = Some i" "waiting s1 = is" "processing s1 = i # processing s" "keys s1 = keys s" "now s1 = now s"
    using wq.take_first [OF assms(2)] queue_keys(7,8) [of s] by (simp_all add: cl)
  obtain b s2 where ac: "acquire R i (cl_executorId c) (cl_lockTtlMs c) s1 = (b, s2)"
    by (cases "acquire R i (cl_executorId c) (cl_lockTtlMs c) s1")
  have s2: "lists s2 = lists s1" using lock_lists(1) [of i "cl_executorId c" "cl_lockTtlMs c" s1] by (simp add: ac)
  have own: "owner s1 i = owner s i" using owner_same s1(4,5) by blast
  show ?thesis
  proof (cases "owner s i = None")
    case True
    then show ?thesis
      using acquire_free [of s1 i "cl_lockTtlMs c" "cl_executorId c"] own assms s1 s2
      by (simp add: claim_pass_def cl ac)
  next
    case False
    then show ?thesis
      using acquire_taken [of s1 i "cl_executorId c" "cl_lockTtlMs c"] own assms s1 s2
        wq.give_back_last [of i s2] queue_keys(3,4) [of i s2]
      by (simp add: claim_pass_def cl ac)
  qed
qed

lemma releaseCurrentTask_effect:
  assumes "cl_currentTask c = Some t" "owner s (ct_taskStateId t) = Some (cl_executorId c)"
  shows "\<exists>s'. releaseCurrentTask R (c, s) = (c\<lparr>cl_currentTask := None\<rparr>, s') \<and>
    keys s' = (keys s)(lock_key (ct_taskStateId t) := None) \<and> now s' = now s \<and>
    waiting s' = waiting s \<and> processing s' = remove1 (ct_taskStateId t) (processing s)"
proof -
  obtain b s1 where r: "release R (ct_taskStateId t) (cl_executorId c) s = (b, s1)"
    by (cases "release R (ct_taskStateId t) (cl_executorId c) s")
  have "keys s1 = (keys s)(lock_key (ct_taskStateId t) := None)" "now s1 = now s" "lists s1 = lists s"
    using release_owner [OF assms(2)] lock_lists(3) [of "ct_taskStateId t" "cl_executorId c" s] by (simp_all add: r)
  then show ?thesis
    using wq.finish_taken [of "ct_taskStateId t" s1] queue_keys(5,6) [of "ct_taskStateId t" s1] assms(1)
    by (simp add: releaseCurrentTask_def r)
qed

end

interpretation mem_both: redis_server mem_redis m_list m_key m_now
  by unfold_locales (auto simp: mem_redis_def)

subsection \<open>Properties\<close>

text \<open>
  C29: A pass of an idle claimer takes the next id of the queue or leaves everything as it is: if the
  task is not locked the claimer holds its lock until the time to live has passed, the id is in the
  processing list and is the current task; if another executor has the lock, the id goes to the end of
  the queue and that lock stays.
\<close>

theorem claim_pass_takes_or_returns:
  assumes "redis_server R ls ks now" "cl_currentTask c = None" "0 < cl_lockTtlMs c"
    and "rev (ls s TASK_QUEUE_KEY) = i # is" "i \<noteq> []" "claim_pass R (c, s) = (r, (c', s'))"
  shows "if live ks now s (lock_key i) = None
    then r = Claimed i \<and> getCurrentTaskId c' = Some i \<and> \<not> isCurrentTaskAborted c' \<and>
      ks s' = (ks s)(lock_key i \<mapsto> (cl_executorId c, now s + cl_lockTtlMs c)) \<and>
      rev (ls s' TASK_QUEUE_KEY) = is \<and> ls s' TASK_PROCESSING_KEY = i # ls s TASK_PROCESSING_KEY
    else r = Requeued i \<and> c' = c \<and> ks s' = ks s \<and>
      rev (ls s' TASK_QUEUE_KEY) = is @ [i] \<and> ls s' TASK_PROCESSING_KEY = ls s TASK_PROCESSING_KEY"
  using redis_server.claim_pass_next [OF assms(1,2,4,5,3)] assms(6)
  by (auto simp: getCurrentTaskId_def isCurrentTaskAborted_def split: if_splits)

theorem claim_pass_takes_or_returns_witness:
  "getCurrentTaskId (fst (snd (claim_pass mem_redis (new_claimer ''e1'' None, enqueue mem_redis ''t'' empty_server)))) = Some ''t''"
proof -
  obtain r c' s' where c: "claim_pass mem_redis (new_claimer ''e1'' None, enqueue mem_redis ''t'' empty_server) = (r, (c', s'))"
    by (metis prod_cases3)
  have "cl_currentTask (new_claimer ''e1'' None) = None" "0 < cl_lockTtlMs (new_claimer ''e1'' None)"
    "rev (m_list (enqueue mem_redis ''t'' empty_server) TASK_QUEUE_KEY) = [''t'']"
    "live m_key m_now (enqueue mem_redis ''t'' empty_server) (lock_key ''t'') = None" by code_simp+
  from claim_pass_takes_or_returns [OF mem_both.redis_server_axioms this(1,2,3) _ c] this(4)
  show ?thesis by (simp add: c)
qed

text \<open>
  The claimer stops claiming for good once a callback has thrown: the task it was given stays the
  current task, and every later pass only waits, whatever is in the queue.
\<close>

theorem claimer_stuck_after_throw:
  assumes "cl_running c" "cl_currentTask c = Some t"
  shows "start_loop R onTaskClaimed n (c, s) = (c, (r_tick R 1000 ^^ n) s)"
  using assms by (induction n arbitrary: s) (simp_all add: claim_pass_def funpow_swap1)

theorem claimer_stuck_after_throw_witness:
  "let thrower = (\<lambda>i st. (True, st));
       (c, s) = start mem_redis thrower 1 (new_claimer ''e1'' None, enqueueBatch mem_redis [''t'', ''u''] empty_server)
   in getCurrentTaskId c = Some ''t'' \<and> getQueueDepth mem_redis s = 1 \<and>
      start_loop mem_redis thrower 5 (c, s) = (c, (r_tick mem_redis 1000 ^^ 5) s)"
proof -
  let ?thrower = "\<lambda>i st. (True, st) :: bool \<times> (claimer \<times> mem_server)"
  obtain c s where st: "start mem_redis ?thrower 1 (new_claimer ''e1'' None, enqueueBatch mem_redis [''t'', ''u''] empty_server) = (c, s)"
    by (metis surj_pair)
  have "case start mem_redis ?thrower 1 (new_claimer ''e1'' None, enqueueBatch mem_redis [''t'', ''u''] empty_server) of
      (c, s) \<Rightarrow> getCurrentTaskId c = Some ''t'' \<and> cl_running c \<and> getQueueDepth mem_redis s = 1"
    by code_simp
  then have f: "getCurrentTaskId c = Some ''t''" "cl_running c" "getQueueDepth mem_redis s = 1"
    unfolding st prod.case by blast+
  then obtain t where "cl_currentTask c = Some t" by (auto simp: getCurrentTaskId_def)
  from claimer_stuck_after_throw [OF f(2) this, of mem_redis ?thrower 5 s] f(1,3) show ?thesis
    unfolding Let_def st prod.case by blast
qed

end
