(* ===== verification/Database.thy ===== *)
theory Database
  imports Types
begin

section \<open>The database (packages/shared/src/db/migrations)\<close>

text \<open>
  The tables of the migrations 001 to 004, each a list of rows in the order of insertion, and what
  the statements of the repositories share.  A nullable column is an option, a \<open>JSONB\<close> column the
  value it holds, a \<open>TIMESTAMPTZ\<close> a \<open>date\<close>.  A column the sources never read (\<open>created_at\<close> of a
  task definition, an edge or a task state) is left out.  Ids are the canonical texts of UUIDs.

  \<open>gen_random_uuid()\<close> is the parameter \<open>gen\<close>, applied to the number of ids drawn so far, and
  \<open>NOW()\<close> the parameter \<open>now\<close>.  A statement that violates a constraint fails and changes nothing;
  a transaction that fails is rolled back, so a failing operation is \<^const>\<open>Inl\<close> with no new
  database.
\<close>

datatype db_error =
    ForeignKeyViolation | UniqueViolation | CheckViolation | NotNullViolation
  | StringTooLong | InvalidText | OutOfRange | InvalidLimit | InvalidOffset
  | UndefinedColumn | NoMatchingConstraint

text \<open>The \<open>code\<close> of the error object, the documented \<open>SQLSTATE\<close>.\<close>

fun sqlstate :: "db_error \<Rightarrow> string" where
  "sqlstate ForeignKeyViolation = ''23503''"
| "sqlstate UniqueViolation = ''23505''"
| "sqlstate CheckViolation = ''23514''"
| "sqlstate NotNullViolation = ''23502''"
| "sqlstate StringTooLong = ''22001''"
| "sqlstate InvalidText = ''22P02''"
| "sqlstate OutOfRange = ''22003''"
| "sqlstate InvalidLimit = ''2201W''"
| "sqlstate InvalidOffset = ''2201X''"
| "sqlstate UndefinedColumn = ''42703''"
| "sqlstate NoMatchingConstraint = ''42P10''"

subsection \<open>Errors as values\<close>

definition bindE :: "'e + 'a \<Rightarrow> ('a \<Rightarrow> 'e + 'b) \<Rightarrow> 'e + 'b" where
  "bindE x f = (case x of Inl e \<Rightarrow> Inl e | Inr a \<Rightarrow> f a)"

lemma bindE_simps [simp]: "bindE (Inl e) f = Inl e" "bindE (Inr a) f = f a"
  by (simp_all add: bindE_def)

lemma bindE_Inr: "bindE x f = Inr b \<longleftrightarrow> (\<exists>a. x = Inr a \<and> f a = Inr b)"
  by (cases x) auto

text \<open>The loop that runs a statement for every element and collects what it returns.\<close>

fun each :: "('x \<Rightarrow> 'd \<Rightarrow> 'e + ('r \<times> 'd)) \<Rightarrow> 'x list \<Rightarrow> 'd \<Rightarrow> 'e + ('r list \<times> 'd)" where
  "each f [] d = Inr ([], d)"
| "each f (x # xs) d =
     bindE (f x d) (\<lambda>(r, d'). bindE (each f xs d') (\<lambda>(rs, d''). Inr (r # rs, d'')))"

lemma each_Cons_Inr:
  "each f (x # xs) d = Inr (rs, d') \<longleftrightarrow>
     (\<exists>r rs' d1. f x d = Inr (r, d1) \<and> each f xs d1 = Inr (rs', d') \<and> rs = r # rs')"
  by (auto simp: bindE_Inr split: prod.splits)

lemma each_invariant:
  assumes "each f xs d = Inr (rs, d')" "P d" "\<And>x d r d'. P d \<Longrightarrow> f x d = Inr (r, d') \<Longrightarrow> P d'"
  shows "P d'"
  using assms(1,2)
proof (induction xs arbitrary: d rs)
  case (Cons x xs)
  from Cons.prems(1) obtain r rs' d1 where "f x d = Inr (r, d1)" "each f xs d1 = Inr (rs', d')"
    unfolding each_Cons_Inr by blast
  then show ?case using Cons.IH Cons.prems(2) assms(3) by blast
qed simp

subsection \<open>Rows\<close>

record WorkflowRow =
  w_id :: string
  w_name :: string
  w_description :: "string option"
  w_triggerConfig :: jsval
  w_createdAt :: date
  w_updatedAt :: date

record TaskRow =
  tr_id :: string
  tr_workflowId :: string
  tr_name :: string
  tr_type :: string
  tr_config :: jsval
  tr_timeoutMs :: int
  tr_retryPolicy :: "jsval option"

record AuditRow =
  au_id :: string
  au_taskStateId :: string
  au_previousState :: TaskStatus
  au_newState :: TaskStatus
  au_timestamp :: date

record Schedule =
  sc_id :: string
  sc_workflowId :: string
  sc_cronExpr :: "string option"
  sc_intervalMs :: "int option"
  sc_timezone :: "string option"
  sc_active :: bool
  sc_lastRunAt :: "date option"
  sc_nextRunAt :: "date option"
  sc_createdAt :: date

record WebhookRegistration =
  wh_id :: string
  wh_workflowId :: string
  wh_secret :: "string option"
  wh_active :: bool
  wh_createdAt :: date

record DeadLetterEntry =
  dl_id :: string
  dl_taskStateId :: string
  dl_executionId :: string
  dl_error :: "string option"
  dl_attempts :: int
  dl_createdAt :: date

record SLAConfig =
  sla_id :: string
  sla_workflowId :: string
  sla_maxDurationMs :: int
  sla_warningThresholdPct :: int

datatype Severity = Warning | Critical

record Alert =
  al_id :: string
  al_executionId :: string
  al_workflowId :: string
  al_severity :: Severity
  al_message :: string
  al_elapsedMs :: int
  al_slaLimitMs :: int
  al_resolved :: bool
  al_resolvedAt :: "date option"
  al_createdAt :: date

record db =
  db_workflows :: "WorkflowRow list"
  db_tasks :: "TaskRow list"
  db_edges :: "Edge list"
  db_executions :: "Execution list"
  db_states :: "TaskState list"
  db_audit :: "AuditRow list"
  db_schedules :: "Schedule list"
  db_webhooks :: "WebhookRegistration list"
  db_dlq :: "DeadLetterEntry list"
  db_slas :: "SLAConfig list"
  db_alerts :: "Alert list"
  db_drawn :: nat

definition empty_db :: db where
  "empty_db = \<lparr>db_workflows = [], db_tasks = [], db_edges = [], db_executions = [], db_states = [],
     db_audit = [], db_schedules = [], db_webhooks = [], db_dlq = [], db_slas = [], db_alerts = [],
     db_drawn = 0\<rparr>"

subsection \<open>Columns\<close>

text \<open>\<open>v || null\<close> before a statement, \<open>v || undefined\<close> on a row.\<close>

definition or_null :: "string option \<Rightarrow> string option" where
  "or_null s = (if truthy_str s then s else None)"

definition json_or_undefined :: "jsval option \<Rightarrow> jsval option" where
  "json_or_undefined v = (case v of None \<Rightarrow> None | Some j \<Rightarrow> if truthy j then Some j else None)"

lemma or_null_idem [simp]: "or_null (or_null s) = or_null s"
  by (simp add: or_null_def truthy_str_def split: option.split)

lemma json_or_undefined_idem [simp]: "json_or_undefined (json_or_undefined v) = json_or_undefined v"
  by (simp add: json_or_undefined_def split: option.split)

text \<open>A number given for an \<open>INTEGER\<close> column must be an integer of 32 bits.\<close>

definition int_column :: "jsnum \<Rightarrow> db_error + int" where
  "int_column n = (case n of
       Fin r \<Rightarrow> if r \<noteq> of_int \<lfloor>r\<rfloor> then Inl InvalidText
         else if - 2147483648 \<le> \<lfloor>r\<rfloor> \<and> \<lfloor>r\<rfloor> \<le> 2147483647 then Inr \<lfloor>r\<rfloor> else Inl OutOfRange
     | _ \<Rightarrow> Inl InvalidText)"

text \<open>\<open>LIMIT\<close> and \<open>OFFSET\<close> are 64-bit integers; a negative one is an error.\<close>

definition slice_rows :: "int \<Rightarrow> int \<Rightarrow> 'r list \<Rightarrow> db_error + 'r list" where
  "slice_rows limit offset rows =
     (if 9223372036854775807 < limit \<or> 9223372036854775807 < offset then Inl OutOfRange
      else if limit < 0 then Inl InvalidLimit else if offset < 0 then Inl InvalidOffset
      else Inr (take (nat limit) (drop (nat offset) rows)))"

text \<open>\<open>ORDER BY created_at DESC\<close>; rows with the same time keep their order.\<close>

definition newest_first :: "('r \<Rightarrow> date) \<Rightarrow> 'r list \<Rightarrow> 'r list" where
  "newest_first t rows = sort_key (\<lambda>r. - t r) rows"

text \<open>\<open>UPDATE ... WHERE p\<close> and its \<open>rowCount\<close>.\<close>

definition update_rows :: "('r \<Rightarrow> bool) \<Rightarrow> ('r \<Rightarrow> 'r) \<Rightarrow> 'r list \<Rightarrow> 'r list" where
  "update_rows p f rows = map (\<lambda>r. if p r then f r else r) rows"

definition row_count :: "('r \<Rightarrow> bool) \<Rightarrow> 'r list \<Rightarrow> nat" where
  "row_count p rows = length (filter p rows)"

lemma map_update_rows: "(\<And>r. g (f r) = g r) \<Longrightarrow> map g (update_rows p f rows) = map g rows"
  by (simp add: update_rows_def)

lemma set_update_rows: "set (update_rows p f rows) = f ` {r \<in> set rows. p r} \<union> {r \<in> set rows. \<not> p r}"
  by (auto simp: update_rows_def)

lemma update_rows_none: "(\<And>r. r \<in> set rows \<Longrightarrow> \<not> p r) \<Longrightarrow> update_rows p f rows = rows"
  unfolding update_rows_def by (rule map_idI) simp

lemma filter_update_rows:
  "(\<And>r. p r \<Longrightarrow> p (f r)) \<Longrightarrow> filter p (update_rows p f rows) = map f (filter p rows)"
  by (induction rows) (auto simp: update_rows_def)

lemma length_update_rows [simp]: "length (update_rows p f rows) = length rows"
  by (simp add: update_rows_def)

lemma row_count_pos: "0 < row_count p rows \<longleftrightarrow> (\<exists>r \<in> set rows. p r)"
  by (auto simp: row_count_def filter_empty_conv)

subsection \<open>The constraints of the schema\<close>

text \<open>
  Keys are unique, every reference points to a row, an edge is unique within its workflow and the
  checks on columns hold.  Ids are among those drawn.
\<close>

definition ids_of :: "db \<Rightarrow> string list list" where
  "ids_of d = [map w_id (db_workflows d), map tr_id (db_tasks d), map e_id (db_edges d),
     map ex_id (db_executions d), map ts_id (db_states d), map au_id (db_audit d),
     map sc_id (db_schedules d), map wh_id (db_webhooks d), map dl_id (db_dlq d),
     map sla_id (db_slas d), map al_id (db_alerts d)]"

definition edge_key :: "Edge \<Rightarrow> string \<times> string \<times> string" where
  "edge_key e = (e_workflowId e, sourceTaskId e, targetTaskId e)"

definition schedule_ok :: "Schedule \<Rightarrow> bool" where
  "schedule_ok s \<longleftrightarrow> (sc_cronExpr s \<noteq> None \<or> sc_intervalMs s \<noteq> None) \<and>
     (case sc_intervalMs s of None \<Rightarrow> True | Some n \<Rightarrow> 1000 \<le> n \<and> n \<le> 86400000)"

definition sla_ok :: "SLAConfig \<Rightarrow> bool" where
  "sla_ok c \<longleftrightarrow> 1000 \<le> sla_maxDurationMs c \<and> 0 < sla_warningThresholdPct c \<and> sla_warningThresholdPct c < 100"

text \<open>Each reference of the schema: the values of the column and the keys they must be among.\<close>

definition refs_of :: "db \<Rightarrow> (string list \<times> string list) list" where
  "refs_of d =
     [(map tr_workflowId (db_tasks d), map w_id (db_workflows d)),
      (map e_workflowId (db_edges d), map w_id (db_workflows d)),
      (map sourceTaskId (db_edges d), map tr_id (db_tasks d)),
      (map targetTaskId (db_edges d), map tr_id (db_tasks d)),
      (map ex_workflowId (db_executions d), map w_id (db_workflows d)),
      (map ts_executionId (db_states d), map ex_id (db_executions d)),
      (map ts_taskDefinitionId (db_states d), map tr_id (db_tasks d)),
      (map au_taskStateId (db_audit d), map ts_id (db_states d)),
      (map sc_workflowId (db_schedules d), map w_id (db_workflows d)),
      (map wh_workflowId (db_webhooks d), map w_id (db_workflows d)),
      (map dl_taskStateId (db_dlq d), map ts_id (db_states d)),
      (map dl_executionId (db_dlq d), map ex_id (db_executions d)),
      (map sla_workflowId (db_slas d), map w_id (db_workflows d)),
      (map al_executionId (db_alerts d), map ex_id (db_executions d)),
      (map al_workflowId (db_alerts d), map w_id (db_workflows d))]"

definition refs_ok :: "db \<Rightarrow> bool" where
  "refs_ok d = list_all (\<lambda>(vs, ks). set vs \<subseteq> set ks) (refs_of d)"

definition checks_ok :: "db \<Rightarrow> bool" where
  "checks_ok d \<longleftrightarrow> distinct (map edge_key (db_edges d)) \<and>
     list_all schedule_ok (db_schedules d) \<and> list_all sla_ok (db_slas d)"

definition schema_ok :: "(nat \<Rightarrow> string) \<Rightarrow> db \<Rightarrow> bool" where
  "schema_ok gen d \<longleftrightarrow>
     list_all (\<lambda>is. distinct is \<and> set is \<subseteq> gen ` {..< db_drawn d}) (ids_of d) \<and> refs_ok d \<and> checks_ok d"

lemma schema_ok_empty: "schema_ok gen empty_db"
  by (simp add: schema_ok_def ids_of_def refs_ok_def refs_of_def checks_ok_def empty_db_def)

text \<open>The next id is new, so a row inserted with it keeps the keys unique; its references must be
  among the keys already there.  An update that changes no key and no reference, and a deletion
  that leaves no reference behind, keep the invariant too.\<close>

definition next_id :: "(nat \<Rightarrow> string) \<Rightarrow> db \<Rightarrow> string" where
  "next_id gen d = gen (db_drawn d)"

lemma drawn_new: "inj gen \<Longrightarrow> gen (n::nat) \<notin> gen ` {..< n}"
  by (auto simp: inj_eq)

lemma schema_fresh:
  assumes "inj gen" "schema_ok gen d" "ks \<in> set (ids_of d)"
  shows "gen (db_drawn d) \<notin> set ks"
  using assms drawn_new [OF assms(1), of "db_drawn d"] by (auto simp: schema_ok_def list_all_iff)

lemma schema_insert:
  assumes "inj gen" "schema_ok gen d" "db_drawn d' = Suc (db_drawn d)"
    and ids: "list_all2 (\<lambda>xs ys. ys = xs \<or> ys = xs @ [next_id gen d]) (ids_of d) (ids_of d')"
    and refs: "list_all2 (\<lambda>(vs, ks) (vs', ks'). set vs' \<subseteq> set vs \<union> set ks \<and> set ks \<subseteq> set ks')
      (refs_of d) (refs_of d')"
    and "checks_ok d'"
  shows "schema_ok gen d'"
proof -
  have "list_all (\<lambda>is. distinct is \<and> set is \<subseteq> gen ` {..< db_drawn d'}) (ids_of d')"
    unfolding list_all_length
  proof (intro allI impI)
    fix n assume n: "n < length (ids_of d')"
    then have "distinct (ids_of d ! n) \<and> set (ids_of d ! n) \<subseteq> gen ` {..< db_drawn d}"
      using assms(2) ids by (simp add: schema_ok_def list_all_length list_all2_lengthD)
    moreover have "ids_of d' ! n = ids_of d ! n \<or> ids_of d' ! n = ids_of d ! n @ [next_id gen d]"
      using list_all2_nthD2 [OF ids n] .
    ultimately show "distinct (ids_of d' ! n) \<and> set (ids_of d' ! n) \<subseteq> gen ` {..< db_drawn d'}"
      using drawn_new [OF assms(1), of "db_drawn d"] by (auto simp: assms(3) next_id_def lessThan_Suc)
  qed
  moreover have "refs_ok d'" unfolding refs_ok_def list_all_length
  proof (intro allI impI)
    fix n assume n: "n < length (refs_of d')"
    then have "case refs_of d ! n of (vs, ks) \<Rightarrow> set vs \<subseteq> set ks"
      using assms(2) refs by (simp add: schema_ok_def refs_ok_def list_all_length list_all2_lengthD)
    then show "case refs_of d' ! n of (vs, ks) \<Rightarrow> set vs \<subseteq> set ks"
      using list_all2_nthD2 [OF refs n] by (auto split: prod.splits)
  qed
  ultimately show ?thesis using assms(6) by (simp add: schema_ok_def)
qed

lemma schema_update:
  assumes "schema_ok gen d" "db_drawn d' = db_drawn d" "ids_of d' = ids_of d" "refs_of d' = refs_of d" "checks_ok d'"
  shows "schema_ok gen d'"
  using assms by (simp add: schema_ok_def refs_ok_def)

definition shrinks :: "string list \<times> string list \<Rightarrow> string list \<times> string list \<Rightarrow> bool" where
  "shrinks r r' \<longleftrightarrow> set (fst r') \<subseteq> set (fst r) \<and> set (snd r) \<inter> set (fst r') \<subseteq> set (snd r')"

lemma shrinks_same [simp]: "shrinks r r"
  by (simp add: shrinks_def)

lemma shrinks_values [simp]: "shrinks (map f vs, ks) (map f (filter p vs), ks)"
  by (auto simp: shrinks_def)

lemma shrinks_keys:
  assumes "\<And>v k. v \<in> set vs \<Longrightarrow> p v \<Longrightarrow> k \<in> set ks \<Longrightarrow> f v = g k \<Longrightarrow> q k"
  shows "shrinks (map f vs, map g ks) (map f (filter p vs), map g (filter q ks))"
  using assms by (auto simp: shrinks_def)

lemma shrinks_keys_all:
  assumes "\<And>v k. v \<in> set vs \<Longrightarrow> k \<in> set ks \<Longrightarrow> f v = g k \<Longrightarrow> q k"
  shows "shrinks (map f vs, map g ks) (map f vs, map g (filter q ks))"
  using assms by (auto simp: shrinks_def)

lemma schema_delete:
  assumes "schema_ok gen d" "db_drawn d' = db_drawn d" "checks_ok d'"
    and ids: "list_all2 (\<lambda>xs ys. set ys \<subseteq> set xs \<and> (distinct xs \<longrightarrow> distinct ys)) (ids_of d) (ids_of d')"
    and refs: "list_all2 shrinks (refs_of d) (refs_of d')"
  shows "schema_ok gen d'"
proof -
  have "list_all (\<lambda>is. distinct is \<and> set is \<subseteq> gen ` {..< db_drawn d'}) (ids_of d')"
    unfolding list_all_length
  proof (intro allI impI)
    fix n assume n: "n < length (ids_of d')"
    then have "distinct (ids_of d ! n) \<and> set (ids_of d ! n) \<subseteq> gen ` {..< db_drawn d}"
      using assms(1) ids by (simp add: schema_ok_def list_all_length list_all2_lengthD)
    then show "distinct (ids_of d' ! n) \<and> set (ids_of d' ! n) \<subseteq> gen ` {..< db_drawn d'}"
      using list_all2_nthD2 [OF ids n] by (auto simp: assms(2))
  qed
  moreover have "refs_ok d'" unfolding refs_ok_def list_all_length
  proof (intro allI impI)
    fix n assume n: "n < length (refs_of d')"
    then have "case refs_of d ! n of (vs, ks) \<Rightarrow> set vs \<subseteq> set ks"
      using assms(1) refs by (simp add: schema_ok_def refs_ok_def list_all_length list_all2_lengthD)
    then show "case refs_of d' ! n of (vs, ks) \<Rightarrow> set vs \<subseteq> set ks"
      using list_all2_nthD2 [OF refs n] by (auto simp: shrinks_def split: prod.splits) blast
  qed
  ultimately show ?thesis using assms(3) by (simp add: schema_ok_def)
qed

lemma set_filter_image: "f ` {x \<in> set xs. p x} \<subseteq> f ` set xs"
  by auto

lemma distinct_map_filter: "distinct (map f xs) \<Longrightarrow> distinct (map f (filter p xs))"
  by (induction xs) auto

text \<open>A generator for the examples: ids of growing length.\<close>

definition sample_gen :: "nat \<Rightarrow> string" where
  "sample_gen n = replicate n (CHR ''u'')"

lemma inj_sample_gen: "inj sample_gen"
  by (auto simp: inj_def sample_gen_def dest: arg_cong [where f = length])

lemma sample_gen_Cons: "c # cs = sample_gen n \<Longrightarrow> c = CHR ''u''"
  by (cases n) (auto simp: sample_gen_def)

end
