(* ===== verification/WorkflowRepository.thy ===== *)
theory WorkflowRepository
  imports Database
begin

section \<open>Workflows (services/scheduler-api/src/repositories/workflow-repository.ts)\<close>

text \<open>
  The class \<open>WorkflowRepository\<close>.  \<open>create\<close> and \<open>update\<close> run one transaction; \<open>findAll\<close> sorts by
  creation time, newest first.  A workflow given to them has no ids of its own: the ids of its
  tasks and edges are ignored, the references of its edges are stored as they are.
\<close>

record Workflow =
  wf_id :: string
  wf_name :: string
  wf_description :: "string option"
  wf_triggerConfig :: jsval
  wf_taskDefinitions :: "TaskRow list"
  wf_edges :: "Edge list"
  wf_createdAt :: date
  wf_updatedAt :: date

record NewTask =
  nt_name :: string
  nt_type :: string
  nt_config :: jsval
  nt_timeoutMs :: jsnum
  nt_retryPolicy :: "jsval option"

record NewWorkflow =
  nw_name :: string
  nw_description :: "string option"
  nw_triggerConfig :: jsval
  nw_taskDefinitions :: "NewTask list"
  nw_edges :: "Edge list"

subsection \<open>Statements\<close>

text \<open>A row as \<open>RETURNING\<close> and \<open>SELECT\<close> give it and the object the code builds from it.\<close>

definition task_object :: "TaskRow \<Rightarrow> TaskRow" where
  "task_object r = r\<lparr>tr_retryPolicy := json_or_undefined (tr_retryPolicy r)\<rparr>"

definition edge_object :: "Edge \<Rightarrow> Edge" where
  "edge_object r = r\<lparr>conditionExpr := or_null (conditionExpr r)\<rparr>"

definition workflow_object :: "WorkflowRow \<Rightarrow> TaskRow list \<Rightarrow> Edge list \<Rightarrow> Workflow" where
  "workflow_object row tasks edges =
     \<lparr>wf_id = w_id row, wf_name = w_name row, wf_description = or_null (w_description row),
      wf_triggerConfig = w_triggerConfig row, wf_taskDefinitions = tasks, wf_edges = edges,
      wf_createdAt = w_createdAt row, wf_updatedAt = w_updatedAt row\<rparr>"

definition insert_workflow ::
    "(nat \<Rightarrow> string) \<Rightarrow> date \<Rightarrow> NewWorkflow \<Rightarrow> db \<Rightarrow> db_error + (WorkflowRow \<times> db)" where
  "insert_workflow gen now w d =
     (if 255 < length (nw_name w) then Inl StringTooLong
      else
        (let row = \<lparr>w_id = next_id gen d, w_name = nw_name w, w_description = or_null (nw_description w),
               w_triggerConfig = nw_triggerConfig w, w_createdAt = now, w_updatedAt = now\<rparr>
         in Inr (row, d\<lparr>db_workflows := db_workflows d @ [row], db_drawn := Suc (db_drawn d)\<rparr>)))"

definition insert_task ::
    "(nat \<Rightarrow> string) \<Rightarrow> string \<Rightarrow> NewTask \<Rightarrow> db \<Rightarrow> db_error + (TaskRow \<times> db)" where
  "insert_task gen workflowId t d =
     (case int_column (nt_timeoutMs t) of
        Inl err \<Rightarrow> Inl err
      | Inr timeout \<Rightarrow>
          if 255 < length (nt_name t) \<or> 50 < length (nt_type t) then Inl StringTooLong
          else if workflowId \<notin> w_id ` set (db_workflows d) then Inl ForeignKeyViolation
          else
            (let row = \<lparr>tr_id = next_id gen d, tr_workflowId = workflowId, tr_name = nt_name t,
                   tr_type = nt_type t, tr_config = nt_config t, tr_timeoutMs = timeout,
                   tr_retryPolicy = json_or_undefined (nt_retryPolicy t)\<rparr>
             in Inr (task_object row, d\<lparr>db_tasks := db_tasks d @ [row], db_drawn := Suc (db_drawn d)\<rparr>)))"

definition insert_edge ::
    "(nat \<Rightarrow> string) \<Rightarrow> string \<Rightarrow> Edge \<Rightarrow> db \<Rightarrow> db_error + (Edge \<times> db)" where
  "insert_edge gen workflowId e d =
     (let row = \<lparr>e_id = next_id gen d, e_workflowId = workflowId, sourceTaskId = sourceTaskId e,
            targetTaskId = targetTaskId e, conditionExpr = or_null (conditionExpr e)\<rparr>
      in if edge_key row \<in> edge_key ` set (db_edges d) then Inl UniqueViolation
         else if workflowId \<notin> w_id ` set (db_workflows d) \<or>
           sourceTaskId e \<notin> tr_id ` set (db_tasks d) \<or> targetTaskId e \<notin> tr_id ` set (db_tasks d)
         then Inl ForeignKeyViolation
         else Inr (edge_object row, d\<lparr>db_edges := db_edges d @ [row], db_drawn := Suc (db_drawn d)\<rparr>))"

definition select_tasks :: "string \<Rightarrow> db \<Rightarrow> TaskRow list" where
  "select_tasks workflowId d = map task_object (filter (\<lambda>r. tr_workflowId r = workflowId) (db_tasks d))"

definition select_edges :: "string \<Rightarrow> db \<Rightarrow> Edge list" where
  "select_edges workflowId d = map edge_object (filter (\<lambda>r. e_workflowId r = workflowId) (db_edges d))"

subsection \<open>Operations\<close>

definition workflow_create ::
    "(nat \<Rightarrow> string) \<Rightarrow> date \<Rightarrow> NewWorkflow \<Rightarrow> db \<Rightarrow> db_error + (Workflow \<times> db)" where
  "workflow_create gen now w d =
     bindE (insert_workflow gen now w d) (\<lambda>(row, d1).
     bindE (each (insert_task gen (w_id row)) (nw_taskDefinitions w) d1) (\<lambda>(taskDefinitions, d2).
     bindE (each (insert_edge gen (w_id row)) (nw_edges w) d2) (\<lambda>(edges, d3).
     Inr (workflow_object row taskDefinitions edges, d3))))"

definition workflow_findById :: "string \<Rightarrow> db \<Rightarrow> Workflow option" where
  "workflow_findById i d =
     (case filter (\<lambda>r. w_id r = i) (db_workflows d) of
        [] \<Rightarrow> None
      | row # _ \<Rightarrow> Some (workflow_object row (select_tasks i d) (select_edges i d)))"

definition workflow_findAll :: "int \<Rightarrow> int \<Rightarrow> db \<Rightarrow> db_error + (Workflow list \<times> nat)" where
  "workflow_findAll page pageSize d =
     (let limit = min pageSize 100; offset = (page - 1) * limit in
      bindE (slice_rows limit offset (newest_first w_createdAt (db_workflows d))) (\<lambda>rows.
      Inr (map (\<lambda>row. workflow_object row (select_tasks (w_id row) d) (select_edges (w_id row) d)) rows,
           length (db_workflows d))))"

definition delete_edges :: "(Edge \<Rightarrow> bool) \<Rightarrow> db \<Rightarrow> db" where
  "delete_edges p d = d\<lparr>db_edges := filter (\<lambda>e. \<not> p e) (db_edges d)\<rparr>"

text \<open>Deleting task definitions deletes their edges with them and fails when a task state refers to
  one of them.\<close>

definition delete_tasks :: "(TaskRow \<Rightarrow> bool) \<Rightarrow> db \<Rightarrow> db_error + db" where
  "delete_tasks p d =
     (let gone = tr_id ` {r \<in> set (db_tasks d). p r} in
      if \<exists>s \<in> set (db_states d). ts_taskDefinitionId s \<in> gone then Inl ForeignKeyViolation
      else Inr (delete_edges (\<lambda>e. sourceTaskId e \<in> gone \<or> targetTaskId e \<in> gone)
        (d\<lparr>db_tasks := filter (\<lambda>r. \<not> p r) (db_tasks d)\<rparr>)))"

definition workflow_update ::
    "(nat \<Rightarrow> string) \<Rightarrow> date \<Rightarrow> string \<Rightarrow> NewWorkflow \<Rightarrow> db \<Rightarrow> db_error + (Workflow option \<times> db)" where
  "workflow_update gen now i w d =
     (if 255 < length (nw_name w) \<and> i \<in> w_id ` set (db_workflows d) then Inl StringTooLong
      else
        (let d1 = d\<lparr>db_workflows := update_rows (\<lambda>r. w_id r = i)
              (\<lambda>r. r\<lparr>w_name := nw_name w, w_description := or_null (nw_description w),
                 w_triggerConfig := nw_triggerConfig w, w_updatedAt := now\<rparr>) (db_workflows d)\<rparr>
         in case filter (\<lambda>r. w_id r = i) (db_workflows d1) of
              [] \<Rightarrow> Inr (None, d)
            | row # _ \<Rightarrow>
                bindE (delete_tasks (\<lambda>r. tr_workflowId r = i) (delete_edges (\<lambda>e. e_workflowId e = i) d1)) (\<lambda>d2.
                bindE (each (insert_task gen i) (nw_taskDefinitions w) d2) (\<lambda>(taskDefinitions, d3).
                bindE (each (insert_edge gen i) (nw_edges w) d3) (\<lambda>(edges, d4).
                Inr (Some (workflow_object row taskDefinitions edges), d4))))))"

text \<open>Deleting a workflow deletes its tasks, edges, schedules, webhooks and SLA limits with it, and
  fails when an execution or an alert refers to it.\<close>

definition workflow_delete :: "string \<Rightarrow> db \<Rightarrow> db_error + (bool \<times> db)" where
  "workflow_delete i d =
     (if i \<notin> w_id ` set (db_workflows d) then Inr (False, d)
      else if i \<in> ex_workflowId ` set (db_executions d) \<or> i \<in> al_workflowId ` set (db_alerts d)
      then Inl ForeignKeyViolation
      else bindE (delete_tasks (\<lambda>r. tr_workflowId r = i) (delete_edges (\<lambda>e. e_workflowId e = i) d)) (\<lambda>d'.
        Inr (True, d'\<lparr>db_workflows := filter (\<lambda>r. w_id r \<noteq> i) (db_workflows d'),
               db_schedules := filter (\<lambda>r. sc_workflowId r \<noteq> i) (db_schedules d'),
               db_webhooks := filter (\<lambda>r. wh_workflowId r \<noteq> i) (db_webhooks d'),
               db_slas := filter (\<lambda>r. sla_workflowId r \<noteq> i) (db_slas d')\<rparr>)))"

definition hasActiveExecutions :: "string \<Rightarrow> db \<Rightarrow> bool" where
  "hasActiveExecutions i d =
     list_ex (\<lambda>x. ex_workflowId x = i \<and> ex_status x \<in> {ExPending, ExRunning}) (db_executions d)"

end
