(* ===== verification/WorkflowFacts.thy ===== *)
theory WorkflowFacts
  imports WorkflowRepository
begin

section \<open>What the workflow repository does\<close>

text \<open>
  The effect of each statement on the tables, the schema invariant, and the properties of the
  repository.
\<close>

subsection \<open>The schema invariant\<close>

lemmas table_defs = ids_of_def refs_of_def checks_ok_def next_id_def

lemma schema_checks: "schema_ok gen d \<Longrightarrow> checks_ok d"
  by (simp add: schema_ok_def)

lemma insert_workflow_schema:
  assumes "inj gen" "schema_ok gen d" "insert_workflow gen now w d = Inr (row, d')"
  shows "schema_ok gen d'"
  by (rule schema_insert [OF assms(1,2)])
    (use assms(3) schema_checks [OF assms(2)] in
      \<open>auto simp: insert_workflow_def Let_def table_defs split: if_splits\<close>)

lemma insert_task_schema:
  assumes "inj gen" "schema_ok gen d" "insert_task gen i t d = Inr (row, d')"
  shows "schema_ok gen d'"
  by (rule schema_insert [OF assms(1,2)])
    (use assms(3) schema_checks [OF assms(2)] in
      \<open>auto simp: insert_task_def Let_def table_defs split: if_splits sum.splits\<close>)

lemma insert_edge_schema:
  assumes "inj gen" "schema_ok gen d" "insert_edge gen i e d = Inr (row, d')"
  shows "schema_ok gen d'"
  by (rule schema_insert [OF assms(1,2)])
    (use assms(3) schema_checks [OF assms(2)] in
      \<open>auto simp: insert_edge_def Let_def table_defs split: if_splits\<close>)

lemma delete_edges_schema: "schema_ok gen d \<Longrightarrow> schema_ok gen (delete_edges p d)"
  by (frule schema_checks, erule schema_delete)
    (simp_all add: delete_edges_def table_defs distinct_map_filter set_filter_image)

lemma delete_tasks_schema:
  assumes "schema_ok gen d" "delete_tasks p d = Inr d'"
  shows "schema_ok gen d'"
proof -
  let ?gone = "tr_id ` {r \<in> set (db_tasks d). p r}"
  have free: "\<forall>s \<in> set (db_states d). ts_taskDefinitionId s \<notin> ?gone"
    and d': "d' = delete_edges (\<lambda>e. sourceTaskId e \<in> ?gone \<or> targetTaskId e \<in> ?gone)
      (d\<lparr>db_tasks := filter (\<lambda>r. \<not> p r) (db_tasks d)\<rparr>)"
    using assms(2) by (simp_all add: delete_tasks_def Let_def split: if_splits)
  show ?thesis
    by (rule schema_delete [OF assms(1)], unfold d')
      (use free schema_checks [OF assms(1)] in
        \<open>simp_all add: delete_edges_def table_defs distinct_map_filter set_filter_image list_all_iff,
         auto intro!: shrinks_keys shrinks_keys_all\<close>)
qed

lemma each_schema:
  assumes "each f xs d = Inr (rs, d')" "schema_ok gen d"
    and "\<And>x d r d'. schema_ok gen d \<Longrightarrow> f x d = Inr (r, d') \<Longrightarrow> schema_ok gen d'"
  shows "schema_ok gen d'"
  using each_invariant [OF assms(1), of "schema_ok gen"] assms(2,3) by blast

lemma workflow_create_schema:
  assumes "inj gen" "schema_ok gen d" "workflow_create gen now w d = Inr (r, d')"
  shows "schema_ok gen d'"
  using assms(3) insert_workflow_schema [OF assms(1,2)]
  by (auto simp: workflow_create_def bindE_Inr
      elim!: each_schema intro: insert_task_schema [OF assms(1)] insert_edge_schema [OF assms(1)])

lemma workflow_update_schema:
  assumes "inj gen" "schema_ok gen d" "workflow_update gen now i w d = Inr (r, d')"
  shows "schema_ok gen d'"
proof -
  define d1 where "d1 = d\<lparr>db_workflows := update_rows (\<lambda>r. w_id r = i)
    (\<lambda>r. r\<lparr>w_name := nw_name w, w_description := or_null (nw_description w),
       w_triggerConfig := nw_triggerConfig w, w_updatedAt := now\<rparr>) (db_workflows d)\<rparr>"
  have "schema_ok gen d1"
    by (rule schema_update [OF assms(2)])
      (use schema_checks [OF assms(2)] in \<open>simp_all add: d1_def table_defs map_update_rows\<close>)
  then have "schema_ok gen (delete_edges p d1)" for p by (rule delete_edges_schema)
  then show ?thesis
    using assms(2,3) unfolding workflow_update_def Let_def d1_def [symmetric]
    by (auto simp: bindE_Inr split: if_splits list.splits
        elim!: each_schema intro: insert_task_schema [OF assms(1)] insert_edge_schema [OF assms(1)] delete_tasks_schema)
qed

lemma delete_tasks_frame:
  assumes "delete_tasks p d = Inr d'"
  shows "db_tasks d' = filter (\<lambda>r. \<not> p r) (db_tasks d)" "set (db_edges d') \<subseteq> set (db_edges d)"
    "db_executions d' = db_executions d" "db_alerts d' = db_alerts d" "db_workflows d' = db_workflows d"
    "db_drawn d' = db_drawn d" "db_states d' = db_states d"
  using assms by (auto simp: delete_tasks_def delete_edges_def Let_def split: if_splits)

lemma workflow_delete_schema:
  assumes "schema_ok gen d" "workflow_delete i d = Inr (r, d')"
  shows "schema_ok gen d'"
proof (cases "i \<in> w_id ` set (db_workflows d)")
  case True
  then obtain d'' where del: "delete_tasks (\<lambda>r. tr_workflowId r = i)
      (delete_edges (\<lambda>e. e_workflowId e = i) d) = Inr d''"
    and d': "d' = d''\<lparr>db_workflows := filter (\<lambda>r. w_id r \<noteq> i) (db_workflows d''),
               db_schedules := filter (\<lambda>r. sc_workflowId r \<noteq> i) (db_schedules d''),
               db_webhooks := filter (\<lambda>r. wh_workflowId r \<noteq> i) (db_webhooks d''),
               db_slas := filter (\<lambda>r. sla_workflowId r \<noteq> i) (db_slas d'')\<rparr>"
    and free: "i \<notin> ex_workflowId ` set (db_executions d)" "i \<notin> al_workflowId ` set (db_alerts d)"
    using assms(2) by (auto simp: workflow_delete_def bindE_Inr split: if_splits)
  have ok: "schema_ok gen d''"
    using delete_tasks_schema [OF delete_edges_schema [OF assms(1)] del] .
  have gone: "\<forall>r \<in> set (db_tasks d''). tr_workflowId r \<noteq> i" "\<forall>e \<in> set (db_edges d''). e_workflowId e \<noteq> i"
    using delete_tasks_frame [OF del] by (auto simp: delete_edges_def)
  have free': "\<forall>x \<in> set (db_executions d''). ex_workflowId x \<noteq> i" "\<forall>a \<in> set (db_alerts d''). al_workflowId a \<noteq> i"
    using free delete_tasks_frame [OF del] by (auto simp: delete_edges_def)
  show ?thesis
    by (rule schema_delete [OF ok], unfold d')
      (use gone free' schema_checks [OF ok] in
        \<open>simp_all add: table_defs distinct_map_filter set_filter_image list_all_iff,
         auto intro!: shrinks_keys shrinks_keys_all\<close>)
qed (use assms in \<open>simp add: workflow_delete_def\<close>)

subsection \<open>What is stored\<close>

lemma insert_task_effect:
  assumes "insert_task gen i t d = Inr (r, d')"
  shows "\<exists>row. d' = d\<lparr>db_tasks := db_tasks d @ [row], db_drawn := Suc (db_drawn d)\<rparr> \<and>
    r = task_object row \<and> tr_workflowId row = i \<and> tr_id row = gen (db_drawn d) \<and>
    tr_name row = nt_name t \<and> tr_type row = nt_type t \<and> tr_config row = nt_config t \<and>
    Inr (tr_timeoutMs row) = int_column (nt_timeoutMs t) \<and>
    tr_retryPolicy row = json_or_undefined (nt_retryPolicy t)"
  using assms by (auto simp: insert_task_def Let_def next_id_def split: if_splits sum.splits)

lemma insert_edge_effect:
  assumes "insert_edge gen i e d = Inr (r, d')"
  shows "\<exists>row. d' = d\<lparr>db_edges := db_edges d @ [row], db_drawn := Suc (db_drawn d)\<rparr> \<and>
    r = edge_object row \<and> e_workflowId row = i \<and> sourceTaskId row = sourceTaskId e \<and>
    targetTaskId row = targetTaskId e \<and> conditionExpr row = or_null (conditionExpr e) \<and>
    sourceTaskId e \<in> tr_id ` set (db_tasks d) \<and> targetTaskId e \<in> tr_id ` set (db_tasks d)"
  using assms by (auto simp: insert_edge_def Let_def split: if_splits)

text \<open>The object of a stored task holds what was given.\<close>

definition stores_task :: "string \<Rightarrow> NewTask \<Rightarrow> TaskRow \<Rightarrow> bool" where
  "stores_task i t r \<longleftrightarrow> tr_workflowId r = i \<and> tr_name r = nt_name t \<and> tr_type r = nt_type t \<and>
     tr_config r = nt_config t \<and> Inr (tr_timeoutMs r) = int_column (nt_timeoutMs t) \<and>
     tr_retryPolicy r = json_or_undefined (nt_retryPolicy t)"

definition stores_edge :: "string \<Rightarrow> Edge \<Rightarrow> Edge \<Rightarrow> bool" where
  "stores_edge i e r \<longleftrightarrow> e_workflowId r = i \<and> sourceTaskId r = sourceTaskId e \<and>
     targetTaskId r = targetTaskId e \<and> conditionExpr r = or_null (conditionExpr e)"

lemma stores_object [simp]:
  "stores_task i t (task_object r) = (tr_workflowId r = i \<and> tr_name r = nt_name t \<and> tr_type r = nt_type t \<and>
     tr_config r = nt_config t \<and> Inr (tr_timeoutMs r) = int_column (nt_timeoutMs t) \<and>
     json_or_undefined (tr_retryPolicy r) = json_or_undefined (nt_retryPolicy t))"
  "stores_edge i e (edge_object q) = (e_workflowId q = i \<and> sourceTaskId q = sourceTaskId e \<and>
     targetTaskId q = targetTaskId e \<and> or_null (conditionExpr q) = or_null (conditionExpr e))"
  by (auto simp: stores_task_def stores_edge_def task_object_def edge_object_def)

lemma stores_task_names: "list_all2 (stores_task i) ts rs \<Longrightarrow> map tr_name rs = map nt_name ts"
  by (induction rule: list_all2_induct) (simp_all add: stores_task_def)

lemma stores_edge_ends:
  "list_all2 (stores_edge i) es rs \<Longrightarrow>
     map (\<lambda>e. (sourceTaskId e, targetTaskId e)) rs = map (\<lambda>e. (sourceTaskId e, targetTaskId e)) es"
  by (induction rule: list_all2_induct) (simp_all add: stores_edge_def)

lemma each_tasks:
  "each (insert_task gen i) ts d = Inr (rs, d') \<Longrightarrow>
     \<exists>rows. d' = d\<lparr>db_tasks := db_tasks d @ rows, db_drawn := db_drawn d + length ts\<rparr> \<and>
       rs = map task_object rows \<and> (\<forall>r \<in> set rows. tr_workflowId r = i) \<and>
       map tr_id rows = map gen [db_drawn d ..< db_drawn d + length ts] \<and> list_all2 (stores_task i) ts rs"
proof (induction ts arbitrary: d rs)
  case Nil
  then show ?case by simp
next
  case (Cons t ts)
  from Cons.prems obtain r rs' d1 where f: "insert_task gen i t d = Inr (r, d1)"
    and e: "each (insert_task gen i) ts d1 = Inr (rs', d')" and rs: "rs = r # rs'"
    unfolding each_Cons_Inr by blast
  from insert_task_effect [OF f] obtain row where
    row: "d1 = d\<lparr>db_tasks := db_tasks d @ [row], db_drawn := Suc (db_drawn d)\<rparr>" "r = task_object row"
      "tr_workflowId row = i" "tr_id row = gen (db_drawn d)" "stores_task i t r" by auto
  from Cons.IH [OF e] obtain rows where
    "d' = d1\<lparr>db_tasks := db_tasks d1 @ rows, db_drawn := db_drawn d1 + length ts\<rparr>"
    "rs' = map task_object rows" "\<forall>r \<in> set rows. tr_workflowId r = i"
    "map tr_id rows = map gen [db_drawn d1 ..< db_drawn d1 + length ts]" "list_all2 (stores_task i) ts rs'" by blast
  then show ?case using row rs
    by (intro exI [of _ "row # rows"]) (simp add: upt_conv_Cons del: upt_Suc)
qed

lemma each_edges:
  "each (insert_edge gen i) es d = Inr (rs, d') \<Longrightarrow>
     \<exists>rows. d' = d\<lparr>db_edges := db_edges d @ rows, db_drawn := db_drawn d + length es\<rparr> \<and>
       rs = map edge_object rows \<and> (\<forall>r \<in> set rows. e_workflowId r = i) \<and> list_all2 (stores_edge i) es rs \<and>
       (\<forall>e \<in> set es. sourceTaskId e \<in> tr_id ` set (db_tasks d) \<and> targetTaskId e \<in> tr_id ` set (db_tasks d))"
proof (induction es arbitrary: d rs)
  case Nil
  then show ?case by simp
next
  case (Cons e es)
  from Cons.prems obtain r rs' d1 where f: "insert_edge gen i e d = Inr (r, d1)"
    and ea: "each (insert_edge gen i) es d1 = Inr (rs', d')" and rs: "rs = r # rs'"
    unfolding each_Cons_Inr by blast
  from insert_edge_effect [OF f] obtain row where
    row: "d1 = d\<lparr>db_edges := db_edges d @ [row], db_drawn := Suc (db_drawn d)\<rparr>" "r = edge_object row"
      "e_workflowId row = i" "stores_edge i e r"
      "sourceTaskId e \<in> tr_id ` set (db_tasks d)" "targetTaskId e \<in> tr_id ` set (db_tasks d)" by auto
  from Cons.IH [OF ea] obtain rows where
    "d' = d1\<lparr>db_edges := db_edges d1 @ rows, db_drawn := db_drawn d1 + length es\<rparr>"
    "rs' = map edge_object rows" "\<forall>r \<in> set rows. e_workflowId r = i" "list_all2 (stores_edge i) es rs'"
    "\<forall>e \<in> set es. sourceTaskId e \<in> tr_id ` set (db_tasks d1) \<and> targetTaskId e \<in> tr_id ` set (db_tasks d1)"
    by blast
  then show ?case using row rs
    by (intro exI [of _ "row # rows"]) simp
qed

lemma workflow_create_effect:
  assumes "workflow_create gen now w d = Inr (r, d')"
  shows "\<exists>row tasks edges.
    d' = d\<lparr>db_workflows := db_workflows d @ [row], db_tasks := db_tasks d @ tasks, db_edges := db_edges d @ edges,
        db_drawn := Suc (db_drawn d) + length (nw_taskDefinitions w) + length (nw_edges w)\<rparr> \<and>
    w_id row = gen (db_drawn d) \<and> w_name row = nw_name w \<and> w_description row = or_null (nw_description w) \<and>
    w_triggerConfig row = nw_triggerConfig w \<and> w_createdAt row = now \<and> w_updatedAt row = now \<and>
    r = workflow_object row (map task_object tasks) (map edge_object edges) \<and>
    (\<forall>t \<in> set tasks. tr_workflowId t = w_id row) \<and> (\<forall>e \<in> set edges. e_workflowId e = w_id row) \<and>
    map tr_id tasks = map gen [Suc (db_drawn d) ..< Suc (db_drawn d) + length (nw_taskDefinitions w)] \<and>
    list_all2 (stores_task (w_id row)) (nw_taskDefinitions w) (map task_object tasks) \<and>
    list_all2 (stores_edge (w_id row)) (nw_edges w) (map edge_object edges) \<and>
    (\<forall>e \<in> set (nw_edges w). {sourceTaskId e, targetTaskId e} \<subseteq> tr_id ` set (db_tasks d @ tasks))"
proof -
  obtain row d1 ts d2 es where w: "insert_workflow gen now w d = Inr (row, d1)"
    and t: "each (insert_task gen (w_id row)) (nw_taskDefinitions w) d1 = Inr (ts, d2)"
    and e: "each (insert_edge gen (w_id row)) (nw_edges w) d2 = Inr (es, d')"
    and r: "r = workflow_object row ts es"
    using assms by (auto simp: workflow_create_def bindE_Inr)
  have row: "d1 = d\<lparr>db_workflows := db_workflows d @ [row], db_drawn := Suc (db_drawn d)\<rparr>"
      "w_id row = gen (db_drawn d)" "w_name row = nw_name w" "w_description row = or_null (nw_description w)"
      "w_triggerConfig row = nw_triggerConfig w" "w_createdAt row = now" "w_updatedAt row = now"
    using w by (auto simp: insert_workflow_def Let_def next_id_def split: if_splits)
  from each_tasks [OF t] obtain tasks where tasks:
      "d2 = d1\<lparr>db_tasks := db_tasks d1 @ tasks, db_drawn := db_drawn d1 + length (nw_taskDefinitions w)\<rparr>"
      "ts = map task_object tasks" "\<forall>t \<in> set tasks. tr_workflowId t = w_id row"
      "map tr_id tasks = map gen [db_drawn d1 ..< db_drawn d1 + length (nw_taskDefinitions w)]"
      "list_all2 (stores_task (w_id row)) (nw_taskDefinitions w) ts" by blast
  from each_edges [OF e] obtain edges where edges:
      "d' = d2\<lparr>db_edges := db_edges d2 @ edges, db_drawn := db_drawn d2 + length (nw_edges w)\<rparr>"
      "es = map edge_object edges" "\<forall>e \<in> set edges. e_workflowId e = w_id row"
      "list_all2 (stores_edge (w_id row)) (nw_edges w) es"
      "\<forall>e \<in> set (nw_edges w). sourceTaskId e \<in> tr_id ` set (db_tasks d2) \<and> targetTaskId e \<in> tr_id ` set (db_tasks d2)"
    by blast
  show ?thesis
    by (intro exI [of _ row] exI [of _ tasks] exI [of _ edges]) (use row tasks edges r in simp)
qed

lemma schema_refs_workflow:
  assumes "schema_ok gen d"
  shows "r \<in> set (db_tasks d) \<Longrightarrow> tr_workflowId r \<in> w_id ` set (db_workflows d)"
    "e \<in> set (db_edges d) \<Longrightarrow> e_workflowId e \<in> w_id ` set (db_workflows d)"
  using assms by (auto simp: schema_ok_def refs_ok_def refs_of_def)

lemma schema_new_workflow:
  assumes "inj gen" "schema_ok gen d"
  shows "gen (db_drawn d) \<notin> w_id ` set (db_workflows d)"
  using schema_fresh [OF assms, of "map w_id (db_workflows d)"] by (auto simp: ids_of_def)

lemma workflow_create_found:
  assumes "inj gen" "schema_ok gen d" "workflow_create gen now w d = Inr (r, d')"
  shows "workflow_findById (wf_id r) d' = Some r \<and> workflow_findById (wf_id r) d = None \<and>
    (\<forall>i. i \<noteq> wf_id r \<longrightarrow> workflow_findById i d' = workflow_findById i d)"
proof -
  from workflow_create_effect [OF assms(3)] obtain row tasks edges where
    d': "d' = d\<lparr>db_workflows := db_workflows d @ [row], db_tasks := db_tasks d @ tasks, db_edges := db_edges d @ edges,
        db_drawn := Suc (db_drawn d) + length (nw_taskDefinitions w) + length (nw_edges w)\<rparr>"
    and r: "r = workflow_object row (map task_object tasks) (map edge_object edges)"
    and row: "w_id row = gen (db_drawn d)"
    and own: "\<forall>t \<in> set tasks. tr_workflowId t = w_id row" "\<forall>e \<in> set edges. e_workflowId e = w_id row"
    by blast
  have new: "w_id row \<notin> w_id ` set (db_workflows d)"
    using schema_new_workflow [OF assms(1,2)] row by simp
  have old: "filter (\<lambda>t. tr_workflowId t = w_id row) (db_tasks d) = []"
      "filter (\<lambda>e. e_workflowId e = w_id row) (db_edges d) = []"
      "filter (\<lambda>q. w_id q = w_id row) (db_workflows d) = []"
    unfolding filter_empty_conv using schema_refs_workflow [OF assms(2)] new by (metis image_eqI)+
  have other: "filter (\<lambda>t. tr_workflowId t = i) tasks = [] \<and> filter (\<lambda>e. e_workflowId e = i) edges = []"
    if "i \<noteq> w_id row" for i
    using own that by (auto simp: filter_empty_conv)
  have "workflow_findById i d' = workflow_findById i d" if "i \<noteq> w_id row" for i
  proof -
    have "select_tasks i d' = select_tasks i d" "select_edges i d' = select_edges i d"
      using other [OF that] by (simp_all add: d' select_tasks_def select_edges_def)
    moreover have "filter (\<lambda>q. w_id q = i) (db_workflows d') = filter (\<lambda>q. w_id q = i) (db_workflows d)"
      using that by (simp add: d')
    ultimately show ?thesis by (simp add: workflow_findById_def split: list.split)
  qed
  moreover have "workflow_findById (w_id row) d' = Some r" "workflow_findById (w_id row) d = None"
    using old own by (simp_all add: d' r workflow_findById_def select_tasks_def select_edges_def)
  ultimately show ?thesis by (simp add: r workflow_object_def)
qed

text \<open>An edge is stored only between the ids of stored tasks.\<close>

lemma workflow_create_refuses:
  assumes "e \<in> set (nw_edges w)"
    and "sourceTaskId e \<notin> tr_id ` set (db_tasks d) \<union> range gen \<or> targetTaskId e \<notin> tr_id ` set (db_tasks d) \<union> range gen"
  shows "\<exists>err. workflow_create gen now w d = Inl err"
proof (cases "workflow_create gen now w d")
  case (Inr q)
  then obtain r d' where "workflow_create gen now w d = Inr (r, d')" by (cases q) simp
  from workflow_create_effect [OF this] obtain tasks where
    ids: "map tr_id tasks = map gen [Suc (db_drawn d) ..< Suc (db_drawn d) + length (nw_taskDefinitions w)]"
    and refs: "\<forall>e \<in> set (nw_edges w). {sourceTaskId e, targetTaskId e} \<subseteq> tr_id ` set (db_tasks d @ tasks)" by blast
  have "tr_id ` set tasks \<subseteq> range gen"
    using arg_cong [OF ids, of set] by auto
  then have "tr_id ` set (db_tasks d @ tasks) \<subseteq> tr_id ` set (db_tasks d) \<union> range gen" by auto
  moreover have "{sourceTaskId e, targetTaskId e} \<subseteq> tr_id ` set (db_tasks d @ tasks)"
    using refs assms(1) by (rule bspec)
  ultimately have "{sourceTaskId e, targetTaskId e} \<subseteq> tr_id ` set (db_tasks d) \<union> range gen" by (rule order_trans [rotated])
  then have False using assms(2) by simp
  then show ?thesis ..
qed simp

subsection \<open>Pages\<close>

lemma concat_slices: "concat (map (\<lambda>p. take k (drop (p * k) xs)) [0 ..< n]) = take (n * k) xs"
proof (induction n)
  case (Suc n)
  have "take (n * k) xs @ take k (drop (n * k) xs) = take (n * k + k) xs" by (simp add: take_add)
  then show ?case using Suc.IH by (simp add: add.commute)
qed simp

text \<open>The rows of a page, and the pages together.\<close>

definition page_rows :: "int \<Rightarrow> int \<Rightarrow> 'r list \<Rightarrow> db_error + 'r list" where
  "page_rows page pageSize rows = (let limit = min pageSize 100 in slice_rows limit ((page - 1) * limit) rows)"

lemma page_rows_slice:
  assumes "1 \<le> pageSize" "(int p + 1) * min pageSize 100 \<le> 9223372036854775807"
  shows "page_rows (int p + 1) pageSize rows =
    Inr (take (nat (min pageSize 100)) (drop (p * nat (min pageSize 100)) rows))"
proof -
  define k where "k = min pageSize 100"
  have k: "1 \<le> k" "k \<le> 100" using assms(1) by (auto simp: k_def)
  have "int p * k \<le> 9223372036854775807" using assms(2) k by (simp add: k_def [symmetric] algebra_simps)
  moreover have "0 \<le> int p * k" using k by simp
  moreover have "nat (int p * k) = p * nat k" using k by (simp add: nat_mult_distrib)
  ultimately show ?thesis
    using k by (simp add: page_rows_def slice_rows_def Let_def k_def [symmetric] mult_less_0_iff)
qed

lemma pages_cover:
  assumes "1 \<le> pageSize" "int n * min pageSize 100 \<le> 9223372036854775807"
    "int (length rows) \<le> int n * min pageSize 100"
  shows "\<exists>ps. map (\<lambda>p. page_rows (int p + 1) pageSize rows) [0 ..< n] = map Inr ps \<and> concat ps = rows"
proof -
  define k where "k = nat (min pageSize 100)"
  have k: "int k = min pageSize 100" using assms(1) by (simp add: k_def)
  have "page_rows (int p + 1) pageSize rows = Inr (take k (drop (p * k) rows))" if "p < n" for p
  proof -
    have "(int p + 1) * min pageSize 100 \<le> int n * min pageSize 100"
      using that assms(1) by (intro mult_right_mono) simp_all
    from page_rows_slice [OF assms(1) order_trans [OF this assms(2)]] show ?thesis by (simp only: k_def)
  qed
  moreover have "concat (map (\<lambda>p. take k (drop (p * k) rows)) [0 ..< n]) = rows"
    using assms(3) unfolding concat_slices k [symmetric] by (simp flip: of_nat_mult)
  ultimately show ?thesis
    by (intro exI [of _ "map (\<lambda>p. take k (drop (p * k) rows)) [0 ..< n]"]) simp
qed

subsection \<open>Properties\<close>

definition sample_task :: "string \<Rightarrow> NewTask" where
  "sample_task n = \<lparr>nt_name = n, nt_type = ''delay'', nt_config = JObj [], nt_timeoutMs = Fin 300000,
     nt_retryPolicy = None\<rparr>"

definition sample_workflow :: "string list \<Rightarrow> Edge list \<Rightarrow> NewWorkflow" where
  "sample_workflow ts es = \<lparr>nw_name = ''w'', nw_description = None, nw_triggerConfig = JObj [],
     nw_taskDefinitions = map sample_task ts, nw_edges = es\<rparr>"

text \<open>
  C35: A workflow that was created is found under its new id, with the name, the description, the
  trigger, the tasks and the edges that were given, in their order, and nothing stored before is
  changed.
\<close>

theorem workflow_roundtrip:
  assumes "inj gen" "schema_ok gen d" "workflow_create gen now w d = Inr (r, d')"
  shows "workflow_findById (wf_id r) d' = Some r \<and> workflow_findById (wf_id r) d = None \<and>
    wf_name r = nw_name w \<and> wf_description r = or_null (nw_description w) \<and>
    wf_triggerConfig r = nw_triggerConfig w \<and>
    list_all2 (stores_task (wf_id r)) (nw_taskDefinitions w) (wf_taskDefinitions r) \<and>
    list_all2 (stores_edge (wf_id r)) (nw_edges w) (wf_edges r) \<and>
    (\<forall>i. i \<noteq> wf_id r \<longrightarrow> workflow_findById i d' = workflow_findById i d)"
  using workflow_create_found [OF assms] workflow_create_effect [OF assms(3)]
  by (auto simp: workflow_object_def)

theorem workflow_roundtrip_witness:
  "let r = projl (case workflow_create sample_gen 5 (sample_workflow [''a'', ''b''] []) empty_db of
       Inr (r, d') \<Rightarrow> Inl (r, d') | Inl e \<Rightarrow> Inr e)
   in workflow_findById (wf_id (fst r)) (snd r) = Some (fst r) \<and> length (wf_taskDefinitions (fst r)) = 2"
proof -
  obtain r d' where c: "workflow_create sample_gen 5 (sample_workflow [''a'', ''b''] []) empty_db = Inr (r, d')"
    by (simp add: workflow_create_def insert_workflow_def insert_task_def sample_workflow_def sample_task_def
        int_column_def empty_db_def Let_def)
  show ?thesis
    using workflow_roundtrip [OF inj_sample_gen schema_ok_empty c] c
    by (auto simp: sample_workflow_def dest: list_all2_lengthD)
qed

text \<open>
  The pages of a listing, read one after the other, hold every workflow exactly once, the newest
  first.
\<close>

theorem workflow_pages:
  assumes "1 \<le> pageSize" "int n * min pageSize 100 \<le> 9223372036854775807"
    and "int (length (db_workflows d)) \<le> int n * min pageSize 100"
  shows "\<exists>pages. map (\<lambda>p. workflow_findAll (int p + 1) pageSize d) [0 ..< n] =
      map (\<lambda>ws. Inr (ws, length (db_workflows d))) pages \<and>
    map wf_id (concat pages) = map w_id (newest_first w_createdAt (db_workflows d))"
proof -
  define obj where "obj = (\<lambda>row. workflow_object row (select_tasks (w_id row) d) (select_edges (w_id row) d))"
  have all: "workflow_findAll page pageSize d =
      bindE (page_rows page pageSize (newest_first w_createdAt (db_workflows d)))
        (\<lambda>rows. Inr (map obj rows, length (db_workflows d)))" for page
    by (simp add: workflow_findAll_def page_rows_def Let_def obj_def)
  have len: "int (length (newest_first w_createdAt (db_workflows d))) \<le> int n * min pageSize 100"
    using assms(3) by (simp add: newest_first_def)
  obtain ps where ps: "map (\<lambda>p. page_rows (int p + 1) pageSize (newest_first w_createdAt (db_workflows d))) [0 ..< n]
      = map Inr ps" "concat ps = newest_first w_createdAt (db_workflows d)"
    using pages_cover [OF assms(1,2) len] by blast
  have "map (\<lambda>p. workflow_findAll (int p + 1) pageSize d) [0 ..< n] =
      map (\<lambda>q. bindE q (\<lambda>rows. Inr (map obj rows, length (db_workflows d))))
        (map (\<lambda>p. page_rows (int p + 1) pageSize (newest_first w_createdAt (db_workflows d))) [0 ..< n])"
    by (simp add: all)
  also have "\<dots> = map (\<lambda>ws. Inr (ws, length (db_workflows d))) (map (map obj) ps)"
    by (simp only: ps(1)) simp
  finally have "map (\<lambda>p. workflow_findAll (int p + 1) pageSize d) [0 ..< n] =
      map (\<lambda>ws. Inr (ws, length (db_workflows d))) (map (map obj) ps)" .
  moreover have "map wf_id (concat (map (map obj) ps)) = map w_id (concat ps)"
    by (simp add: map_concat obj_def workflow_object_def comp_def)
  ultimately show ?thesis using ps(2) by metis
qed

theorem workflow_pages_witness:
  "\<exists>pages. map (\<lambda>p. workflow_findAll (int p + 1) 1 (empty_db\<lparr>db_workflows :=
       [\<lparr>w_id = ''old'', w_name = [], w_description = None, w_triggerConfig = JNull, w_createdAt = 1, w_updatedAt = 1\<rparr>,
        \<lparr>w_id = ''new'', w_name = [], w_description = None, w_triggerConfig = JNull, w_createdAt = 2, w_updatedAt = 2\<rparr>]\<rparr>)) [0 ..< 2] =
      map (\<lambda>ws. Inr (ws, 2)) pages \<and> map wf_id (concat pages) = [''new'', ''old'']"
  using workflow_pages [of 1 2 "empty_db\<lparr>db_workflows :=
       [\<lparr>w_id = ''old'', w_name = [], w_description = None, w_triggerConfig = JNull, w_createdAt = 1, w_updatedAt = 1\<rparr>,
        \<lparr>w_id = ''new'', w_name = [], w_description = None, w_triggerConfig = JNull, w_createdAt = 2, w_updatedAt = 2\<rparr>]\<rparr>"]
  by (simp add: newest_first_def numeral_2_eq_2)

lemma workflow_delete_executed:
  "i \<in> w_id ` set (db_workflows d) \<Longrightarrow> x \<in> set (db_executions d) \<Longrightarrow> ex_workflowId x = i \<Longrightarrow>
     workflow_delete i d = Inl ForeignKeyViolation"
  by (auto simp: workflow_delete_def)

lemma workflow_delete_missing: "i \<notin> w_id ` set (db_workflows d) \<Longrightarrow> workflow_delete i d = Inr (False, d)"
  by (simp add: workflow_delete_def)

lemma workflow_delete_found:
  assumes "workflow_delete i d = Inr (b, d')"
  shows "(b \<longleftrightarrow> i \<in> w_id ` set (db_workflows d)) \<and> workflow_findById i d' = None"
proof -
  have "filter (\<lambda>r. w_id r = i) (db_workflows d') = [] \<and> (b \<longleftrightarrow> i \<in> w_id ` set (db_workflows d))"
    using assms by (auto simp: workflow_delete_def bindE_Inr filter_empty_conv split: if_splits)
  then show ?thesis by (simp add: workflow_findById_def)
qed

end
