(* ===== verification/ExecutionRepository.thy ===== *)
theory ExecutionRepository
  imports WorkflowFacts
begin

section \<open>Executions, task states and dead letters (repositories of services/scheduler-api)\<close>

text \<open>
  The classes \<open>ExecutionRepository\<close>, \<open>TaskStateRepository\<close> and \<open>DlqRepository\<close>.  A row and the
  object made from it have the same type; \<open>v || undefined\<close> drops an empty error text and a false
  JSON value.  An optional argument is an option.
\<close>

subsection \<open>execution-repository.ts\<close>

definition execution_object :: "Execution \<Rightarrow> Execution" where
  "execution_object row = row\<lparr>ex_input := json_or_undefined (ex_input row)\<rparr>"

definition state_object :: "TaskState \<Rightarrow> TaskState" where
  "state_object r = r\<lparr>ts_output := json_or_undefined (ts_output r), ts_error := or_null (ts_error r)\<rparr>"

lemma state_object_simps [simp]:
  "ts_id (state_object r) = ts_id r" "ts_executionId (state_object r) = ts_executionId r"
  "ts_taskDefinitionId (state_object r) = ts_taskDefinitionId r" "ts_status (state_object r) = ts_status r"
  "ts_attemptCount (state_object r) = ts_attemptCount r"
  by (simp_all add: state_object_def)

definition insert_execution :: "Execution \<Rightarrow> db \<Rightarrow> db_error + (Execution \<times> db)" where
  "insert_execution row d =
     (if ex_workflowId row \<notin> w_id ` set (db_workflows d) then Inl ForeignKeyViolation
      else Inr (row, d\<lparr>db_executions := db_executions d @ [row], db_drawn := Suc (db_drawn d)\<rparr>))"

definition execution_create ::
    "(nat \<Rightarrow> string) \<Rightarrow> date \<Rightarrow> string \<Rightarrow> jsval option \<Rightarrow> db \<Rightarrow> db_error + (Execution \<times> db)" where
  "execution_create gen now workflowId input d =
     bindE (insert_execution
        \<lparr>ex_id = next_id gen d, ex_workflowId = workflowId, ex_status = ExPending,
         ex_input = json_or_undefined input, ex_startedAt = None, ex_completedAt = None, ex_createdAt = now\<rparr> d)
       (\<lambda>(row, d'). Inr (execution_object row, d'))"

definition select_states :: "string \<Rightarrow> db \<Rightarrow> TaskState list" where
  "select_states executionId d = map state_object (filter (\<lambda>r. ts_executionId r = executionId) (db_states d))"

definition execution_findById :: "string \<Rightarrow> db \<Rightarrow> (Execution \<times> TaskState list) option" where
  "execution_findById i d =
     (case filter (\<lambda>r. ex_id r = i) (db_executions d) of
        [] \<Rightarrow> None
      | row # _ \<Rightarrow> Some (execution_object row, select_states i d))"

definition set_execution :: "string \<Rightarrow> (Execution \<Rightarrow> Execution) \<Rightarrow> db \<Rightarrow> db" where
  "set_execution i f d = d\<lparr>db_executions := update_rows (\<lambda>r. ex_id r = i) f (db_executions d)\<rparr>"

definition execution_updateStatus ::
    "date \<Rightarrow> string \<Rightarrow> ExecutionStatus \<Rightarrow> date option \<Rightarrow> db \<Rightarrow> bool \<times> db" where
  "execution_updateStatus now i status timestamp d =
     (let t = (case timestamp of Some t \<Rightarrow> t | None \<Rightarrow> now);
          f = (if status = ExRunning then (\<lambda>r. r\<lparr>ex_status := status, ex_startedAt := Some t\<rparr>)
               else if status \<in> {ExCompleted, ExFailed, ExCancelled}
               then (\<lambda>r. r\<lparr>ex_status := status, ex_completedAt := Some t\<rparr>)
               else (\<lambda>r. r\<lparr>ex_status := status\<rparr>))
      in (0 < row_count (\<lambda>r. ex_id r = i) (db_executions d), set_execution i f d))"

definition execution_findByWorkflowId :: "string \<Rightarrow> ExecutionStatus option \<Rightarrow> db \<Rightarrow> Execution list" where
  "execution_findByWorkflowId workflowId status d =
     map execution_object (newest_first ex_createdAt
       (filter (\<lambda>r. ex_workflowId r = workflowId \<and> (case status of None \<Rightarrow> True | Some s \<Rightarrow> ex_status r = s))
          (db_executions d)))"

subsection \<open>task-state-repository.ts\<close>

definition insert_state ::
    "(nat \<Rightarrow> string) \<Rightarrow> string \<Rightarrow> string \<Rightarrow> db \<Rightarrow> db_error + (TaskState \<times> db)" where
  "insert_state gen executionId taskDefId d =
     (if executionId \<notin> ex_id ` set (db_executions d) \<or> taskDefId \<notin> tr_id ` set (db_tasks d)
      then Inl ForeignKeyViolation
      else
        (let row = \<lparr>ts_id = next_id gen d, ts_executionId = executionId, ts_taskDefinitionId = taskDefId,
               ts_status = Pending, ts_attemptCount = 0, ts_output = None, ts_error = None,
               ts_startedAt = None, ts_completedAt = None\<rparr>
         in Inr (state_object row, d\<lparr>db_states := db_states d @ [row], db_drawn := Suc (db_drawn d)\<rparr>)))"

definition createBatch ::
    "(nat \<Rightarrow> string) \<Rightarrow> string \<Rightarrow> TaskRow list \<Rightarrow> db \<Rightarrow> db_error + (TaskState list \<times> db)" where
  "createBatch gen executionId taskDefinitions d =
     each (\<lambda>taskDef. insert_state gen executionId (tr_id taskDef)) taskDefinitions d"

definition findByExecutionId :: "string \<Rightarrow> db \<Rightarrow> TaskState list" where
  "findByExecutionId executionId d = select_states executionId d"

definition set_state :: "string \<Rightarrow> (TaskState \<Rightarrow> TaskState) \<Rightarrow> db \<Rightarrow> db" where
  "set_state i f d = d\<lparr>db_states := update_rows (\<lambda>r. ts_id r = i) f (db_states d)\<rparr>"

definition state_updateStatus ::
    "date \<Rightarrow> string \<Rightarrow> TaskStatus \<Rightarrow> jsval option \<Rightarrow> string option \<Rightarrow> db \<Rightarrow> bool \<times> db" where
  "state_updateStatus now i status output err d =
     (let f = (if status = Running
               then (\<lambda>r. r\<lparr>ts_status := status, ts_startedAt := Some now, ts_attemptCount := ts_attemptCount r + 1\<rparr>)
               else if status = Completed
               then (\<lambda>r. r\<lparr>ts_status := status, ts_output := json_or_undefined output, ts_completedAt := Some now\<rparr>)
               else if status \<in> {Failed, TimedOut}
               then (\<lambda>r. r\<lparr>ts_status := status, ts_error := or_null err, ts_completedAt := Some now\<rparr>)
               else (\<lambda>r. r\<lparr>ts_status := status\<rparr>))
      in (0 < row_count (\<lambda>r. ts_id r = i) (db_states d), set_state i f d))"

definition createAuditEntry ::
    "(nat \<Rightarrow> string) \<Rightarrow> date \<Rightarrow> string \<Rightarrow> TaskStatus \<Rightarrow> TaskStatus \<Rightarrow> db \<Rightarrow> db_error + db" where
  "createAuditEntry gen now taskStateId previousState newState d =
     (if taskStateId \<notin> ts_id ` set (db_states d) then Inl ForeignKeyViolation
      else Inr (d\<lparr>db_audit := db_audit d @ [\<lparr>au_id = next_id gen d, au_taskStateId = taskStateId,
          au_previousState = previousState, au_newState = newState, au_timestamp = now\<rparr>],
        db_drawn := Suc (db_drawn d)\<rparr>))"

subsection \<open>dlq-repository.ts\<close>

definition insert_dead_letter ::
    "(nat \<Rightarrow> string) \<Rightarrow> date \<Rightarrow> string \<Rightarrow> string \<Rightarrow> string option \<Rightarrow> int \<Rightarrow> db \<Rightarrow> db_error + (DeadLetterEntry \<times> db)" where
  "insert_dead_letter gen now taskStateId executionId err attempts d =
     (if taskStateId \<notin> ts_id ` set (db_states d) \<or> executionId \<notin> ex_id ` set (db_executions d)
      then Inl ForeignKeyViolation
      else
        (let row = \<lparr>dl_id = next_id gen d, dl_taskStateId = taskStateId, dl_executionId = executionId,
               dl_error = err, dl_attempts = attempts, dl_createdAt = now\<rparr>
         in Inr (row, d\<lparr>db_dlq := db_dlq d @ [row], db_drawn := Suc (db_drawn d)\<rparr>)))"

definition dlq_object :: "DeadLetterEntry \<Rightarrow> DeadLetterEntry" where
  "dlq_object row = row\<lparr>dl_error := or_null (dl_error row)\<rparr>"

definition dlq_insert ::
    "(nat \<Rightarrow> string) \<Rightarrow> date \<Rightarrow> string \<Rightarrow> string \<Rightarrow> string option \<Rightarrow> int \<Rightarrow> db \<Rightarrow> db_error + (DeadLetterEntry \<times> db)" where
  "dlq_insert gen now taskStateId executionId err attempts d =
     bindE (insert_dead_letter gen now taskStateId executionId err attempts d) (\<lambda>(row, d'). Inr (dlq_object row, d'))"

definition dlq_findAll :: "int \<Rightarrow> int \<Rightarrow> db \<Rightarrow> db_error + (DeadLetterEntry list \<times> nat)" where
  "dlq_findAll page pageSize d =
     (let limit = min pageSize 100; offset = (page - 1) * limit in
      bindE (slice_rows limit offset (newest_first dl_createdAt (db_dlq d))) (\<lambda>rows.
      Inr (map dlq_object rows, length (db_dlq d))))"

subsection \<open>The schema invariant\<close>

lemma insert_execution_schema:
  assumes "inj gen" "schema_ok gen d" "insert_execution row d = Inr (r, d')" "ex_id row = next_id gen d"
  shows "schema_ok gen d'"
  by (rule schema_insert [OF assms(1,2)])
    (use assms(3,4) schema_checks [OF assms(2)] in
      \<open>auto simp: insert_execution_def table_defs split: if_splits\<close>)

lemma execution_create_schema:
  assumes "inj gen" "schema_ok gen d" "execution_create gen now i input d = Inr (r, d')"
  shows "schema_ok gen d'"
  using assms(3) by (auto simp: execution_create_def bindE_Inr elim!: insert_execution_schema [OF assms(1,2)])

lemma insert_state_schema:
  assumes "inj gen" "schema_ok gen d" "insert_state gen e t d = Inr (r, d')"
  shows "schema_ok gen d'"
  by (rule schema_insert [OF assms(1,2)])
    (use assms(3) schema_checks [OF assms(2)] in
      \<open>auto simp: insert_state_def Let_def table_defs split: if_splits\<close>)

lemma createBatch_schema:
  assumes "inj gen" "schema_ok gen d" "createBatch gen e ts d = Inr (rs, d')"
  shows "schema_ok gen d'"
  using each_schema [OF assms(3) [unfolded createBatch_def] assms(2)] insert_state_schema [OF assms(1)] by blast

lemma set_execution_schema:
  assumes "schema_ok gen d" "\<And>r. ex_id (f r) = ex_id r \<and> ex_workflowId (f r) = ex_workflowId r"
  shows "schema_ok gen (set_execution i f d)"
  by (rule schema_update [OF assms(1)])
    (use assms(2) schema_checks [OF assms(1)] in \<open>simp_all add: set_execution_def table_defs map_update_rows\<close>)

lemma set_state_schema:
  assumes "schema_ok gen d"
    "\<And>r. ts_id (f r) = ts_id r \<and> ts_executionId (f r) = ts_executionId r \<and> ts_taskDefinitionId (f r) = ts_taskDefinitionId r"
  shows "schema_ok gen (set_state i f d)"
  by (rule schema_update [OF assms(1)])
    (use assms(2) schema_checks [OF assms(1)] in \<open>simp_all add: set_state_def table_defs map_update_rows\<close>)

lemma execution_updateStatus_schema:
  "schema_ok gen d \<Longrightarrow> schema_ok gen (snd (execution_updateStatus now i s t d))"
  by (auto simp: execution_updateStatus_def Let_def intro!: set_execution_schema)

lemma state_updateStatus_schema:
  "schema_ok gen d \<Longrightarrow> schema_ok gen (snd (state_updateStatus now i s out err d))"
  by (auto simp: state_updateStatus_def Let_def intro!: set_state_schema)

lemma createAuditEntry_schema:
  assumes "inj gen" "schema_ok gen d" "createAuditEntry gen now i a b d = Inr d'"
  shows "schema_ok gen d'"
  by (rule schema_insert [OF assms(1,2)])
    (use assms(3) schema_checks [OF assms(2)] in
      \<open>auto simp: createAuditEntry_def table_defs split: if_splits\<close>)

lemma insert_dead_letter_schema:
  assumes "inj gen" "schema_ok gen d" "insert_dead_letter gen now i x err n d = Inr (r, d')"
  shows "schema_ok gen d'"
  by (rule schema_insert [OF assms(1,2)])
    (use assms(3) schema_checks [OF assms(2)] in
      \<open>auto simp: insert_dead_letter_def Let_def table_defs split: if_splits\<close>)

end
