(* ===== verification/RetryHandler.thy ===== *)
theory RetryHandler
  imports TaskClaimer RetryEngine StateMachine ExecutionRepository
begin

section \<open>Failed tasks (services/executor-service/src/services/retry-handler.ts)\<close>

text \<open>
  The executor's world is the database, the server, its claimer and the clock \<open>Date.now()\<close>.  What
  surrounds it is the parameter \<open>executor_env\<close>: the Redis commands, the ids the database draws, the
  executor's id, and \<open>xe_sleep\<close>, the state of the world after a \<open>setTimeout\<close> of the given length,
  with everything that happens meanwhile (the claimer's renewals, other executors, requests).

  \<open>wait_loop\<close> is the loop of \<open>waitWithLockRenewal\<close>, which ends only if the clock advances, so not
  returning is the value \<^const>\<open>None\<close>.  An operation ends with \<open>Finished\<close> or throws the error of a
  statement; what it has written before stays.
\<close>

record 's world =
  wd_db :: db
  wd_redis :: 's
  wd_claimer :: claimer
  wd_now :: date

record 's executor_env =
  xe_redis :: "'s redis"
  xe_gen :: "nat \<Rightarrow> string"
  xe_executorId :: string
  xe_sleep :: "jsnum \<Rightarrow> 's world \<Rightarrow> 's world"

datatype outcome = Finished | Threw db_error

text \<open>The claimer's operations on the world.\<close>

definition release_current :: "'s executor_env \<Rightarrow> 's world \<Rightarrow> 's world" where
  "release_current E w =
     (let (c, s) = releaseCurrentTask (xe_redis E) (wd_claimer w, wd_redis w)
      in w\<lparr>wd_claimer := c, wd_redis := s\<rparr>)"

definition clear_current :: "'s world \<Rightarrow> 's world" where
  "clear_current w = w\<lparr>wd_claimer := clearCurrentTask (wd_claimer w)\<rparr>"

definition aborted :: "'s world \<Rightarrow> bool" where
  "aborted w = isCurrentTaskAborted (wd_claimer w)"

definition write_state :: "string \<Rightarrow> (TaskState \<Rightarrow> TaskState) \<Rightarrow> 's world \<Rightarrow> 's world" where
  "write_state i f w = w\<lparr>wd_db := set_state i f (wd_db w)\<rparr>"

subsection \<open>The handler\<close>

definition mark_failed :: "string \<Rightarrow> TaskStatus \<Rightarrow> string option \<Rightarrow> 's world \<Rightarrow> 's world" where
  "mark_failed taskStateId status err w =
     write_state taskStateId (\<lambda>r. r\<lparr>ts_status := status, ts_completedAt := Some (wd_now w),
       ts_error := (case err of Some e \<Rightarrow> Some e | None \<Rightarrow> ts_error r)\<rparr>) w"

definition transitionToFailed :: "TaskState \<Rightarrow> string option \<Rightarrow> 's world \<Rightarrow> 's world" where
  "transitionToFailed taskState err w =
     (case transition (wd_now w) Running Failed (ts_id taskState) of
        TransitionSuccess _ \<Rightarrow> mark_failed (ts_id taskState) Failed err w
      | TransitionError _ \<Rightarrow> w)"

definition insertIntoDLQ ::
    "'s executor_env \<Rightarrow> TaskState \<Rightarrow> string option \<Rightarrow> int \<Rightarrow> 's world \<Rightarrow> db_error + 's world" where
  "insertIntoDLQ E taskState err attempts w =
     bindE (insert_dead_letter (xe_gen E) (wd_now w) (ts_id taskState) (ts_executionId taskState)
        (Some (case or_null err of Some e \<Rightarrow> e | None \<Rightarrow> ''Unknown error'')) attempts (wd_db w))
       (\<lambda>(_, d). Inr (w\<lparr>wd_db := d\<rparr>))"

definition remaining :: "jsnum \<Rightarrow> int \<Rightarrow> jsnum" where
  "remaining delayMs elapsed = (case delayMs of Fin d \<Rightarrow> js_fin (d - of_int elapsed) | n \<Rightarrow> n)"

partial_function (option) wait_loop ::
    "'s executor_env \<Rightarrow> string \<Rightarrow> jsnum \<Rightarrow> date \<Rightarrow> 's world \<Rightarrow> 's world option" where
  "wait_loop E taskStateId delayMs startTime w =
     (if \<not> js_less (Fin (of_int (wd_now w - startTime))) delayMs then Some w
      else if aborted w then Some w
      else
        (let waitTime = js_min (Fin 10000) (remaining delayMs (wd_now w - startTime));
             w1 = xe_sleep E waitTime w
         in if js_less (Fin (of_int (wd_now w1 - startTime))) delayMs
            then
              (let (renewed, s) = renew (xe_redis E) taskStateId (xe_executorId E) DEFAULT_TTL_MS (wd_redis w1);
                   w2 = w1\<lparr>wd_redis := s\<rparr>
               in if \<not> renewed then Some w2 else wait_loop E taskStateId delayMs startTime w2)
            else wait_loop E taskStateId delayMs startTime w1))"

definition waitWithLockRenewal ::
    "'s executor_env \<Rightarrow> string \<Rightarrow> jsnum \<Rightarrow> 's world \<Rightarrow> 's world option" where
  "waitWithLockRenewal E taskStateId delayMs w = wait_loop E taskStateId delayMs (wd_now w) w"

definition retry_now :: "'s executor_env \<Rightarrow> TaskState \<Rightarrow> string option \<Rightarrow> 's world \<Rightarrow> 's world" where
  "retry_now E taskState err w =
     (let w1 = write_state (ts_id taskState) (\<lambda>r. r\<lparr>ts_status := Pending, ts_error := err\<rparr>) w;
          w2 = release_current E w1
      in w2\<lparr>wd_redis := enqueue (xe_redis E) (ts_id taskState) (wd_redis w2)\<rparr>)"

definition handleFailure ::
    "'s executor_env \<Rightarrow> TaskState \<Rightarrow> TaskDefinition \<Rightarrow> string option \<Rightarrow> 's world \<Rightarrow> (outcome \<times> 's world) option" where
  "handleFailure E taskState taskDefinition err w =
     (case td_retryPolicy taskDefinition of
        None \<Rightarrow> Some (Finished, release_current E (transitionToFailed taskState err w))
      | Some retryPolicy \<Rightarrow>
          (let currentAttempt = ts_attemptCount taskState + 1;
               w1 = write_state (ts_id taskState) (\<lambda>r. r\<lparr>ts_attemptCount := currentAttempt\<rparr>) w
           in if \<not> shouldRetry retryPolicy currentAttempt
              then
                (case insertIntoDLQ E taskState err currentAttempt w1 of
                   Inl e \<Rightarrow> Some (Threw e, w1)
                 | Inr w2 \<Rightarrow> Some (Finished, release_current E (transitionToFailed taskState err w2)))
              else
                (case waitWithLockRenewal E (ts_id taskState) (calculateRetryDelay retryPolicy currentAttempt) w1 of
                   None \<Rightarrow> None
                 | Some w2 \<Rightarrow>
                     if aborted w2 then Some (Finished, clear_current w2)
                     else Some (Finished, retry_now E taskState err w2))))"

subsection \<open>Waiting ends\<close>

text \<open>\<open>setTimeout\<close> waits for at least a millisecond.\<close>

definition advances :: "'s executor_env \<Rightarrow> bool" where
  "advances E \<longleftrightarrow> (\<forall>n w. wd_now w < wd_now (xe_sleep E n w))"

lemma wait_loop_ends:
  assumes "advances E"
  shows "\<exists>w'. wait_loop E i (Fin d) t0 w = Some w'"
proof (induction "nat \<lceil>d - of_int (wd_now w - t0)\<rceil>" arbitrary: w rule: less_induct)
  case less
  let ?w1 = "xe_sleep E (js_min (Fin 10000) (remaining (Fin d) (wd_now w - t0))) w"
  show ?case
  proof (cases "of_int (wd_now w - t0) < d")
    case True
    have "wd_now w < wd_now ?w1" using assms by (simp add: advances_def)
    then have less: "nat \<lceil>d - of_int (wd_now w' - t0)\<rceil> < nat \<lceil>d - of_int (wd_now w - t0)\<rceil>"
      if "wd_now w' = wd_now ?w1" for w' :: "'a world"
      using True that by linarith
    show ?thesis
      using less.hyps [OF less, of ?w1]
        less.hyps [OF less, of "?w1\<lparr>wd_redis := snd (renew (xe_redis E) i (xe_executorId E) DEFAULT_TTL_MS (wd_redis ?w1))\<rparr>"]
      by (subst wait_loop.simps) (auto simp: Let_def case_prod_unfold)
  qed (subst wait_loop.simps, simp)
qed

subsection \<open>What a failure leads to\<close>

lemma transition_running [simp]:
  "transition n Running Failed i = TransitionSuccess \<lparr>ae_taskId = i, ae_previousState = Running, ae_newState = Failed, ae_timestamp = n\<rparr>"
  "transition n Running TimedOut i = TransitionSuccess \<lparr>ae_taskId = i, ae_previousState = Running, ae_newState = TimedOut, ae_timestamp = n\<rparr>"
  "transition n Running Completed i = TransitionSuccess \<lparr>ae_taskId = i, ae_previousState = Running, ae_newState = Completed, ae_timestamp = n\<rparr>"
  by (simp_all add: transition_def isTerminalState_def TERMINAL_STATES_def VALID_TRANSITIONS_def)

lemma update_rows_twice:
  "(\<And>r. p (f r) = p r) \<Longrightarrow> update_rows p g (update_rows p f rows) = update_rows p (\<lambda>r. g (f r)) rows"
  by (simp add: update_rows_def)

lemma release_current_frame [simp]:
  "wd_db (release_current E w) = wd_db w" "wd_now (release_current E w) = wd_now w"
  by (simp_all add: release_current_def case_prod_unfold Let_def)

lemma release_current_none [simp]: "cl_currentTask (wd_claimer (release_current E w)) = None"
  by (simp add: release_current_def releaseCurrentTask_def case_prod_unfold Let_def split: option.split)

lemma aborted_write [simp]:
  "aborted (write_state i f w) = aborted w"
  by (simp add: aborted_def write_state_def)

text \<open>Waiting in which nothing disturbs this task: the database, the claimer and the lists of the
  server stay as they are.  Locks may expire or change hands.\<close>

definition undisturbed :: "'s executor_env \<Rightarrow> ('s \<Rightarrow> string \<Rightarrow> string list) \<Rightarrow> bool" where
  "undisturbed E ls \<longleftrightarrow> (\<forall>n w. wd_db (xe_sleep E n w) = wd_db w \<and> wd_claimer (xe_sleep E n w) = wd_claimer w \<and>
     ls (wd_redis (xe_sleep E n w)) = ls (wd_redis w))"

text \<open>What sleeping and renewing keep, waiting keeps.\<close>

lemma wait_loop_invariant:
  assumes "wait_loop E i d t0 w = Some w'" "P w" "\<And>n w. P w \<Longrightarrow> P (xe_sleep E n w)"
    and "\<And>w. P w \<Longrightarrow> P (w\<lparr>wd_redis := snd (renew (xe_redis E) i (xe_executorId E) DEFAULT_TTL_MS (wd_redis w))\<rparr>)"
  shows "P w'"
proof -
  let ?keeps = "\<lambda>E i. (\<forall>n w. P w \<longrightarrow> P (xe_sleep E n w)) \<and>
    (\<forall>w. P w \<longrightarrow> P (w\<lparr>wd_redis := snd (renew (xe_redis E) i (xe_executorId E) DEFAULT_TTL_MS (wd_redis w))\<rparr>))"
  have "?keeps E i \<longrightarrow> P w \<longrightarrow> P w'"
  proof (rule wait_loop.raw_induct [OF _ assms(1), of "\<lambda>E i d t0 w w'. ?keeps E i \<longrightarrow> P w \<longrightarrow> P w'"], goal_cases)
    case (1 wl E i d t0 w w')
    show ?case
    proof (intro impI)
      assume k: "?keeps E i" and "P w"
      then have "P (xe_sleep E (js_min (Fin 10000) (remaining d (wd_now w - t0))) w)" by blast
      then show "P w'" using 1 k \<open>P w\<close> by (auto simp: Let_def case_prod_unfold split: if_splits)
    qed
  qed
  then show ?thesis using assms(2-4) by blast
qed

context redis_server
begin

lemma release_current_lists:
  assumes "cl_currentTask (wd_claimer w) = Some t" "xe_redis E = R"
  shows "waiting (wd_redis (release_current E w)) = waiting (wd_redis w)"
    "processing (wd_redis (release_current E w)) = remove1 (ct_taskStateId t) (processing (wd_redis w))"
  using wq.finish_taken [of "ct_taskStateId t"] lock_lists(3) assms
  by (simp_all add: release_current_def releaseCurrentTask_def case_prod_unfold Let_def)

lemma release_current_lock:
  assumes "cl_currentTask (wd_claimer w) = Some t" "xe_redis E = R"
    "owner (wd_redis w) (ct_taskStateId t) = Some (cl_executorId (wd_claimer w))"
  shows "owner (wd_redis (release_current E w)) (ct_taskStateId t) = None"
proof -
  obtain s' where "releaseCurrentTask R (wd_claimer w, wd_redis w) = ((wd_claimer w)\<lparr>cl_currentTask := None\<rparr>, s')"
      "keys s' = (keys (wd_redis w))(lock_key (ct_taskStateId t) := None)"
    using releaseCurrentTask_effect [OF assms(1,3)] by blast
  then show ?thesis by (simp add: release_current_def assms(2) live_def)
qed

lemma wait_loop_undisturbed:
  assumes "wait_loop E i d t0 w = Some w'" "undisturbed E lists" "xe_redis E = R"
  shows "wd_db w' = wd_db w \<and> wd_claimer w' = wd_claimer w \<and> lists (wd_redis w') = lists (wd_redis w)"
  by (rule wait_loop_invariant [OF assms(1)])
    (use assms(2,3) lock_lists(2) in \<open>auto simp: undisturbed_def\<close>)

text \<open>A failure that is not retried.\<close>

lemma final_failure:
  assumes "xe_redis E = R" "cl_currentTask (wd_claimer w) = Some t" "ct_taskStateId t = ts_id ts"
    and "ts_id ts \<in> ts_id ` set (db_states (wd_db w))" "ts_executionId ts \<in> ex_id ` set (db_executions (wd_db w))"
    and "case td_retryPolicy td of None \<Rightarrow> True | Some p \<Rightarrow> \<not> shouldRetry p (ts_attemptCount ts + 1)"
  shows "\<exists>w'. handleFailure E ts td err w = Some (Finished, w') \<and>
    db_states (wd_db w') = update_rows (\<lambda>r. ts_id r = ts_id ts)
      (\<lambda>r. r\<lparr>ts_attemptCount := (if td_retryPolicy td = None then ts_attemptCount r else ts_attemptCount ts + 1),
         ts_status := Failed, ts_completedAt := Some (wd_now w),
         ts_error := (case err of Some e \<Rightarrow> Some e | None \<Rightarrow> ts_error r)\<rparr>)
      (db_states (wd_db w)) \<and>
    map (\<lambda>q. (dl_taskStateId q, dl_attempts q)) (db_dlq (wd_db w')) =
      map (\<lambda>q. (dl_taskStateId q, dl_attempts q)) (db_dlq (wd_db w)) @
      (if td_retryPolicy td = None then [] else [(ts_id ts, ts_attemptCount ts + 1)]) \<and>
    cl_currentTask (wd_claimer w') = None \<and> waiting (wd_redis w') = waiting (wd_redis w) \<and>
    processing (wd_redis w') = remove1 (ts_id ts) (processing (wd_redis w))"
proof (cases "td_retryPolicy td")
  case None
  let ?w = "mark_failed (ts_id ts) Failed err w"
  have "wd_claimer ?w = wd_claimer w" "wd_redis ?w = wd_redis w" by (simp_all add: mark_failed_def write_state_def)
  then show ?thesis using None release_current_lists [of ?w t E] assms(1-3)
    by (simp add: handleFailure_def transitionToFailed_def)
      (simp add: mark_failed_def write_state_def set_state_def)
next
  case (Some p)
  let ?w1 = "write_state (ts_id ts) (\<lambda>r. r\<lparr>ts_attemptCount := ts_attemptCount ts + 1\<rparr>) w"
  have ids: "ts_id ` set (db_states (wd_db ?w1)) = ts_id ` set (db_states (wd_db w))"
  proof -
    have "map ts_id (db_states (wd_db ?w1)) = map ts_id (db_states (wd_db w))"
      by (simp add: write_state_def set_state_def map_update_rows)
    then show ?thesis by (metis list.set_map)
  qed
  obtain row where ins: "insertIntoDLQ E ts err (ts_attemptCount ts + 1) ?w1 =
      Inr (?w1\<lparr>wd_db := (wd_db ?w1)\<lparr>db_dlq := db_dlq (wd_db ?w1) @ [row], db_drawn := Suc (db_drawn (wd_db ?w1))\<rparr>\<rparr>)"
      and row: "dl_taskStateId row = ts_id ts" "dl_attempts row = ts_attemptCount ts + 1"
    using assms(4,5) ids by (simp add: insertIntoDLQ_def insert_dead_letter_def Let_def write_state_def set_state_def)
  let ?w2 = "?w1\<lparr>wd_db := (wd_db ?w1)\<lparr>db_dlq := db_dlq (wd_db ?w1) @ [row], db_drawn := Suc (db_drawn (wd_db ?w1))\<rparr>\<rparr>"
  let ?w3 = "mark_failed (ts_id ts) Failed err ?w2"
  have "wd_claimer ?w3 = wd_claimer w" "wd_redis ?w3 = wd_redis w" by (simp_all add: mark_failed_def write_state_def)
  then show ?thesis using Some ins row release_current_lists [of ?w3 t E] assms(1-3,6)
    by (simp add: handleFailure_def transitionToFailed_def Let_def)
      (simp add: mark_failed_def write_state_def set_state_def update_rows_twice cong: option.case_cong)
qed

text \<open>A failure that is retried.\<close>

lemma retried_failure:
  assumes "xe_redis E = R" "cl_currentTask (wd_claimer w) = Some t" "ct_taskStateId t = ts_id ts" "\<not> ct_aborted t"
    and "advances E" "undisturbed E lists" "td_retryPolicy td = Some p" "shouldRetry p (ts_attemptCount ts + 1)"
    and "calculateRetryDelay p (ts_attemptCount ts + 1) = Fin n"
  shows "\<exists>w'. handleFailure E ts td err w = Some (Finished, w') \<and>
    db_states (wd_db w') = update_rows (\<lambda>r. ts_id r = ts_id ts)
      (\<lambda>r. r\<lparr>ts_attemptCount := ts_attemptCount ts + 1, ts_status := Pending, ts_error := err\<rparr>) (db_states (wd_db w)) \<and>
    db_dlq (wd_db w') = db_dlq (wd_db w) \<and> cl_currentTask (wd_claimer w') = None \<and>
    waiting (wd_redis w') = waiting (wd_redis w) @ [ts_id ts] \<and>
    processing (wd_redis w') = remove1 (ts_id ts) (processing (wd_redis w))"
proof -
  let ?w1 = "write_state (ts_id ts) (\<lambda>r. r\<lparr>ts_attemptCount := ts_attemptCount ts + 1\<rparr>) w"
  obtain w2 where wait: "waitWithLockRenewal E (ts_id ts) (Fin n) ?w1 = Some w2"
    unfolding waitWithLockRenewal_def using wait_loop_ends [OF assms(5)] by blast
  have w2: "wd_db w2 = wd_db ?w1" "wd_claimer w2 = wd_claimer w" "lists (wd_redis w2) = lists (wd_redis w)"
    using wait_loop_undisturbed [OF wait [unfolded waitWithLockRenewal_def] assms(6,1)] by (simp_all add: write_state_def)
  let ?w3 = "write_state (ts_id ts) (\<lambda>r. r\<lparr>ts_status := Pending, ts_error := err\<rparr>) w2"
  have w3: "wd_claimer ?w3 = wd_claimer w" "lists (wd_redis ?w3) = lists (wd_redis w)"
    using w2 by (simp_all add: write_state_def)
  have "\<not> aborted w2" using w2(2) assms(2,4) by (simp add: aborted_def isCurrentTaskAborted_def)
  then have hf: "handleFailure E ts td err w = Some (Finished, retry_now E ts err w2)"
    using assms(7-9) wait by (simp add: handleFailure_def Let_def)
  let ?w4 = "release_current E ?w3"
  have "waiting (wd_redis ?w4) = waiting (wd_redis w)" "processing (wd_redis ?w4) = remove1 (ts_id ts) (processing (wd_redis w))"
    using release_current_lists [of ?w3 t E] w3 assms(1-3) by simp_all
  then show ?thesis
    using wq.put_last [of "ts_id ts" "wd_redis ?w4"] hf assms(1) w2(1)
    by (simp add: retry_now_def Let_def) (simp add: write_state_def set_state_def update_rows_twice)
qed

end

lemma delay_not_infinite: "baseDelay p \<noteq> PosInf \<Longrightarrow> calculateRetryDelay p k \<noteq> PosInf"
  by (auto simp: calculateRetryDelay_def js_min_def MAX_DELAY_MS_def split: Strategy.split)

lemma wait_returns:
  assumes "advances E" "n \<noteq> PosInf"
  shows "\<exists>w'. waitWithLockRenewal E i n w = Some w'"
proof (cases n)
  case (Fin d)
  then show ?thesis using wait_loop_ends [OF assms(1)] by (simp add: waitWithLockRenewal_def)
qed (use assms(2) in \<open>subst waitWithLockRenewal_def, subst wait_loop.simps, simp\<close>)+

subsection \<open>Properties\<close>

text \<open>Examples: an executor that is alone, and one that loses its lock while it waits.\<close>

definition sample_env :: "mem_server executor_env" where
  "sample_env = \<lparr>xe_redis = mem_redis, xe_gen = sample_gen, xe_executorId = ''e1'',
     xe_sleep = (\<lambda>n w. w\<lparr>wd_now := wd_now w + 10000, wd_redis := r_tick mem_redis 10000 (wd_redis w)\<rparr>)\<rparr>"

definition rival_env :: "mem_server executor_env" where
  "rival_env = sample_env\<lparr>xe_sleep := (\<lambda>n w. w\<lparr>wd_now := wd_now w + 10000,
     wd_redis := snd (acquire mem_redis ''t'' ''e2'' 30000 (r_tick mem_redis 30001 (wd_redis w)))\<rparr>)\<rparr>"

definition failing_state :: "TaskStatus \<Rightarrow> int \<Rightarrow> TaskState" where
  "failing_state st n = \<lparr>ts_id = ''t'', ts_executionId = ''x'', ts_taskDefinitionId = ''d'', ts_status = st,
     ts_attemptCount = n, ts_output = None, ts_error = None, ts_startedAt = Some 1, ts_completedAt = None\<rparr>"

definition retry_task :: "RetryPolicy option \<Rightarrow> TaskDefinition" where
  "retry_task p = (plain_task ''d'')\<lparr>td_retryPolicy := p\<rparr>"

definition sample_world :: "TaskState \<Rightarrow> mem_server world" where
  "sample_world ts =
     (let (_, (c, s)) = claim_pass mem_redis (new_claimer ''e1'' None, enqueue mem_redis ''t'' empty_server)
      in \<lparr>wd_db = empty_db\<lparr>db_executions := [\<lparr>ex_id = ''x'', ex_workflowId = ''w'', ex_status = ExRunning, ex_input = None,
            ex_startedAt = Some 0, ex_completedAt = None, ex_createdAt = 0\<rparr>], db_states := [ts]\<rparr>,
          wd_redis = s, wd_claimer = c, wd_now = 100\<rparr>)"

lemma sample_env_laws: "xe_redis sample_env = mem_redis" "advances sample_env" "undisturbed sample_env m_list"
  by (simp_all add: sample_env_def advances_def undisturbed_def mem_redis_def)

lemma sample_world_facts:
  "cl_currentTask (wd_claimer (sample_world ts)) = Some \<lparr>ct_taskStateId = ''t'', ct_renewing = True, ct_aborted = False\<rparr>"
  "cl_executorId (wd_claimer (sample_world ts)) = ''e1''"
  "db_states (wd_db (sample_world ts)) = [ts]" "db_dlq (wd_db (sample_world ts)) = []"
  "ex_id ` set (db_executions (wd_db (sample_world ts))) = {''x''}" "wd_now (sample_world ts) = 100"
  "m_list (wd_redis (sample_world ts)) TASK_QUEUE_KEY = []"
  "m_list (wd_redis (sample_world ts)) TASK_PROCESSING_KEY = [''t'']"
proof -
  have "case claim_pass mem_redis (new_claimer ''e1'' None, enqueue mem_redis ''t'' empty_server) of (_, (c, s)) \<Rightarrow>
      cl_currentTask c = Some \<lparr>ct_taskStateId = ''t'', ct_renewing = True, ct_aborted = False\<rparr> \<and> cl_executorId c = ''e1'' \<and>
      m_list s TASK_QUEUE_KEY = [] \<and> m_list s TASK_PROCESSING_KEY = [''t'']" by code_simp
  then show "cl_currentTask (wd_claimer (sample_world ts)) = Some \<lparr>ct_taskStateId = ''t'', ct_renewing = True, ct_aborted = False\<rparr>"
    "cl_executorId (wd_claimer (sample_world ts)) = ''e1''"
    "m_list (wd_redis (sample_world ts)) TASK_QUEUE_KEY = []"
    "m_list (wd_redis (sample_world ts)) TASK_PROCESSING_KEY = [''t'']"
    by (simp_all add: sample_world_def case_prod_unfold Let_def)
qed (simp_all add: sample_world_def case_prod_unfold Let_def empty_db_def)

text \<open>
  Handling a failure ends, for every retry policy with a finite base delay: the wait between two
  attempts is over after finitely many rounds.
\<close>

theorem handleFailure_returns:
  assumes "advances E" "case td_retryPolicy td of None \<Rightarrow> True | Some p \<Rightarrow> baseDelay p \<noteq> PosInf"
  shows "\<exists>r. handleFailure E ts td err w = Some r"
proof (cases "td_retryPolicy td")
  case (Some p)
  then have "calculateRetryDelay p k \<noteq> PosInf" for k using assms(2) delay_not_infinite by simp
  then obtain w' where "waitWithLockRenewal E (ts_id ts) (calculateRetryDelay p (ts_attemptCount ts + 1))
      (write_state (ts_id ts) (\<lambda>r. r\<lparr>ts_attemptCount := ts_attemptCount ts + 1\<rparr>) w) = Some w'"
    using wait_returns [OF assms(1)] by blast
  then show ?thesis using Some by (simp add: handleFailure_def Let_def split: sum.split)
qed (simp add: handleFailure_def)

theorem handleFailure_returns_witness:
  "\<exists>r. handleFailure sample_env (failing_state Running 0)
     (retry_task (Some \<lparr>strategy = Exponential, maxAttempts = Fin 3, baseDelay = Fin 1000\<rparr>)) None (sample_world (failing_state Running 0)) = Some r"
  by (rule handleFailure_returns [OF sample_env_laws(2)]) (simp add: retry_task_def)

text \<open>
  C24: A failure without a retry policy, or one that has used up the attempts of its policy, is final:
  the task state becomes failed with its end time and error, in the second case the dead letter queue
  gets exactly one new entry with the number of attempts, and the claimer lets go of the task, which
  does not return to the queue.
\<close>

theorem failure_final:
  assumes "redis_server (xe_redis E) ls ks nw" "cl_currentTask (wd_claimer w) = Some t" "ct_taskStateId t = ts_id ts"
    and "ts_id ts \<in> ts_id ` set (db_states (wd_db w))" "ts_executionId ts \<in> ex_id ` set (db_executions (wd_db w))"
    and "case td_retryPolicy td of None \<Rightarrow> True | Some p \<Rightarrow> \<not> shouldRetry p (ts_attemptCount ts + 1)"
  shows "\<exists>w'. handleFailure E ts td err w = Some (Finished, w') \<and>
    db_states (wd_db w') = update_rows (\<lambda>r. ts_id r = ts_id ts)
      (\<lambda>r. r\<lparr>ts_attemptCount := (if td_retryPolicy td = None then ts_attemptCount r else ts_attemptCount ts + 1),
         ts_status := Failed, ts_completedAt := Some (wd_now w),
         ts_error := (case err of Some e \<Rightarrow> Some e | None \<Rightarrow> ts_error r)\<rparr>)
      (db_states (wd_db w)) \<and>
    map (\<lambda>q. (dl_taskStateId q, dl_attempts q)) (db_dlq (wd_db w')) =
      map (\<lambda>q. (dl_taskStateId q, dl_attempts q)) (db_dlq (wd_db w)) @
      (if td_retryPolicy td = None then [] else [(ts_id ts, ts_attemptCount ts + 1)]) \<and>
    cl_currentTask (wd_claimer w') = None \<and> ls (wd_redis w') TASK_QUEUE_KEY = ls (wd_redis w) TASK_QUEUE_KEY \<and>
    ls (wd_redis w') TASK_PROCESSING_KEY = remove1 (ts_id ts) (ls (wd_redis w) TASK_PROCESSING_KEY)"
  using redis_server.final_failure [OF assms(1) refl assms(2-6), of err] by auto

theorem failure_final_witness:
  "\<exists>w'. handleFailure sample_env (failing_state Running 2)
      (retry_task (Some \<lparr>strategy = Fixed, maxAttempts = Fin 3, baseDelay = Fin 1000\<rparr>)) (Some ''boom'') (sample_world (failing_state Running 2)) =
      Some (Finished, w') \<and> map ts_status (db_states (wd_db w')) = [Failed] \<and>
    map (\<lambda>q. (dl_taskStateId q, dl_attempts q)) (db_dlq (wd_db w')) = [(''t'', 3)] \<and>
    m_list (wd_redis w') TASK_QUEUE_KEY = [] \<and> m_list (wd_redis w') TASK_PROCESSING_KEY = []"
proof -
  let ?td = "retry_task (Some \<lparr>strategy = Fixed, maxAttempts = Fin 3, baseDelay = Fin 1000\<rparr>)"
  have 1: "redis_server (xe_redis sample_env) m_list m_key m_now"
    unfolding sample_env_laws(1) by (rule mem_both.redis_server_axioms)
  have "\<not> shouldRetry \<lparr>strategy = Fixed, maxAttempts = Fin 3, baseDelay = Fin 1000\<rparr> 3" by code_simp
  then have 2: "case td_retryPolicy ?td of None \<Rightarrow> True | Some p \<Rightarrow> \<not> shouldRetry p (ts_attemptCount (failing_state Running 2) + 1)"
    by (simp add: retry_task_def failing_state_def)
  let ?w = "sample_world (failing_state Running 2)"
  have 3: "ct_taskStateId \<lparr>ct_taskStateId = ''t'', ct_renewing = True, ct_aborted = False\<rparr> = ts_id (failing_state Running 2)"
    "ts_id (failing_state Running 2) \<in> ts_id ` set (db_states (wd_db ?w))"
    "ts_executionId (failing_state Running 2) \<in> ex_id ` set (db_executions (wd_db ?w))"
    by (simp_all add: sample_world_facts failing_state_def)
  obtain w' where w': "handleFailure sample_env (failing_state Running 2) ?td (Some ''boom'') ?w = Some (Finished, w')"
    "db_states (wd_db w') = update_rows (\<lambda>r. ts_id r = ts_id (failing_state Running 2))
      (\<lambda>r. r\<lparr>ts_attemptCount := (if td_retryPolicy ?td = None then ts_attemptCount r else ts_attemptCount (failing_state Running 2) + 1),
         ts_status := Failed, ts_completedAt := Some (wd_now ?w),
         ts_error := (case Some ''boom'' of Some e \<Rightarrow> Some e | None \<Rightarrow> ts_error r)\<rparr>) (db_states (wd_db ?w))"
    "map (\<lambda>q. (dl_taskStateId q, dl_attempts q)) (db_dlq (wd_db w')) =
      map (\<lambda>q. (dl_taskStateId q, dl_attempts q)) (db_dlq (wd_db ?w)) @
      (if td_retryPolicy ?td = None then [] else [(ts_id (failing_state Running 2), ts_attemptCount (failing_state Running 2) + 1)])"
    "m_list (wd_redis w') TASK_QUEUE_KEY = m_list (wd_redis ?w) TASK_QUEUE_KEY"
    "m_list (wd_redis w') TASK_PROCESSING_KEY = remove1 (ts_id (failing_state Running 2)) (m_list (wd_redis ?w) TASK_PROCESSING_KEY)"
    using failure_final [OF 1 sample_world_facts(1) 3 2, of "Some ''boom''"] by blast
  have "map ts_status (db_states (wd_db w')) = [Failed]" by (simp add: w'(2) sample_world_facts update_rows_def)
  moreover have "td_retryPolicy ?td \<noteq> None" by (simp add: retry_task_def)
  ultimately show ?thesis
    using w'(1,3-5) by (intro exI [of _ w']) (simp add: sample_world_facts failing_state_def)
qed



text \<open>
  The loss of the lock during the wait goes unnoticed: \<open>waitWithLockRenewal\<close> returns when a renewal
  fails, but the handler only asks whether the claimer has noticed, so it resets and enqueues a task that
  another executor is working on.
\<close>

theorem retry_after_lost_lock:
  "\<exists>w'. handleFailure rival_env (failing_state Running 0)
      (retry_task (Some \<lparr>strategy = Fixed, maxAttempts = Fin 3, baseDelay = Fin 15000\<rparr>)) (Some ''boom'') (sample_world (failing_state Running 0)) =
      Some (Finished, w') \<and> getOwner mem_redis ''t'' (wd_redis w') = Some ''e2'' \<and>
    map ts_status (db_states (wd_db w')) = [Pending] \<and> rev (m_list (wd_redis w') TASK_QUEUE_KEY) = [''t'']"
proof -
  let ?p = "\<lparr>strategy = Fixed, maxAttempts = Fin 3, baseDelay = Fin 15000\<rparr>"
  let ?w = "sample_world (failing_state Running 0)"
  let ?w1 = "write_state ''t'' (\<lambda>r. r\<lparr>ts_attemptCount := 1\<rparr>) ?w"
  let ?s = "snd (acquire mem_redis ''t'' ''e2'' 30000 (r_tick mem_redis 30001 (wd_redis ?w)))"
  let ?w2 = "?w1\<lparr>wd_now := 10100, wd_redis := ?s\<rparr>"
  have laws: "xe_redis rival_env = mem_redis" "xe_executorId rival_env = ''e1''" by (simp_all add: rival_env_def sample_env_def)
  have now: "wd_now ?w1 = 100" "wd_redis ?w1 = wd_redis ?w" "wd_claimer ?w1 = wd_claimer ?w"
    by (simp_all add: write_state_def sample_world_facts)
  have sleep: "xe_sleep rival_env n ?w1 = ?w2" for n
    by (simp add: rival_env_def now)
  have server: "getOwner mem_redis ''t'' ?s = Some ''e2''" "\<not> fst (renew mem_redis ''t'' ''e1'' DEFAULT_TTL_MS ?s)"
      "snd (renew mem_redis ''t'' ''e1'' DEFAULT_TTL_MS ?s) = ?s" by code_simp+
  have quiet: "\<not> aborted ?w" by (simp add: aborted_def isCurrentTaskAborted_def sample_world_facts)
  have "waitWithLockRenewal rival_env ''t'' (Fin 15000) ?w1 = Some ?w2"
    unfolding waitWithLockRenewal_def
    by (subst wait_loop.simps) (use server in \<open>simp add: quiet now(1) sleep laws Let_def case_prod_unfold\<close>)
  moreover have "shouldRetry ?p 1" by code_simp
  moreover have "\<not> aborted ?w2" using quiet by (simp add: aborted_def write_state_def)
  ultimately have hf: "handleFailure rival_env (failing_state Running 0) (retry_task (Some ?p)) (Some ''boom'') ?w =
      Some (Finished, retry_now rival_env (failing_state Running 0) (Some ''boom'') ?w2)"
    by (simp add: handleFailure_def retry_task_def failing_state_def calculateRetryDelay_def Let_def)
  let ?s3 = "enqueue mem_redis ''t'' (removeFromProcessing mem_redis ''t'' ?s)"
  let ?w3 = "retry_now rival_env (failing_state Running 0) (Some ''boom'') ?w2"
  have "snd (release mem_redis ''t'' ''e1'' ?s) = ?s"
    using server(1) mem_keys.release_other [of ?s "''t''" "''e1''"] by (simp add: getOwner_def mem_keys.get_live)
  then have w3: "wd_redis ?w3 = ?s3"
    by (simp add: retry_now_def release_current_def releaseCurrentTask_def failing_state_def write_state_def laws
        sample_world_facts Let_def case_prod_unfold)
  have "getOwner mem_redis ''t'' ?s3 = getOwner mem_redis ''t'' ?s"
    using mem_both.owner_same [of ?s3 ?s "''t''"] mem_both.queue_keys by (simp add: getOwner_def mem_keys.get_live)
  moreover have "m_list ?s = m_list (wd_redis ?w)" by (simp add: mem_both.lock_lists mem_lists.lists_tick)
  then have "rev (m_list ?s3 TASK_QUEUE_KEY) = [''t'']"
    using mem_lists.wq.put_last [of "''t''"] mem_lists.wq.finish_taken [of "''t''" ?s] by (simp add: sample_world_facts)
  moreover have "map ts_status (db_states (wd_db ?w3)) = [Pending]"
    by (simp add: retry_now_def Let_def write_state_def set_state_def update_rows_def sample_world_facts failing_state_def)
  ultimately show ?thesis using hf w3 server(1) by (intro exI [of _ ?w3]) simp
qed

end
