(* ===== verification/TaskRunner.thy ===== *)
theory TaskRunner
  imports RetryHandler JsString
begin

section \<open>Running tasks (services/executor-service/src/services/task-runner.ts)\<close>

text \<open>
  The class \<open>TaskRunner\<close>.  What a task does outside the process is the parameter \<open>task_env\<close>: the answer
  to a request, the end of a command, the value of an expression (\<^const>\<open>Inl\<close> a message when it
  throws), JSON parsing, the texts of values and times, and how long the first two take.  A delay takes
  the time of its timer.  A timer of Node waits for 1 ms if its length is no number or out of the range
  from 1 to \<open>2^31 - 1\<close>, and for whole milliseconds.

  \<open>executeWithTimeout\<close> starts its timer first, so the task has to be faster than the limit.  While it
  runs, the world goes on as \<open>xe_sleep\<close> says.
\<close>

datatype fetch_result = NetworkError string | HttpAnswer nat string

record task_env =
  te_fetch :: "jsval \<Rightarrow> jsval \<Rightarrow> jsval \<Rightarrow> jsval option \<Rightarrow> fetch_result \<times> int"
  te_exec :: "string \<Rightarrow> (string option \<times> string \<times> string) \<times> int"
  te_eval :: "jsval \<Rightarrow> jsval \<Rightarrow> string + jsval"
  te_parse :: "string \<Rightarrow> jsval option"
  te_invalid_command :: "jsval \<Rightarrow> string"
  te_iso :: "date \<Rightarrow> string"

record TaskResult =
  tk_success :: bool
  tk_output :: "jsval option"
  tk_error :: "string option"

definition succeeded :: "jsval \<Rightarrow> TaskResult" where
  "succeeded out = \<lparr>tk_success = True, tk_output = Some out, tk_error = None\<rparr>"

definition failed :: "string \<Rightarrow> TaskResult" where
  "failed msg = \<lparr>tk_success = False, tk_output = None, tk_error = Some msg\<rparr>"

definition DEFAULT_TIMEOUT_MS :: jsnum where "DEFAULT_TIMEOUT_MS = Fin 300000"

subsection \<open>Timers and configurations\<close>

definition config_value :: "js_record \<Rightarrow> string \<Rightarrow> jsval" where
  "config_value config k = (case map_of config k of Some v \<Rightarrow> v | None \<Rightarrow> JUndefined)"

definition or_default :: "jsval \<Rightarrow> jsval \<Rightarrow> jsval" where
  "or_default v v' = (if truthy v then v else v')"

fun to_number :: "jsval \<Rightarrow> jsnum" where
  "to_number (JNum n) = n"
| "to_number (JStr s) = js_Number s"
| "to_number (JBool b) = Fin (if b then 1 else 0)"
| "to_number JNull = Fin 0"
| "to_number _ = NaN"

definition timer_ms :: "jsnum \<Rightarrow> int" where
  "timer_ms n = (case n of Fin r \<Rightarrow> if 1 \<le> r \<and> r \<le> 2147483647 then \<lfloor>r\<rfloor> else 1 | _ \<Rightarrow> 1)"

lemma timer_ms_bounds: "1 \<le> timer_ms n \<and> timer_ms n \<le> 2147483647"
proof (cases n)
  case (Fin r)
  then show ?thesis by (auto simp: timer_ms_def le_floor_iff floor_le_iff)
qed (simp_all add: timer_ms_def)

subsection \<open>The executors: a result and the time it takes\<close>

definition executeHttp :: "task_env \<Rightarrow> js_record \<Rightarrow> TaskResult \<times> int" where
  "executeHttp T config =
     (let url = config_value config ''url'';
          method = or_default (config_value config ''method'') (JStr ''GET'');
          headers = or_default (config_value config ''headers'') (JObj []);
          body = config_value config ''body'';
          request_body = (if truthy body \<and> method \<noteq> JStr ''GET'' then Some body else None);
          (answer, t) = te_fetch T url method headers request_body
      in case answer of
           NetworkError msg \<Rightarrow> (failed (''HTTP request failed: '' @ msg), t)
         | HttpAnswer status responseBody \<Rightarrow>
             (let parsedBody = (case te_parse T responseBody of Some v \<Rightarrow> v | None \<Rightarrow> JStr responseBody)
              in if 200 \<le> status \<and> status \<le> 299
                 then (succeeded (JObj [(''statusCode'', JNum (Fin (of_nat status))), (''body'', parsedBody)]), t)
                 else (failed (''HTTP '' @ show_nat status @ '': '' @ responseBody), t)))"

definition executeScript :: "task_env \<Rightarrow> js_record \<Rightarrow> TaskResult \<times> int" where
  "executeScript T config =
     (let command = config_value config ''command'' in
      if \<not> truthy command then (failed ''No command specified for script task'', 0)
      else case command of
        JStr c \<Rightarrow>
          (let ((err, stdout, stderr), t) = te_exec T c in
           case err of
             Some msg \<Rightarrow> (failed (''Script failed: '' @ (if stderr \<noteq> [] then stderr else msg)), t)
           | None \<Rightarrow> (succeeded (JObj [(''stdout'', JStr (js_trim stdout)), (''stderr'', JStr (js_trim stderr))]), t))
      | v \<Rightarrow> (failed (te_invalid_command T v), 0))"

definition executeDelay :: "js_record \<Rightarrow> TaskResult \<times> int" where
  "executeDelay config =
     (let delayMs = or_default (config_value config ''delayMs'') (JNum (Fin 1000))
      in (succeeded (JObj [(''delayMs'', delayMs)]), timer_ms (to_number delayMs)))"

definition executeApproval :: "task_env \<Rightarrow> date \<Rightarrow> TaskResult \<times> int" where
  "executeApproval T now =
     (succeeded (JObj [(''approved'', JBool True), (''approvedAt'', JStr (te_iso T now))]), 0)"

definition executeConditional :: "task_env \<Rightarrow> js_record \<Rightarrow> TaskResult \<times> int" where
  "executeConditional T config =
     (case te_eval T (config_value config ''expression'') (or_default (config_value config ''context'') (JObj [])) of
        Inr result \<Rightarrow> (succeeded (JObj [(''result'', result)]), 0)
      | Inl msg \<Rightarrow> (failed (''Conditional evaluation failed: '' @ msg), 0))"

definition executeTask :: "task_env \<Rightarrow> date \<Rightarrow> TaskDefinition \<Rightarrow> TaskResult \<times> int" where
  "executeTask T now taskDefinition =
     (let config = td_config taskDefinition; type = td_type taskDefinition in
      if type = ''http'' then executeHttp T config
      else if type = ''script'' then executeScript T config
      else if type = ''delay'' then executeDelay config
      else if type = ''approval'' then executeApproval T now
      else if type = ''conditional'' then executeConditional T config
      else (failed (''Unknown task type: '' @ type), 0))"

text \<open>The result, or \<^const>\<open>None\<close> for a timeout, and the time that has passed.\<close>

definition executeWithTimeout :: "task_env \<Rightarrow> date \<Rightarrow> TaskDefinition \<Rightarrow> jsnum \<Rightarrow> TaskResult option \<times> int" where
  "executeWithTimeout T now taskDefinition timeoutMs =
     (let (result, t) = executeTask T now taskDefinition; limit = timer_ms timeoutMs
      in if t < limit then (Some result, t) else (None, limit))"

subsection \<open>Running\<close>

text \<open>The columns an update sets: an output or an error only if there is one.\<close>

definition set_clauses :: "date \<Rightarrow> TaskStatus \<Rightarrow> jsval option \<Rightarrow> string option \<Rightarrow> TaskState \<Rightarrow> TaskState" where
  "set_clauses now status output err r = r\<lparr>ts_status := status,
     ts_startedAt := (if status = Running then Some now else ts_startedAt r),
     ts_completedAt := (if status \<in> {Completed, Failed, TimedOut} then Some now else ts_completedAt r),
     ts_output := (case output of Some out \<Rightarrow> Some out | None \<Rightarrow> ts_output r),
     ts_error := (case err of Some e \<Rightarrow> Some e | None \<Rightarrow> ts_error r)\<rparr>"

definition updateTaskState ::
    "string \<Rightarrow> TaskStatus \<Rightarrow> jsval option \<Rightarrow> string option \<Rightarrow> 's world \<Rightarrow> 's world" where
  "updateTaskState taskStateId status output err w =
     write_state taskStateId (set_clauses (wd_now w) status output err) w"

definition handleTimeout :: "'s executor_env \<Rightarrow> TaskState \<Rightarrow> 's world \<Rightarrow> 's world" where
  "handleTimeout E taskState w =
     release_current E
       (case transition (wd_now w) Running TimedOut (ts_id taskState) of
          TransitionSuccess _ \<Rightarrow> updateTaskState (ts_id taskState) TimedOut None (Some ''Task timed out'') w
        | TransitionError _ \<Rightarrow> w)"

definition handleSuccess :: "'s executor_env \<Rightarrow> TaskState \<Rightarrow> jsval option \<Rightarrow> 's world \<Rightarrow> 's world" where
  "handleSuccess E taskState output w =
     release_current E
       (case transition (wd_now w) Running Completed (ts_id taskState) of
          TransitionSuccess _ \<Rightarrow> updateTaskState (ts_id taskState) Completed output None w
        | TransitionError _ \<Rightarrow> w)"

definition timeout_of :: "TaskDefinition \<Rightarrow> jsnum" where
  "timeout_of taskDefinition =
     (if truthy (JNum (td_timeoutMs taskDefinition)) then td_timeoutMs taskDefinition else DEFAULT_TIMEOUT_MS)"

definition run ::
    "task_env \<Rightarrow> 's executor_env \<Rightarrow> TaskState \<Rightarrow> TaskDefinition \<Rightarrow> 's world \<Rightarrow> (outcome \<times> 's world) option" where
  "run T E taskState taskDefinition w =
     (let timeoutMs = timeout_of taskDefinition in
      case transition (wd_now w) (ts_status taskState) Running (ts_id taskState) of
        TransitionError _ \<Rightarrow> Some (Finished, release_current E w)
      | TransitionSuccess _ \<Rightarrow>
          (let w1 = updateTaskState (ts_id taskState) Running None None w in
           if aborted w1 then Some (Finished, clear_current w1)
           else
             (let (result, t) = executeWithTimeout T (wd_now w1) taskDefinition timeoutMs;
                  w2 = xe_sleep E (Fin (of_int t)) w1
              in case result of
                   None \<Rightarrow> Some (Finished, handleTimeout E taskState w2)
                 | Some res \<Rightarrow>
                     if aborted w2 then Some (Finished, clear_current w2)
                     else if tk_success res then Some (Finished, handleSuccess E taskState (tk_output res) w2)
                     else handleFailure E taskState taskDefinition (tk_error res) w2)))"

subsection \<open>What a run leads to\<close>

lemma pending_to_running [simp]:
  "transition n Pending Running i = TransitionSuccess \<lparr>ae_taskId = i, ae_previousState = Pending, ae_newState = Running, ae_timestamp = n\<rparr>"
  by (simp add: transition_def isTerminalState_def TERMINAL_STATES_def VALID_TRANSITIONS_def)

lemma other_to_running:
  "s \<noteq> Pending \<Longrightarrow> \<exists>e. transition n s Running i = TransitionError e"
  by (cases s) (simp_all add: transition_def isTerminalState_def TERMINAL_STATES_def VALID_TRANSITIONS_def)

definition find_state :: "string \<Rightarrow> db \<Rightarrow> TaskState option" where
  "find_state i d = find (\<lambda>r. ts_id r = i) (db_states d)"

lemma find_update:
  "find p rows = Some r \<Longrightarrow> (\<And>q. p (f q) = p q) \<Longrightarrow> find p (update_rows p f rows) = Some (f r)"
  by (induction rows) (auto simp: update_rows_def split: if_splits)

lemma find_state_in: "find_state i d = Some r \<Longrightarrow> r \<in> set (db_states d) \<and> ts_id r = i"
  by (auto simp: find_state_def find_Some_iff)

lemma set_clauses_simps [simp]:
  "ts_id (set_clauses n st out err r) = ts_id r" "ts_status (set_clauses n st out err r) = st"
  "ts_attemptCount (set_clauses n st out err r) = ts_attemptCount r"
  "ts_output (set_clauses n st out err r) = (case out of Some v \<Rightarrow> Some v | None \<Rightarrow> ts_output r)"
  "ts_error (set_clauses n st out err r) = (case err of Some e \<Rightarrow> Some e | None \<Rightarrow> ts_error r)"
  by (simp_all add: set_clauses_def)

lemma updateTaskState_frame [simp]:
  "wd_claimer (updateTaskState i st out err w) = wd_claimer w" "wd_redis (updateTaskState i st out err w) = wd_redis w"
  "wd_now (updateTaskState i st out err w) = wd_now w" "aborted (updateTaskState i st out err w) = aborted w"
  "db_executions (wd_db (updateTaskState i st out err w)) = db_executions (wd_db w)"
  "ts_id ` set (db_states (wd_db (updateTaskState i st out err w))) = ts_id ` set (db_states (wd_db w))"
proof -
  have "map ts_id (db_states (wd_db (updateTaskState i st out err w))) = map ts_id (db_states (wd_db w))"
    by (simp add: updateTaskState_def write_state_def set_state_def map_update_rows)
  then show "ts_id ` set (db_states (wd_db (updateTaskState i st out err w))) = ts_id ` set (db_states (wd_db w))"
    by (metis list.set_map)
qed (simp_all add: updateTaskState_def write_state_def set_state_def aborted_def)

lemma find_updateTaskState:
  "find_state i (wd_db w) = Some r \<Longrightarrow>
     find_state i (wd_db (updateTaskState i st out err w)) = Some (set_clauses (wd_now w) st out err r)"
  by (simp add: find_state_def updateTaskState_def write_state_def set_state_def find_update)

text \<open>The life of a task: waiting for an attempt with the number of failures so far, or done.\<close>

datatype life = Waiting int | Done TaskStatus

definition life_of :: "TaskState \<Rightarrow> life" where
  "life_of ts = (if ts_status ts = Pending then Waiting (ts_attemptCount ts) else Done (ts_status ts))"

definition retries :: "RetryPolicy option \<Rightarrow> int \<Rightarrow> bool" where
  "retries p n = (case p of None \<Rightarrow> False | Some q \<Rightarrow> shouldRetry q n)"

inductive life_step :: "RetryPolicy option \<Rightarrow> life \<Rightarrow> life \<Rightarrow> bool" for p where
  success: "life_step p (Waiting n) (Done Completed)"
| timeout: "life_step p (Waiting n) (Done TimedOut)"
| failure: "\<not> retries p (n + 1) \<Longrightarrow> life_step p (Waiting n) (Done Failed)"
| again: "retries p (n + 1) \<Longrightarrow> life_step p (Waiting n) (Waiting (n + 1))"

inductive_cases life_stepE: "life_step p a b"

context redis_server
begin

lemma run_outcome:
  assumes "xe_redis E = R" "cl_currentTask (wd_claimer w) = Some t" "ct_taskStateId t = i" "\<not> ct_aborted t"
    and "undisturbed E lists" "advances E"
    and "find_state i (wd_db w) = Some ts" "ts_status ts = Pending"
    and "ts_executionId ts \<in> ex_id ` set (db_executions (wd_db w))"
    and "case td_retryPolicy td of None \<Rightarrow> True | Some p \<Rightarrow> \<exists>n. calculateRetryDelay p (ts_attemptCount ts + 1) = Fin n"
  shows "\<exists>w' ts'. run T E ts td w = Some (Finished, w') \<and> find_state i (wd_db w') = Some ts' \<and>
    cl_currentTask (wd_claimer w') = None \<and> processing (wd_redis w') = remove1 i (processing (wd_redis w)) \<and>
    waiting (wd_redis w') = waiting (wd_redis w) @ (if ts_status ts' = Pending then [i] else []) \<and>
    (case fst (executeWithTimeout T (wd_now w) td (timeout_of td)) of
       None \<Rightarrow> ts_status ts' = TimedOut \<and> ts_error ts' = Some ''Task timed out'' \<and> ts_attemptCount ts' = ts_attemptCount ts
     | Some res \<Rightarrow>
         if tk_success res then ts_status ts' = Completed \<and>
           ts_output ts' = (case tk_output res of Some v \<Rightarrow> Some v | None \<Rightarrow> ts_output ts) \<and> ts_attemptCount ts' = ts_attemptCount ts
         else if retries (td_retryPolicy td) (ts_attemptCount ts + 1)
           then ts_status ts' = Pending \<and> ts_attemptCount ts' = ts_attemptCount ts + 1 \<and> ts_error ts' = tk_error res
         else ts_status ts' = Failed \<and>
           ts_error ts' = (case tk_error res of Some e \<Rightarrow> Some e | None \<Rightarrow> ts_error ts))"
proof -
  have id: "ts_id ts = i" using find_state_in [OF assms(7)] by simp
  let ?w1 = "updateTaskState i Running None None w"
  obtain result d where ex: "executeWithTimeout T (wd_now w) td (timeout_of td) = (result, d)"
    by (cases "executeWithTimeout T (wd_now w) td (timeout_of td)")
  let ?w2 = "xe_sleep E (Fin (of_int d)) ?w1"
  have w2: "wd_db ?w2 = wd_db ?w1" "wd_claimer ?w2 = wd_claimer w" "lists (wd_redis ?w2) = lists (wd_redis w)"
    using assms(5) by (simp_all add: undisturbed_def)
  have quiet: "\<not> aborted w" "\<not> aborted ?w2"
    using assms(2,4) w2(2) by (simp_all add: aborted_def isCurrentTaskAborted_def)
  have run: "run T E ts td w = (case result of None \<Rightarrow> Some (Finished, handleTimeout E ts ?w2)
      | Some res \<Rightarrow> if tk_success res then Some (Finished, handleSuccess E ts (tk_output res) ?w2)
          else handleFailure E ts td (tk_error res) ?w2)"
    using quiet assms(8) by (simp add: run_def ex id Let_def split: option.split)
  note found = find_updateTaskState [OF assms(7), of Running None None, folded w2(1)]
  show ?thesis
  proof (cases result)
    case None
    let ?w3 = "updateTaskState i TimedOut None (Some ''Task timed out'') ?w2"
    have "run T E ts td w = Some (Finished, release_current E ?w3)"
      by (simp add: run None handleTimeout_def id)
    then show ?thesis
      using find_updateTaskState [OF found, of TimedOut None "Some ''Task timed out''"]
        release_current_lists [of ?w3 t E] assms(1-3) w2 by (auto simp: ex None)
  next
    case (Some res)
    show ?thesis
    proof (cases "tk_success res")
      case True
      let ?w3 = "updateTaskState i Completed (tk_output res) None ?w2"
      have "run T E ts td w = Some (Finished, release_current E ?w3)"
        by (simp add: run Some True handleSuccess_def id)
      then show ?thesis
        using find_updateTaskState [OF found, of Completed "tk_output res" None]
          release_current_lists [of ?w3 t E] assms(1-3) w2 by (auto simp: ex Some True cong: option.case_cong)
    next
      case False
      have hf: "run T E ts td w = handleFailure E ts td (tk_error res) ?w2" by (simp add: run Some False)
      have cur: "cl_currentTask (wd_claimer ?w2) = Some t" "ct_taskStateId t = ts_id ts" using w2 assms(2,3) id by simp_all
      show ?thesis
      proof (cases "retries (td_retryPolicy td) (ts_attemptCount ts + 1)")
        case True
        then obtain p n where p: "td_retryPolicy td = Some p" "shouldRetry p (ts_attemptCount ts + 1)"
            "calculateRetryDelay p (ts_attemptCount ts + 1) = Fin n"
          using assms(10) by (auto simp: retries_def split: option.splits)
        obtain w' where w': "handleFailure E ts td (tk_error res) ?w2 = Some (Finished, w')"
          "db_states (wd_db w') = update_rows (\<lambda>r. ts_id r = ts_id ts)
            (\<lambda>r. r\<lparr>ts_attemptCount := ts_attemptCount ts + 1, ts_status := Pending, ts_error := tk_error res\<rparr>) (db_states (wd_db ?w2))"
          "cl_currentTask (wd_claimer w') = None" "waiting (wd_redis w') = waiting (wd_redis ?w2) @ [ts_id ts]"
          "processing (wd_redis w') = remove1 (ts_id ts) (processing (wd_redis ?w2))"
          using retried_failure [OF assms(1) cur assms(4,6,5) p, of "tk_error res"] by blast
        have "find_state i (wd_db w') = Some (r\<lparr>ts_attemptCount := ts_attemptCount ts + 1, ts_status := Pending, ts_error := tk_error res\<rparr>)"
          if "find_state i (wd_db ?w2) = Some r" for r
          using that unfolding find_state_def w'(2) id by (rule find_update) simp
        from this [OF found] show ?thesis using hf w' w2(3) True by (auto simp: ex Some False id cong: option.case_cong)
      next
        case F: False
        have no: "case td_retryPolicy td of None \<Rightarrow> True | Some p \<Rightarrow> \<not> shouldRetry p (ts_attemptCount ts + 1)"
          using F by (auto simp: retries_def split: option.splits)
        have ids: "ts_id ts \<in> ts_id ` set (db_states (wd_db ?w2))" "ts_executionId ts \<in> ex_id ` set (db_executions (wd_db ?w2))"
          using find_state_in [OF assms(7)] assms(9) by (auto simp: w2)
        obtain w' where w': "handleFailure E ts td (tk_error res) ?w2 = Some (Finished, w')"
          "db_states (wd_db w') = update_rows (\<lambda>r. ts_id r = ts_id ts)
            (\<lambda>r. r\<lparr>ts_attemptCount := (if td_retryPolicy td = None then ts_attemptCount r else ts_attemptCount ts + 1),
               ts_status := Failed, ts_completedAt := Some (wd_now ?w2),
               ts_error := (case tk_error res of Some e \<Rightarrow> Some e | None \<Rightarrow> ts_error r)\<rparr>) (db_states (wd_db ?w2))"
          "cl_currentTask (wd_claimer w') = None" "waiting (wd_redis w') = waiting (wd_redis ?w2)"
          "processing (wd_redis w') = remove1 (ts_id ts) (processing (wd_redis ?w2))"
          using final_failure [OF assms(1) cur ids no, of "tk_error res"] by blast
        have "find_state i (wd_db w') = Some (r\<lparr>ts_attemptCount := (if td_retryPolicy td = None then ts_attemptCount r else ts_attemptCount ts + 1),
               ts_status := Failed, ts_completedAt := Some (wd_now ?w2),
               ts_error := (case tk_error res of Some e \<Rightarrow> Some e | None \<Rightarrow> ts_error r)\<rparr>)"
          if "find_state i (wd_db ?w2) = Some r" for r
          using that unfolding find_state_def w'(2) id by (rule find_update) simp
        from this [OF found] show ?thesis using hf w' w2(3) F by (auto simp: ex Some False id cong: option.case_cong)
      qed
    qed
  qed
qed

lemma run_life:
  assumes "xe_redis E = R" "cl_currentTask (wd_claimer w) = Some t" "ct_taskStateId t = i" "\<not> ct_aborted t"
    and "undisturbed E lists" "advances E"
    and "find_state i (wd_db w) = Some ts" "ts_status ts = Pending"
    and "ts_executionId ts \<in> ex_id ` set (db_executions (wd_db w))"
    and "case td_retryPolicy td of None \<Rightarrow> True | Some p \<Rightarrow> valid_policy p" "0 \<le> ts_attemptCount ts"
  shows "\<exists>w' ts'. run T E ts td w = Some (Finished, w') \<and> find_state i (wd_db w') = Some ts' \<and>
    life_step (td_retryPolicy td) (life_of ts) (life_of ts') \<and> cl_currentTask (wd_claimer w') = None \<and>
    processing (wd_redis w') = remove1 i (processing (wd_redis w)) \<and>
    waiting (wd_redis w') = waiting (wd_redis w) @ (if ts_status ts' = Pending then [i] else [])"
proof -
  have delay: "case td_retryPolicy td of None \<Rightarrow> True | Some p \<Rightarrow> \<exists>n. calculateRetryDelay p (ts_attemptCount ts + 1) = Fin n"
    using assms(10,11) delay_bounds [of _ "ts_attemptCount ts + 1"] by (auto split: option.splits)
  obtain w' ts' where o: "run T E ts td w = Some (Finished, w')" "find_state i (wd_db w') = Some ts'"
    "cl_currentTask (wd_claimer w') = None"
    "processing (wd_redis w') = remove1 i (processing (wd_redis w))"
    "waiting (wd_redis w') = waiting (wd_redis w) @ (if ts_status ts' = Pending then [i] else [])"
    "case fst (executeWithTimeout T (wd_now w) td (timeout_of td)) of
       None \<Rightarrow> ts_status ts' = TimedOut \<and> ts_error ts' = Some ''Task timed out'' \<and> ts_attemptCount ts' = ts_attemptCount ts
     | Some res \<Rightarrow>
         if tk_success res then ts_status ts' = Completed \<and>
           ts_output ts' = (case tk_output res of Some v \<Rightarrow> Some v | None \<Rightarrow> ts_output ts) \<and> ts_attemptCount ts' = ts_attemptCount ts
         else if retries (td_retryPolicy td) (ts_attemptCount ts + 1)
           then ts_status ts' = Pending \<and> ts_attemptCount ts' = ts_attemptCount ts + 1 \<and> ts_error ts' = tk_error res
         else ts_status ts' = Failed \<and>
           ts_error ts' = (case tk_error res of Some e \<Rightarrow> Some e | None \<Rightarrow> ts_error ts)"
    using run_outcome [OF assms(1-9) delay] by blast
  have "life_step (td_retryPolicy td) (life_of ts) (life_of ts')"
    using o(6) assms(8) by (auto simp: life_of_def intro: life_step.intros split: option.splits if_splits)
  then show ?thesis using o(1-5) by blast
qed

end

lemma life_chain:
  assumes "case p of None \<Rightarrow> True | Some q \<Rightarrow> valid_policy q"
  shows "(life_step p ^^ n) (Waiting 0) x \<Longrightarrow> (case x of Waiting k \<Rightarrow> k = int n \<and> n < 10 | Done st \<Rightarrow> n \<le> 10)"
proof (induction n arbitrary: x)
  case (Suc n)
  then obtain y where y: "(life_step p ^^ n) (Waiting 0) y" "life_step p y x" by auto
  from y(2) show ?case
  proof cases
    case (again k)
    then have k: "k = int n" "n < 10" using Suc.IH [OF y(1)] by auto
    obtain q where "p = Some q" "shouldRetry q (k + 1)" using again(3) by (auto simp: retries_def split: option.splits)
    then have "k + 1 < 10" using retry_attempts_bound [of q "k + 1"] assms k by simp
    then show ?thesis using again k by simp
  qed (use Suc.IH [OF y(1)] in auto)
qed (simp)

subsection \<open>Properties\<close>



text \<open>
  Every life ends: under an accepted policy, or none, a task is attempted at most ten times, and the
  number of failures recorded is the number of attempts made.
\<close>

theorem life_bounded:
  assumes "case p of None \<Rightarrow> True | Some q \<Rightarrow> valid_policy q" "(life_step p ^^ n) (Waiting 0) x"
  shows "n \<le> 10 \<and> (\<forall>k. x = Waiting k \<longrightarrow> k = int n \<and> n < 10)"
  using life_chain [OF assms] by (auto split: life.splits)

theorem life_bounded_witness:
  "(life_step None ^^ 1) (Waiting 0) (Done Failed) \<and> (1::nat) \<le> 10"
proof -
  have "(life_step None ^^ 1) (Waiting 0) (Done Failed)"
    by (simp add: eq_OO retries_def life_step.failure)
  from life_bounded [OF _ this] this show ?thesis by simp
qed

text \<open>
  A task that is not pending is not run: the database is not touched and the claimer lets go of it.
\<close>

theorem run_refuses_started:
  assumes "ts_status ts \<noteq> Pending"
  shows "run T E ts td w = Some (Finished, release_current E w) \<and> wd_db (release_current E w) = wd_db w \<and>
    cl_currentTask (wd_claimer (release_current E w)) = None"
proof -
  obtain e where "transition (wd_now w) (ts_status ts) Running (ts_id ts) = TransitionError e"
    using other_to_running [OF assms] by blast
  then show ?thesis by (simp add: run_def Let_def)
qed

theorem run_refuses_started_witness:
  "case run T sample_env (failing_state Completed 0) (retry_task None) (sample_world (failing_state Completed 0)) of
     Some (out, w') \<Rightarrow> out = Finished \<and> map ts_status (db_states (wd_db w')) = [Completed] | None \<Rightarrow> False"
proof -
  have "ts_status (failing_state Completed 0) \<noteq> Pending" by (simp add: failing_state_def)
  from run_refuses_started [OF this, of T sample_env "retry_task None" "sample_world (failing_state Completed 0)"]
  show ?thesis by (simp add: sample_world_facts) (simp add: failing_state_def)
qed

text \<open>
  C39: The result of a task is well formed, whatever the outside world answers: a success carries an object
  as its output and no error, a failure carries a message and no output, and every task type outside the
  five known ones fails.
\<close>

theorem executeTask_result:
  assumes "executeTask T now td = (r, d)"
  shows "(if tk_success r then (\<exists>ps. tk_output r = Some (JObj ps)) \<and> tk_error r = None
      else tk_output r = None \<and> (\<exists>msg. tk_error r = Some msg)) \<and>
    (td_type td \<notin> {''http'', ''script'', ''delay'', ''approval'', ''conditional''} \<longrightarrow> \<not> tk_success r)"
  using assms
  by (auto simp: executeTask_def executeHttp_def executeScript_def executeDelay_def executeApproval_def
      executeConditional_def succeeded_def failed_def Let_def case_prod_unfold
      split: if_splits fetch_result.splits option.splits jsval.splits sum.splits)

definition idle_env :: task_env where
  "idle_env = \<lparr>te_fetch = (\<lambda>_ _ _ _. (NetworkError [], 0)), te_exec = (\<lambda>_. ((None, [], []), 0)), te_eval = (\<lambda>_ _. Inl []),
     te_parse = (\<lambda>_. None), te_invalid_command = (\<lambda>_. []), te_iso = (\<lambda>_. [])\<rparr>"

definition delay_task :: "rat \<Rightarrow> TaskDefinition" where
  "delay_task r = (plain_task ''d'')\<lparr>td_type := ''delay'', td_config := [(''delayMs'', JNum (Fin r))]\<rparr>"

theorem executeTask_result_witness:
  "\<exists>msg. tk_error (fst (executeTask idle_env 0 ((plain_task ''d'')\<lparr>td_type := ''email''\<rparr>))) = Some msg"
proof -
  obtain r d where e: "executeTask idle_env 0 ((plain_task ''d'')\<lparr>td_type := ''email''\<rparr>) = (r, d)" by (metis surj_pair)
  have "td_type ((plain_task ''d'')\<lparr>td_type := ''email''\<rparr>) \<notin> {''http'', ''script'', ''delay'', ''approval'', ''conditional''}"
    by simp
  then show ?thesis using executeTask_result [OF e] by (auto simp: e split: if_splits)
qed

text \<open>
  A delay of more than 2147483647 ms ends at once: Node replaces it by 1 ms, and the task completes
  with the requested delay as its output.
\<close>

theorem delay_overflow:
  assumes "td_type td = ''delay''" "map_of (td_config td) ''delayMs'' = Some (JNum (Fin r))" "2147483647 < r"
    and "timeout_of td = Fin m" "2 \<le> m" "m \<le> 2147483647"
  shows "executeWithTimeout T now td (timeout_of td) = (Some (succeeded (JObj [(''delayMs'', JNum (Fin r))])), 1)"
proof -
  have "2 \<le> \<lfloor>m\<rfloor>" using assms(5) by linarith
  then show ?thesis using assms
    by (simp add: executeWithTimeout_def executeTask_def executeDelay_def config_value_def or_default_def
        timer_ms_def Let_def)
qed

theorem delay_overflow_witness:
  "executeWithTimeout idle_env 0 (delay_task 3000000000) (timeout_of (delay_task 3000000000)) =
     (Some (succeeded (JObj [(''delayMs'', JNum (Fin 3000000000))])), 1)"
  by (rule delay_overflow [of _ _ 300000]) (simp_all add: delay_task_def timeout_of_def plain_task_def)

text \<open>
  When the lock is lost while the task runs, its result is dropped and nothing is recorded; but a
  timeout is recorded all the same, over whatever the new owner of the task may have written.
\<close>

theorem abort_keeps_timeout:
  assumes "ts_status ts = Pending" "\<not> aborted w" "executeWithTimeout T (wd_now w) td (timeout_of td) = (result, d)"
    and "w2 = xe_sleep E (Fin (of_int d)) (updateTaskState (ts_id ts) Running None None w)" "aborted w2"
  shows "run T E ts td w = Some (Finished, case result of
      Some res \<Rightarrow> clear_current w2
    | None \<Rightarrow> release_current E (updateTaskState (ts_id ts) TimedOut None (Some ''Task timed out'') w2))"
  using assms by (simp add: run_def handleTimeout_def Let_def split: option.split)

definition losing_env :: "mem_server executor_env" where
  "losing_env = sample_env\<lparr>xe_sleep := (\<lambda>n w.
     let s = snd (acquire mem_redis ''t'' ''e2'' 30000 (r_tick mem_redis 30001 (wd_redis w)));
         (c, s') = renewal_tick mem_redis (wd_claimer w, s)
     in w\<lparr>wd_now := wd_now w + 40000, wd_redis := s', wd_claimer := c\<rparr>)\<rparr>"

theorem abort_keeps_timeout_witness:
  "\<exists>w'. run idle_env losing_env (failing_state Pending 0) (delay_task 500000) (sample_world (failing_state Pending 0)) = Some (Finished, w') \<and>
     map ts_status (db_states (wd_db w')) = [TimedOut]"
proof -
  let ?w = "sample_world (failing_state Pending 0)"
  let ?w1 = "updateTaskState (ts_id (failing_state Pending 0)) Running None None ?w"
  let ?w2 = "xe_sleep losing_env (Fin (of_int 300000)) ?w1"
  have ex: "executeWithTimeout idle_env (wd_now ?w) (delay_task 500000) (timeout_of (delay_task 500000)) = (None, 300000)"
    by (simp add: executeWithTimeout_def executeTask_def executeDelay_def config_value_def or_default_def timer_ms_def
        delay_task_def timeout_of_def plain_task_def)
  have "isCurrentTaskAborted (fst (renewal_tick mem_redis (wd_claimer ?w,
      snd (acquire mem_redis ''t'' ''e2'' 30000 (r_tick mem_redis 30001 (wd_redis ?w))))))"
    by code_simp
  then have ab: "aborted ?w2"
    by (simp add: aborted_def losing_env_def Let_def case_prod_unfold)
  have st: "db_states (wd_db ?w2) = [set_clauses 100 Running None None (failing_state Pending 0)]"
    by (simp add: losing_env_def Let_def case_prod_unfold updateTaskState_def write_state_def set_state_def
        update_rows_def sample_world_facts)
  have pre: "ts_status (failing_state Pending 0) = Pending" "\<not> aborted ?w"
    by (simp_all add: failing_state_def aborted_def isCurrentTaskAborted_def sample_world_facts)
  let ?w3 = "release_current losing_env (updateTaskState (ts_id (failing_state Pending 0)) TimedOut None (Some ''Task timed out'') ?w2)"
  have "map ts_status (db_states (wd_db ?w3)) = [TimedOut]"
    using st by (simp add: updateTaskState_def write_state_def set_state_def update_rows_def)
  then show ?thesis
    using abort_keeps_timeout [OF pre ex refl ab] by simp
qed

end
