(* ===== verification/Http.thy ===== *)
theory Http
  imports Database JsString
begin

section \<open>Responses and errors (services/scheduler-api/src/middleware/error-handler.ts)\<close>

text \<open>
  A handler answers with a status and a body, or passes an error to \<open>next\<close>, which the error handler
  turns into an answer.  The body of an error is its code; message texts and details are left out.
  An error thrown by a statement has the \<open>SQLSTATE\<close> as its code and no status; any other thrown
  error has neither.
\<close>

record ApiError =
  ae_statusCode :: "int option"
  ae_code :: "string option"

datatype 'b body = Body 'b | ErrorBody string

record 'b response =
  rs_status :: int
  rs_body :: "'b body"

definition respond :: "int \<Rightarrow> 'b \<Rightarrow> 'b response" where
  "respond n b = \<lparr>rs_status = n, rs_body = Body b\<rparr>"

definition respond_error :: "int \<Rightarrow> string \<Rightarrow> 'b response" where
  "respond_error n c = \<lparr>rs_status = n, rs_body = ErrorBody c\<rparr>"

definition createError :: "int \<Rightarrow> string \<Rightarrow> ApiError" where
  "createError statusCode code = \<lparr>ae_statusCode = Some statusCode, ae_code = Some code\<rparr>"

definition db_failure :: "db_error \<Rightarrow> ApiError" where
  "db_failure e = \<lparr>ae_statusCode = None, ae_code = Some (sqlstate e)\<rparr>"

definition thrown :: ApiError where
  "thrown = \<lparr>ae_statusCode = None, ae_code = None\<rparr>"

definition errorHandler :: "ApiError \<Rightarrow> 'b response" where
  "errorHandler err =
     respond_error (case ae_statusCode err of Some n \<Rightarrow> n | None \<Rightarrow> 500)
       (case ae_code err of Some c \<Rightarrow> c | None \<Rightarrow> ''INTERNAL_ERROR'')"

lemma errorHandler_simps [simp]:
  "errorHandler (createError n c) = respond_error n c"
  "errorHandler (db_failure e) = respond_error 500 (sqlstate e)"
  "errorHandler thrown = respond_error 500 ''INTERNAL_ERROR''"
  by (simp_all add: errorHandler_def createError_def db_failure_def thrown_def)

lemma response_simps [simp]:
  "rs_status (respond n b) = n" "rs_body (respond n b) = Body b"
  "rs_status (respond_error n c) = n" "rs_body (respond_error n c) = ErrorBody c"
  "respond n b \<noteq> respond_error m c" "respond_error m c \<noteq> respond n b"
  by (simp_all add: respond_def respond_error_def)

text \<open>\<open>parseInt(s, 10) || v\<close> on a query parameter that may be missing.\<close>

definition query_int :: "string option \<Rightarrow> int \<Rightarrow> int" where
  "query_int s v = (case s of None \<Rightarrow> v
     | Some cs \<Rightarrow> (case js_parseInt cs of None \<Rightarrow> v | Some n \<Rightarrow> if n = 0 then v else n))"

definition clamp :: "int \<Rightarrow> int \<Rightarrow> int \<Rightarrow> int" where
  "clamp lo hi n = min hi (max lo n)"

end
