(* ===== verification/WorkflowController.thy ===== *)
theory WorkflowController
  imports WorkflowFacts Http DagReachability
begin

section \<open>The workflow requests (services/scheduler-api/src/controllers/workflow-controller.ts)\<close>

text \<open>
  A request body is the \<open>jsval\<close> the JSON parser made of it.  \<open>get_prop\<close> reads a property: a missing one, or
  one of a value that is no object, is undefined (the names read here are not inherited); reading a
  property of null throws, which is written out where it can happen.  The checks come in the order of
  the code, each failure a constructor in place of its message.

  A condition or a description that is not a string is stored as the text the database driver makes
  of it, the parameter \<open>pg_text\<close>.  An edge whose ends are not strings names no task, so the graph
  check refuses it (\<open>temp_edges\<close> is then \<^const>\<open>None\<close>).  The graph check looks at ids only.
\<close>

datatype body_error =
    NotAnObject | NameRequired | TasksRequired | TaskNotObject | TaskName | TaskType | TaskTimeout
  | EdgesNotArray | TriggerRequired | TriggerType | NullEdge

fun get_prop :: "jsval \<Rightarrow> string \<Rightarrow> jsval" where
  "get_prop (JObj ps) k = (case map_of ps k of Some v \<Rightarrow> v | None \<Rightarrow> JUndefined)"
| "get_prop _ k = JUndefined"

text \<open>\<open>v && typeof v === 'object'\<close>\<close>

fun is_object :: "jsval \<Rightarrow> bool" where
  "is_object (JObj ps) = True"
| "is_object (JArr vs) = True"
| "is_object _ = False"

fun nonempty_string :: "jsval \<Rightarrow> bool" where
  "nonempty_string (JStr s) = (s \<noteq> [])"
| "nonempty_string _ = False"

fun timeout_ok :: "jsval \<Rightarrow> bool" where
  "timeout_ok JUndefined = True"
| "timeout_ok (JNum n) = (case n of Fin r \<Rightarrow> 0 < r | PosInf \<Rightarrow> True | _ \<Rightarrow> False)"
| "timeout_ok _ = False"

definition check_task :: "jsval \<Rightarrow> body_error option" where
  "check_task task =
     (if \<not> is_object task then Some TaskNotObject
      else if \<not> nonempty_string (get_prop task ''name'') then Some TaskName
      else if \<not> nonempty_string (get_prop task ''type'') then Some TaskType
      else if \<not> timeout_ok (get_prop task ''timeoutMs'') then Some TaskTimeout
      else None)"

fun check_tasks :: "jsval list \<Rightarrow> body_error option" where
  "check_tasks [] = None"
| "check_tasks (task # tasks) = (case check_task task of Some e \<Rightarrow> Some e | None \<Rightarrow> check_tasks tasks)"

definition validTypes :: "string list" where
  "validTypes = [''manual'', ''schedule'', ''webhook'', ''event'']"

record BodyData =
  bd_name :: string
  bd_description :: jsval
  bd_taskDefinitions :: "NewTask list"
  bd_edges :: "(jsval \<times> jsval \<times> jsval) list"
  bd_triggerConfig :: jsval

fun text_value :: "jsval \<Rightarrow> string" where
  "text_value (JStr s) = s"
| "text_value _ = []"

definition body_task :: "jsval \<Rightarrow> NewTask" where
  "body_task t =
     \<lparr>nt_name = text_value (get_prop t ''name''), nt_type = text_value (get_prop t ''type''),
      nt_config = (if truthy (get_prop t ''config'') then get_prop t ''config'' else JObj []),
      nt_timeoutMs = (case get_prop t ''timeoutMs'' of JNum n \<Rightarrow> n | _ \<Rightarrow> Fin 300000),
      nt_retryPolicy = (case get_prop t ''retryPolicy'' of JUndefined \<Rightarrow> None | v \<Rightarrow> Some v)\<rparr>"

definition validateWorkflowBody :: "jsval \<Rightarrow> body_error + BodyData" where
  "validateWorkflowBody b =
     (if \<not> is_object b then Inl NotAnObject
      else
        (case get_prop b ''name'' of
           JStr name \<Rightarrow>
             if js_trim name = [] then Inl NameRequired
             else
               (case get_prop b ''taskDefinitions'' of
                  JArr tasks \<Rightarrow>
                    if tasks = [] then Inl TasksRequired
                    else
                      (case check_tasks tasks of
                         Some e \<Rightarrow> Inl e
                       | None \<Rightarrow>
                           (case get_prop b ''edges'' of
                              JArr edges \<Rightarrow>
                                if \<not> is_object (get_prop b ''triggerConfig'') then Inl TriggerRequired
                                else if get_prop (get_prop b ''triggerConfig'') ''type'' \<notin> JStr ` set validTypes
                                then Inl TriggerType
                                else if JNull \<in> set edges then Inl NullEdge
                                else Inr
                                  \<lparr>bd_name = name, bd_description = get_prop b ''description'',
                                   bd_taskDefinitions = map body_task tasks,
                                   bd_edges = map (\<lambda>e. (get_prop e ''sourceTaskId'', get_prop e ''targetTaskId'',
                                     get_prop e ''conditionExpr'')) edges,
                                   bd_triggerConfig = get_prop b ''triggerConfig''\<rparr>
                            | _ \<Rightarrow> Inl EdgesNotArray))
                | _ \<Rightarrow> Inl TasksRequired)
         | _ \<Rightarrow> Inl NameRequired))"

text \<open>\<open>v || null\<close> for a text column.\<close>

definition text_column :: "(jsval \<Rightarrow> string) \<Rightarrow> jsval \<Rightarrow> string option" where
  "text_column pg_text v =
     (if truthy v then Some (case v of JStr s \<Rightarrow> s | _ \<Rightarrow> pg_text v) else None)"

definition temp_task :: "string \<Rightarrow> NewTask \<Rightarrow> TaskDefinition" where
  "temp_task workflowId t =
     \<lparr>td_id = nt_name t, td_workflowId = workflowId, td_name = nt_name t, td_type = nt_type t,
      td_config = (case nt_config t of JObj ps \<Rightarrow> ps | _ \<Rightarrow> []), td_timeoutMs = nt_timeoutMs t,
      td_retryPolicy = None\<rparr>"

fun temp_edges :: "(jsval \<Rightarrow> string) \<Rightarrow> string \<Rightarrow> nat \<Rightarrow> (jsval \<times> jsval \<times> jsval) list \<Rightarrow> Edge list option" where
  "temp_edges pg_text workflowId i [] = Some []"
| "temp_edges pg_text workflowId i ((s, t, c) # es) =
     (case (s, t, temp_edges pg_text workflowId (Suc i) es) of
        (JStr u, JStr v, Some rest) \<Rightarrow>
          Some (\<lparr>e_id = ''edge-'' @ show_nat i, e_workflowId = workflowId, sourceTaskId = u, targetTaskId = v,
                 conditionExpr = text_column pg_text c\<rparr> # rest)
      | _ \<Rightarrow> None)"

text \<open>The two steps \<open>createWorkflow\<close> and \<open>updateWorkflow\<close> share: the body is checked, then its graph.\<close>

definition checked_workflow :: "(jsval \<Rightarrow> string) \<Rightarrow> string \<Rightarrow> jsval \<Rightarrow> ApiError + NewWorkflow" where
  "checked_workflow pg_text workflowId body =
     (case validateWorkflowBody body of
        Inl NullEdge \<Rightarrow> Inl thrown
      | Inl _ \<Rightarrow> Inl (createError 400 ''VALIDATION_ERROR'')
      | Inr data \<Rightarrow>
          (case temp_edges pg_text workflowId 0 (bd_edges data) of
             None \<Rightarrow> Inl (createError 400 ''DAG_VALIDATION_ERROR'')
           | Some edges \<Rightarrow>
               if \<not> dv_valid (validateDAG (map (temp_task workflowId) (bd_taskDefinitions data)) edges)
               then Inl (createError 400 ''DAG_VALIDATION_ERROR'')
               else Inr \<lparr>nw_name = bd_name data, nw_description = text_column pg_text (bd_description data),
                 nw_triggerConfig = bd_triggerConfig data, nw_taskDefinitions = bd_taskDefinitions data,
                 nw_edges = edges\<rparr>))"

datatype workflow_body =
    OneWorkflow Workflow
  | WorkflowList "Workflow list" nat int int
  | NoContent

definition createWorkflow ::
    "(jsval \<Rightarrow> string) \<Rightarrow> (nat \<Rightarrow> string) \<Rightarrow> date \<Rightarrow> jsval \<Rightarrow> db \<Rightarrow> workflow_body response \<times> db" where
  "createWorkflow pg_text gen now body d =
     (case checked_workflow pg_text ''temp'' body of
        Inl e \<Rightarrow> (errorHandler e, d)
      | Inr w \<Rightarrow>
          (case workflow_create gen now w d of
             Inl e \<Rightarrow> (errorHandler (db_failure e), d)
           | Inr (workflow, d') \<Rightarrow> (respond 201 (OneWorkflow workflow), d')))"

definition listWorkflows :: "string option \<Rightarrow> string option \<Rightarrow> db \<Rightarrow> workflow_body response" where
  "listWorkflows q_page q_pageSize d =
     (let page = max 1 (query_int q_page 1);
          pageSize = clamp 1 100 (query_int q_pageSize 20)
      in case workflow_findAll page pageSize d of
           Inl e \<Rightarrow> errorHandler (db_failure e)
         | Inr (workflows, n) \<Rightarrow> respond 200 (WorkflowList workflows n page pageSize))"

definition getWorkflow :: "string \<Rightarrow> db \<Rightarrow> workflow_body response" where
  "getWorkflow i d =
     (case workflow_findById i d of
        None \<Rightarrow> errorHandler (createError 404 ''NOT_FOUND'')
      | Some workflow \<Rightarrow> respond 200 (OneWorkflow workflow))"

definition updateWorkflow ::
    "(jsval \<Rightarrow> string) \<Rightarrow> (nat \<Rightarrow> string) \<Rightarrow> date \<Rightarrow> string \<Rightarrow> jsval \<Rightarrow> db \<Rightarrow> workflow_body response \<times> db" where
  "updateWorkflow pg_text gen now i body d =
     (case checked_workflow pg_text i body of
        Inl e \<Rightarrow> (errorHandler e, d)
      | Inr w \<Rightarrow>
          (case workflow_update gen now i w d of
             Inl e \<Rightarrow> (errorHandler (db_failure e), d)
           | Inr (None, d') \<Rightarrow> (errorHandler (createError 404 ''NOT_FOUND''), d')
           | Inr (Some workflow, d') \<Rightarrow> (respond 200 (OneWorkflow workflow), d')))"

definition deleteWorkflow :: "string \<Rightarrow> db \<Rightarrow> workflow_body response \<times> db" where
  "deleteWorkflow i d =
     (if hasActiveExecutions i d then (errorHandler (createError 409 ''CONFLICT''), d)
      else
        (case workflow_delete i d of
           Inl e \<Rightarrow> (errorHandler (db_failure e), d)
         | Inr (deleted, d') \<Rightarrow>
             if deleted then (respond 204 NoContent, d')
             else (errorHandler (createError 404 ''NOT_FOUND''), d')))"

subsection \<open>What reaches the repository\<close>

lemma checked_workflow_ok:
  assumes "checked_workflow pg_text i body = Inr w"
  shows "edge_rel (nw_edges w) \<subseteq> (nt_name ` set (nw_taskDefinitions w)) \<times> (nt_name ` set (nw_taskDefinitions w))"
    "acyclic (edge_rel (nw_edges w))"
proof -
  obtain tasks edges where w: "nw_taskDefinitions w = tasks" "nw_edges w = edges"
    and ok: "dv_valid (validateDAG (map (temp_task i) tasks) edges)"
    using assms by (auto simp: checked_workflow_def split: sum.splits body_error.splits option.splits if_splits)
  have "task_ids (map (temp_task i) tasks) = nt_name ` set tasks"
    by (simp add: task_ids_def temp_task_def image_image)
  then show "edge_rel (nw_edges w) \<subseteq> (nt_name ` set (nw_taskDefinitions w)) \<times> (nt_name ` set (nw_taskDefinitions w))"
    "acyclic (edge_rel (nw_edges w))"
    using ok unfolding validateDAG_accepts w by simp_all
qed

lemma checked_workflow_status:
  "checked_workflow pg_text i body = Inl e \<Longrightarrow> rs_status (errorHandler e :: 'b response) \<in> {400, 500}"
  by (auto simp: checked_workflow_def split: sum.splits body_error.splits option.splits if_splits)

lemma createWorkflow_schema:
  "inj gen \<Longrightarrow> schema_ok gen d \<Longrightarrow> schema_ok gen (snd (createWorkflow pg_text gen now body d))"
  by (auto simp: createWorkflow_def split: sum.split prod.split intro: workflow_create_schema)

lemma updateWorkflow_schema:
  "inj gen \<Longrightarrow> schema_ok gen d \<Longrightarrow> schema_ok gen (snd (updateWorkflow pg_text gen now i body d))"
  by (auto simp: updateWorkflow_def split: sum.split prod.split option.split intro: workflow_update_schema)

lemma deleteWorkflow_schema: "schema_ok gen d \<Longrightarrow> schema_ok gen (snd (deleteWorkflow i d))"
  by (auto simp: deleteWorkflow_def split: sum.split prod.split intro: workflow_delete_schema)

subsection \<open>Properties\<close>

text \<open>
  C4: A created workflow is well formed: when \<open>createWorkflow\<close> answers 201, the body passed every
  check, its edges join tasks of the body by name and form no cycle, the workflow is found under its
  new id, and its tasks are those of the body in order.  Any other answer leaves the database as it was.
\<close>

theorem createWorkflow_sound:
  assumes "inj gen" "schema_ok gen d" "createWorkflow pg_text gen now body d = (r, d')"
  shows "(\<exists>w data. rs_status r = 201 \<and> rs_body r = Body (OneWorkflow w) \<and> validateWorkflowBody body = Inr data \<and>
      workflow_findById (wf_id w) d' = Some w \<and> wf_name w = bd_name data \<and>
      map tr_name (wf_taskDefinitions w) = map nt_name (bd_taskDefinitions data) \<and>
      edge_rel (wf_edges w) \<subseteq> (nt_name ` set (bd_taskDefinitions data)) \<times> (nt_name ` set (bd_taskDefinitions data)) \<and>
      acyclic (edge_rel (wf_edges w))) \<or>
    (rs_status r \<in> {400, 500} \<and> d' = d)"
proof (cases "checked_workflow pg_text ''temp'' body")
  case (Inl e)
  then show ?thesis using assms(3) checked_workflow_status [OF Inl] by (auto simp: createWorkflow_def)
next
  case (Inr w)
  show ?thesis
  proof (cases "workflow_create gen now w d")
    case (Inl e)
    then show ?thesis using assms(3) Inr by (auto simp: createWorkflow_def)
  next
    case (Inr q)
    then obtain workflow where c: "workflow_create gen now w d = Inr (workflow, d')"
      and r: "r = respond 201 (OneWorkflow workflow)"
      using assms(3) \<open>checked_workflow pg_text ''temp'' body = Inr w\<close>
      by (cases q) (auto simp: createWorkflow_def)
    obtain data where data: "validateWorkflowBody body = Inr data" "nw_name w = bd_name data"
        "nw_taskDefinitions w = bd_taskDefinitions data"
      using \<open>checked_workflow pg_text ''temp'' body = Inr w\<close>
      by (auto simp: checked_workflow_def split: sum.splits body_error.splits option.splits if_splits)
    note stored = workflow_create_effect [OF c]
    from stored obtain row tasks edges where
      wk: "workflow = workflow_object row (map task_object tasks) (map edge_object edges)"
      and st: "list_all2 (stores_task (w_id row)) (nw_taskDefinitions w) (map task_object tasks)"
        "list_all2 (stores_edge (w_id row)) (nw_edges w) (map edge_object edges)" "w_name row = nw_name w"
      by blast
    have names: "map tr_name (wf_taskDefinitions workflow) = map nt_name (nw_taskDefinitions w)"
      using stores_task_names [OF st(1)] by (simp add: wk workflow_object_def)
    have "map (\<lambda>e. (sourceTaskId e, targetTaskId e)) (wf_edges workflow) =
        map (\<lambda>e. (sourceTaskId e, targetTaskId e)) (nw_edges w)"
      using stores_edge_ends [OF st(2)] by (simp add: wk workflow_object_def)
    then have rel: "edge_rel (wf_edges workflow) = edge_rel (nw_edges w)"
      unfolding edge_rel_def by (metis list.set_map)
    have "workflow_findById (wf_id workflow) d' = Some workflow"
      using workflow_create_found [OF assms(1,2) c] by blast
    then show ?thesis
      using checked_workflow_ok [OF \<open>checked_workflow pg_text ''temp'' body = Inr w\<close>] names rel data st(3)
      by (auto simp: r wk workflow_object_def)
  qed
qed

definition sample_body :: "string list \<Rightarrow> (string \<times> string) list \<Rightarrow> jsval" where
  "sample_body ts es = JObj [(''name'', JStr ''w''),
     (''taskDefinitions'', JArr (map (\<lambda>t. JObj [(''name'', JStr t), (''type'', JStr ''delay'')]) ts)),
     (''edges'', JArr (map (\<lambda>(u, v). JObj [(''sourceTaskId'', JStr u), (''targetTaskId'', JStr v)]) es)),
     (''triggerConfig'', JObj [(''type'', JStr ''manual'')])]"

theorem createWorkflow_sound_witness:
  "let (r, d') = createWorkflow (\<lambda>_. []) sample_gen 5 (sample_body [''a'', ''b''] []) empty_db
   in rs_status r = 201 \<and> (\<exists>w. workflow_findById (wf_id w) d' = Some w \<and> map tr_name (wf_taskDefinitions w) = [''a'', ''b''])"
proof -
  obtain r d' where c: "createWorkflow (\<lambda>_. []) sample_gen 5 (sample_body [''a'', ''b''] []) empty_db = (r, d')"
    by (metis surj_pair)
  have "case createWorkflow (\<lambda>_. []) sample_gen 5 (sample_body [''a'', ''b''] []) empty_db of (r, d') \<Rightarrow> rs_status r = 201"
    by code_simp
  then have st: "rs_status r = 201" by (simp add: c)
  have "case validateWorkflowBody (sample_body [''a'', ''b''] []) of Inr data \<Rightarrow>
      map nt_name (bd_taskDefinitions data) = [''a'', ''b''] | Inl e \<Rightarrow> False"
    by code_simp
  then obtain data where "validateWorkflowBody (sample_body [''a'', ''b''] []) = Inr data"
      "map nt_name (bd_taskDefinitions data) = [''a'', ''b'']"
    by (cases "validateWorkflowBody (sample_body [''a'', ''b''] [])") auto
  then show ?thesis
    using createWorkflow_sound [OF inj_sample_gen schema_ok_empty c] st by (auto simp: c)
qed



text \<open>
  A workflow is deleted only if it never ran: with an active execution the request is refused with
  409, with only ended ones it fails with 500 although the check for active executions has passed, and
  nothing is deleted.
\<close>

theorem deleteWorkflow_after_run:
  assumes "i \<in> w_id ` set (db_workflows d)" "x \<in> set (db_executions d)" "ex_workflowId x = i"
  shows "deleteWorkflow i d =
    ((if hasActiveExecutions i d then respond_error 409 ''CONFLICT'' else respond_error 500 ''23503''), d)"
  using workflow_delete_executed [OF assms] by (simp add: deleteWorkflow_def)

definition ran_db :: db where
  "ran_db = empty_db\<lparr>
     db_workflows := [\<lparr>w_id = sample_gen 0, w_name = ''w'', w_description = None, w_triggerConfig = JObj [],
       w_createdAt = 0, w_updatedAt = 0\<rparr>],
     db_executions := [\<lparr>ex_id = sample_gen 1, ex_workflowId = sample_gen 0, ex_status = ExCompleted, ex_input = None,
       ex_startedAt = Some 0, ex_completedAt = Some 1, ex_createdAt = 0\<rparr>], db_drawn := 2\<rparr>"

theorem deleteWorkflow_after_run_witness:
  "deleteWorkflow (sample_gen 0) ran_db = (respond_error 500 ''23503'', ran_db)"
proof -
  have "sample_gen 0 \<in> w_id ` set (db_workflows ran_db)" "\<not> hasActiveExecutions (sample_gen 0) ran_db" by code_simp+
  moreover have "\<exists>x \<in> set (db_executions ran_db). ex_workflowId x = sample_gen 0" by code_simp
  ultimately show ?thesis using deleteWorkflow_after_run by fastforce
qed

end
