(* ===== verification/ExecutionController.thy ===== *)
theory ExecutionController
  imports ExecutionRepository Http TaskQueue
begin

section \<open>Executing and cancelling workflows (services/scheduler-api/src/controllers/execution-controller.ts)\<close>

text \<open>
  The class \<open>ExecutionController\<close> over the database and the queue.  Statements outside a transaction
  are committed one by one, so a handler that fails half-way leaves what it has written: each handler
  returns the state beside its response.
\<close>

text \<open>The answers: an id with a status, or an execution with its task states.\<close>

datatype execution_body = Accepted string ExecutionStatus | Found Execution "TaskState list"

definition root_states :: "Edge list \<Rightarrow> TaskState list \<Rightarrow> TaskState list" where
  "root_states edges taskStates =
     (let targetIds = set_add_all (map targetTaskId edges) [] in
      filter (\<lambda>ts. ts_taskDefinitionId ts \<notin> set targetIds) taskStates)"

definition execute ::
    "(nat \<Rightarrow> string) \<Rightarrow> date \<Rightarrow> 's redis \<Rightarrow> string \<Rightarrow> jsval option \<Rightarrow> db \<times> 's \<Rightarrow>
     execution_body response \<times> (db \<times> 's)" where
  "execute gen now R i input st =
     (let (d, s) = st in
      case workflow_findById i d of
        None \<Rightarrow> (respond_error 404 ''NOT_FOUND'', (d, s))
      | Some workflow \<Rightarrow>
          (case execution_create gen now i input d of
             Inl e \<Rightarrow> (errorHandler (db_failure e), (d, s))
           | Inr (execution, d1) \<Rightarrow>
               (case createBatch gen (ex_id execution) (wf_taskDefinitions workflow) d1 of
                  Inl e \<Rightarrow> (errorHandler (db_failure e), (d1, s))
                | Inr (taskStates, d2) \<Rightarrow>
                    (let rootTasks = root_states (wf_edges workflow) taskStates;
                         s1 = fold (\<lambda>rootTask. enqueue R (ts_id rootTask)) rootTasks s;
                         (_, d3) = execution_updateStatus now (ex_id execution) ExRunning (Some now) d2
                     in (respond 202 (Accepted (ex_id execution) ExRunning), (d3, s1))))))"

definition getById :: "string \<Rightarrow> db \<Rightarrow> execution_body response" where
  "getById i d =
     (case execution_findById i d of
        None \<Rightarrow> respond_error 404 ''NOT_FOUND''
      | Some (execution, taskStates) \<Rightarrow> respond 200 (Found execution taskStates))"

definition cancel_pending :: "date \<Rightarrow> TaskState list \<Rightarrow> db \<Rightarrow> db" where
  "cancel_pending now taskStates d =
     fold (\<lambda>ts d. if ts_status ts = Pending
        then snd (state_updateStatus now (ts_id ts) Cancelled None None d) else d) taskStates d"

definition cancel :: "date \<Rightarrow> string \<Rightarrow> db \<Rightarrow> execution_body response \<times> db" where
  "cancel now i d =
     (case execution_findById i d of
        None \<Rightarrow> (respond_error 404 ''NOT_FOUND'', d)
      | Some (execution, _) \<Rightarrow>
          if ex_status execution \<in> {ExCompleted, ExFailed, ExCancelled}
          then (respond_error 409 ''CONFLICT'', d)
          else
            (let (_, d1) = execution_updateStatus now i ExCancelled (Some now) d
             in (respond 200 (Accepted i ExCancelled), cancel_pending now (findByExecutionId i d1) d1)))"

subsection \<open>What \<open>execute\<close> does\<close>

lemma createBatch_ok:
  "e \<in> ex_id ` set (db_executions d) \<Longrightarrow> tr_id ` set ts \<subseteq> tr_id ` set (db_tasks d) \<Longrightarrow>
     \<exists>rows. createBatch gen e ts d =
         Inr (map state_object rows, d\<lparr>db_states := db_states d @ rows, db_drawn := db_drawn d + length ts\<rparr>) \<and>
       map ts_taskDefinitionId rows = map tr_id ts \<and> map ts_id rows = map gen [db_drawn d ..< db_drawn d + length ts] \<and>
       (\<forall>r \<in> set rows. ts_executionId r = e \<and> ts_status r = Pending \<and> ts_attemptCount r = 0 \<and>
          ts_output r = None \<and> ts_error r = None \<and> state_object r = r)"
proof (induction ts arbitrary: d)
  case Nil
  then show ?case by (simp add: createBatch_def)
next
  case (Cons t ts)
  let ?row = "\<lparr>ts_id = next_id gen d, ts_executionId = e, ts_taskDefinitionId = tr_id t,
      ts_status = Pending, ts_attemptCount = 0, ts_output = None, ts_error = None,
      ts_startedAt = None, ts_completedAt = None\<rparr> :: TaskState"
  let ?d = "d\<lparr>db_states := db_states d @ [?row], db_drawn := Suc (db_drawn d)\<rparr>"
  from Cons.IH [of ?d] Cons.prems obtain rows where
    "createBatch gen e ts ?d =
       Inr (map state_object rows, ?d\<lparr>db_states := db_states ?d @ rows, db_drawn := db_drawn ?d + length ts\<rparr>)"
    "map ts_taskDefinitionId rows = map tr_id ts" "map ts_id rows = map gen [db_drawn ?d ..< db_drawn ?d + length ts]"
    "\<forall>r \<in> set rows. ts_executionId r = e \<and> ts_status r = Pending \<and> ts_attemptCount r = 0 \<and>
       ts_output r = None \<and> ts_error r = None \<and> state_object r = r" by auto
  then show ?case using Cons.prems
    by (intro exI [of _ "?row # rows"])
      (simp add: createBatch_def insert_state_def Let_def next_id_def upt_conv_Cons state_object_def
        json_or_undefined_def or_null_def truthy_str_def del: upt_Suc)
qed

lemma update_rows_last:
  "p r \<Longrightarrow> (\<And>q. q \<in> set rows \<Longrightarrow> \<not> p q) \<Longrightarrow> update_rows p f (rows @ [r]) = rows @ [f r]"
  by (simp add: update_rows_def map_idI)

lemma workflow_found:
  assumes "workflow_findById i d = Some wk"
  shows "i \<in> w_id ` set (db_workflows d)" "wf_taskDefinitions wk = select_tasks i d" "wf_edges wk = select_edges i d"
proof -
  obtain row rows where f: "filter (\<lambda>r. w_id r = i) (db_workflows d) = row # rows"
    and wk: "wk = workflow_object row (select_tasks i d) (select_edges i d)"
    using assms by (auto simp: workflow_findById_def split: list.splits)
  have "row \<in> set (filter (\<lambda>r. w_id r = i) (db_workflows d))" using f by simp
  then show "i \<in> w_id ` set (db_workflows d)" by auto
  show "wf_taskDefinitions wk = select_tasks i d" "wf_edges wk = select_edges i d"
    by (simp_all add: wk workflow_object_def)
qed

lemma select_tasks_ids: "tr_id ` set (select_tasks i d) \<subseteq> tr_id ` set (db_tasks d)"
  by (auto simp: select_tasks_def task_object_def)

lemma execute_effect:
  assumes "inj gen" "schema_ok gen d" "workflow_findById i d = Some wk"
  shows "\<exists>ex rows. ex_id ex = gen (db_drawn d) \<and> ex_workflowId ex = i \<and> ex_status ex = ExRunning \<and>
    ex_startedAt ex = Some now \<and> ex_completedAt ex = None \<and> ex_input ex = json_or_undefined input \<and>
    map ts_taskDefinitionId rows = map tr_id (wf_taskDefinitions wk) \<and>
    (\<forall>r \<in> set rows. ts_executionId r = ex_id ex \<and> ts_status r = Pending \<and> ts_attemptCount r = 0) \<and>
    execute gen now R i input (d, s) =
      (respond 202 (Accepted (ex_id ex) ExRunning),
       (d\<lparr>db_executions := db_executions d @ [ex], db_states := db_states d @ rows,
          db_drawn := Suc (db_drawn d) + length (wf_taskDefinitions wk)\<rparr>,
        fold (\<lambda>r. enqueue R (ts_id r))
          (filter (\<lambda>r. ts_taskDefinitionId r \<notin> targetTaskId ` set (wf_edges wk)) rows) s))"
proof -
  let ?ex = "\<lparr>ex_id = gen (db_drawn d), ex_workflowId = i, ex_status = ExPending, ex_input = json_or_undefined input,
      ex_startedAt = None, ex_completedAt = None, ex_createdAt = now\<rparr> :: Execution"
  let ?d1 = "d\<lparr>db_executions := db_executions d @ [?ex], db_drawn := Suc (db_drawn d)\<rparr>"
  have create: "execution_create gen now i input d = Inr (execution_object ?ex, ?d1)"
    using workflow_found(1) [OF assms(3)]
    by (simp add: execution_create_def insert_execution_def next_id_def)
  have "tr_id ` set (wf_taskDefinitions wk) \<subseteq> tr_id ` set (db_tasks ?d1)"
    using select_tasks_ids [of i d] workflow_found(2) [OF assms(3)] by simp
  with createBatch_ok [of "gen (db_drawn d)" ?d1 "wf_taskDefinitions wk" gen] obtain rows where
    rows: "createBatch gen (gen (db_drawn d)) (wf_taskDefinitions wk) ?d1 =
        Inr (map state_object rows, ?d1\<lparr>db_states := db_states d @ rows,
          db_drawn := Suc (db_drawn d) + length (wf_taskDefinitions wk)\<rparr>)"
      "map ts_taskDefinitionId rows = map tr_id (wf_taskDefinitions wk)"
      "\<forall>r \<in> set rows. ts_executionId r = gen (db_drawn d) \<and> ts_status r = Pending \<and> ts_attemptCount r = 0 \<and>
         state_object r = r" by auto
  have same: "map state_object rows = rows" using rows(3) by (simp add: map_idI)
  have fresh: "ex_id q \<noteq> gen (db_drawn d)" if "q \<in> set (db_executions d)" for q
    using schema_fresh [OF assms(1,2), of "map ex_id (db_executions d)"] that by (simp add: ids_of_def) (metis image_eqI)
  have upd: "update_rows (\<lambda>r. ex_id r = gen (db_drawn d)) f (db_executions d @ [?ex]) = db_executions d @ [f ?ex]" for f
    using fresh by (intro update_rows_last) auto
  let ?d2 = "?d1\<lparr>db_states := db_states d @ rows, db_drawn := Suc (db_drawn d) + length (wf_taskDefinitions wk)\<rparr>"
  let ?run = "?ex\<lparr>ex_status := ExRunning, ex_startedAt := Some now\<rparr>"
  have run: "snd (execution_updateStatus now (gen (db_drawn d)) ExRunning (Some now) ?d2) =
      ?d2\<lparr>db_executions := db_executions d @ [?run]\<rparr>"
    by (simp add: execution_updateStatus_def set_execution_def upd)
  have roots: "root_states (wf_edges wk) rows =
      filter (\<lambda>r. ts_taskDefinitionId r \<notin> targetTaskId ` set (wf_edges wk)) rows"
    by (simp add: root_states_def)
  have "execute gen now R i input (d, s) =
      (respond 202 (Accepted (gen (db_drawn d)) ExRunning),
       (?d2\<lparr>db_executions := db_executions d @ [?run]\<rparr>,
        fold (\<lambda>r. enqueue R (ts_id r))
          (filter (\<lambda>r. ts_taskDefinitionId r \<notin> targetTaskId ` set (wf_edges wk)) rows) s))"
    using run by (simp add: execute_def assms(3) create execution_object_def rows(1) same roots case_prod_unfold)
  moreover have "\<forall>r \<in> set rows. ts_executionId r = gen (db_drawn d) \<and> ts_status r = Pending \<and> ts_attemptCount r = 0"
    using rows(3) by blast
  ultimately show ?thesis
    using rows(2) by (intro exI [of _ ?run] exI [of _ rows]) simp
qed

lemma execute_schema:
  assumes "inj gen" "schema_ok gen d" "execute gen now R i input (d, s) = (r, (d', s'))"
  shows "schema_ok gen d'"
  using assms(2,3) execution_create_schema [OF assms(1,2)] createBatch_schema [OF assms(1)]
    execution_updateStatus_schema [of gen _ now _ ExRunning "Some now"]
  by (auto simp: execute_def split: option.splits sum.splits prod.splits) (metis snd_conv)

subsection \<open>What \<open>cancel\<close> does\<close>

definition cancelled :: "string \<Rightarrow> TaskState \<Rightarrow> TaskState" where
  "cancelled i r = (if ts_executionId r = i \<and> ts_status r = Pending then r\<lparr>ts_status := Cancelled\<rparr> else r)"

lemma cancelled_simps [simp]:
  "ts_id (cancelled i r) = ts_id r" "ts_executionId (cancelled i r) = ts_executionId r"
  "ts_taskDefinitionId (cancelled i r) = ts_taskDefinitionId r"
  "ts_status (cancelled i r) = (if ts_executionId r = i \<and> ts_status r = Pending then Cancelled else ts_status r)"
  by (simp_all add: cancelled_def)

lemma cancel_pending_rows:
  "db_states (cancel_pending now tss d) =
     map (\<lambda>r. if ts_id r \<in> ts_id ` {ts \<in> set tss. ts_status ts = Pending} then r\<lparr>ts_status := Cancelled\<rparr> else r) (db_states d)"
proof (induction tss arbitrary: d)
  case Nil
  then show ?case by (simp add: cancel_pending_def)
next
  case (Cons ts tss)
  let ?d = "if ts_status ts = Pending then snd (state_updateStatus now (ts_id ts) Cancelled None None d) else d"
  have "db_states (cancel_pending now (ts # tss) d) = db_states (cancel_pending now tss ?d)"
    by (simp add: cancel_pending_def)
  also have "\<dots> = map (\<lambda>r. if ts_id r \<in> ts_id ` {ts \<in> set tss. ts_status ts = Pending}
      then r\<lparr>ts_status := Cancelled\<rparr> else r) (db_states ?d)" by (rule Cons.IH)
  also have "\<dots> = map (\<lambda>r. if ts_id r \<in> ts_id ` {t \<in> set (ts # tss). ts_status t = Pending}
      then r\<lparr>ts_status := Cancelled\<rparr> else r) (db_states d)"
    by (auto simp: state_updateStatus_def set_state_def update_rows_def image_iff)
  finally show ?case .
qed

lemma cancel_pending_frame:
  "cancel_pending now tss d = d\<lparr>db_states := db_states (cancel_pending now tss d)\<rparr>"
proof (induction tss arbitrary: d)
  case (Cons ts tss)
  let ?d = "if ts_status ts = Pending then snd (state_updateStatus now (ts_id ts) Cancelled None None d) else d"
  have step: "cancel_pending now (ts # tss) d = cancel_pending now tss ?d" by (simp add: cancel_pending_def)
  show ?case unfolding step by (subst Cons.IH) (simp add: state_updateStatus_def set_state_def)
qed (simp add: cancel_pending_def)

lemma key_unique: "distinct (map f xs) \<Longrightarrow> x \<in> set xs \<Longrightarrow> y \<in> set xs \<Longrightarrow> f x = f y \<Longrightarrow> x = y"
  by (simp add: distinct_map inj_on_def)

lemma cancel_effect:
  assumes "schema_ok gen d" "execution_findById i d = Some (ex, tss)" "ex_status ex \<notin> {ExCompleted, ExFailed, ExCancelled}"
  shows "cancel now i d = (respond 200 (Accepted i ExCancelled),
    d\<lparr>db_executions := update_rows (\<lambda>r. ex_id r = i)
        (\<lambda>r. r\<lparr>ex_status := ExCancelled, ex_completedAt := Some now\<rparr>) (db_executions d),
      db_states := map (cancelled i) (db_states d)\<rparr>)"
proof -
  let ?d = "set_execution i (\<lambda>r. r\<lparr>ex_status := ExCancelled, ex_completedAt := Some now\<rparr>) d"
  have upd: "snd (execution_updateStatus now i ExCancelled (Some now) d) = ?d"
    by (simp add: execution_updateStatus_def)
  have st: "db_states ?d = db_states d" by (simp add: set_execution_def)
  have dist: "distinct (map ts_id (db_states d))" using assms(1) by (simp add: schema_ok_def ids_of_def)
  have "ts_id ` {ts \<in> set (findByExecutionId i ?d). ts_status ts = Pending} =
      ts_id ` {r \<in> set (db_states d). ts_executionId r = i \<and> ts_status r = Pending}"
  proof -
    have "{ts \<in> set (findByExecutionId i ?d). ts_status ts = Pending} =
        state_object ` {r \<in> set (db_states d). ts_executionId r = i \<and> ts_status r = Pending}"
      by (auto simp: findByExecutionId_def select_states_def st)
    then show ?thesis by (simp add: image_image)
  qed
  then have "db_states (cancel_pending now (findByExecutionId i ?d) ?d) = map (cancelled i) (db_states d)"
    unfolding cancel_pending_rows st using key_unique [OF dist]
    by (auto simp: cancelled_def intro!: map_cong)
  then have rest: "cancel_pending now (findByExecutionId i ?d) ?d = ?d\<lparr>db_states := map (cancelled i) (db_states d)\<rparr>"
    using cancel_pending_frame by metis
  have "cancel now i d = (respond 200 (Accepted i ExCancelled), ?d\<lparr>db_states := map (cancelled i) (db_states d)\<rparr>)"
    using assms(2,3) by (simp add: cancel_def case_prod_unfold upd rest)
  then show ?thesis by (simp add: set_execution_def)
qed

lemma cancel_schema: "schema_ok gen d \<Longrightarrow> schema_ok gen (snd (cancel now i d))"
proof -
  assume ok: "schema_ok gen d"
  have "schema_ok gen (cancel_pending now tss d')" if "schema_ok gen d'" for tss d'
    using that by (induction tss arbitrary: d') (auto simp: cancel_pending_def state_updateStatus_schema)
  then show ?thesis using ok execution_updateStatus_schema [OF ok, of now i ExCancelled "Some now"]
    by (auto simp: cancel_def split: option.split prod.split)
qed

subsection \<open>Properties\<close>

text \<open>
  C6: Executing a stored workflow answers 202 and creates one running execution with one pending task
  state for each of its tasks, in order and with no attempt made; the states of exactly the tasks
  without an incoming edge are added to the queue, in order.
\<close>

theorem execute_starts:
  assumes "inj gen" "schema_ok gen d" "redis_lists R ls" "workflow_findById i d = Some wk"
    and "execute gen now R i input (d, s) = (r, (d', s'))"
  shows "\<exists>ex rows. r = respond 202 (Accepted (ex_id ex) ExRunning) \<and>
    db_executions d' = db_executions d @ [ex] \<and> ex_workflowId ex = i \<and> ex_status ex = ExRunning \<and>
    ex_startedAt ex = Some now \<and> db_states d' = db_states d @ rows \<and>
    map ts_taskDefinitionId rows = map tr_id (wf_taskDefinitions wk) \<and>
    (\<forall>q \<in> set rows. ts_executionId q = ex_id ex \<and> ts_status q = Pending \<and> ts_attemptCount q = 0) \<and>
    rev (ls s' TASK_QUEUE_KEY) = rev (ls s TASK_QUEUE_KEY) @
      map ts_id (filter (\<lambda>q. ts_taskDefinitionId q \<notin> targetTaskId ` set (wf_edges wk)) rows)"
proof -
  note queued = redis_lists.enqueue_all [OF assms(3)]
  from execute_effect [OF assms(1,2,4), of now input R s] assms(5) show ?thesis
    by clarsimp (metis queued)
qed

definition sample_db :: db where
  "sample_db = empty_db\<lparr>
     db_workflows := [\<lparr>w_id = sample_gen 0, w_name = ''w'', w_description = None, w_triggerConfig = JObj [],
       w_createdAt = 0, w_updatedAt = 0\<rparr>],
     db_tasks := map (\<lambda>i. \<lparr>tr_id = sample_gen i, tr_workflowId = sample_gen 0, tr_name = ''t'', tr_type = ''delay'',
       tr_config = JObj [], tr_timeoutMs = 1000, tr_retryPolicy = None\<rparr>) [1, 2],
     db_edges := [\<lparr>e_id = sample_gen 3, e_workflowId = sample_gen 0, sourceTaskId = sample_gen 1,
       targetTaskId = sample_gen 2, conditionExpr = None\<rparr>],
     db_drawn := 4\<rparr>"

lemma sample_db_ok: "schema_ok sample_gen sample_db"
  by code_simp

theorem execute_starts_witness:
  "let (r, (d', s')) = execute sample_gen 7 mem_redis (sample_gen 0) None (sample_db, empty_server)
   in rs_status r = 202 \<and> map ts_status (db_states d') = [Pending, Pending] \<and>
      rev (m_list s' TASK_QUEUE_KEY) = [sample_gen 5]"
proof -
  obtain r d' s' where e: "execute sample_gen 7 mem_redis (sample_gen 0) None (sample_db, empty_server) = (r, (d', s'))"
    by (metis prod_cases3)
  obtain wk where wk: "workflow_findById (sample_gen 0) sample_db = Some wk"
      and ids: "map tr_id (wf_taskDefinitions wk) = [sample_gen 1, sample_gen 2]"
    by (simp add: workflow_findById_def sample_db_def empty_db_def workflow_object_def select_tasks_def task_object_def)
  have "rs_status r = 202"
    using execute_starts [OF inj_sample_gen sample_db_ok mem_lists.redis_lists_axioms wk e] by auto
  moreover have "map ts_status (db_states d') = [Pending, Pending] \<and> rev (m_list s' TASK_QUEUE_KEY) = [sample_gen 5]"
  proof -
    have "(case execute sample_gen 7 mem_redis (sample_gen 0) None (sample_db, empty_server) of
        (r, (d', s')) \<Rightarrow> map ts_status (db_states d') = [Pending, Pending] \<and> rev (m_list s' TASK_QUEUE_KEY) = [sample_gen 5])"
      by code_simp
    then show ?thesis by (simp only: e prod.case)
  qed
  ultimately show ?thesis by (simp add: e)
qed

text \<open>
  C36: Cancelling an execution that has not ended marks it cancelled with its end time and cancels
  exactly its pending tasks; nothing else changes, and a second request is refused with 409 and
  changes nothing.
\<close>

theorem cancel_pending_only:
  assumes "schema_ok gen d" "execution_findById i d = Some (ex, tss)"
    "ex_status ex \<notin> {ExCompleted, ExFailed, ExCancelled}" "cancel now i d = (r, d')"
  shows "r = respond 200 (Accepted i ExCancelled) \<and>
    d' = d\<lparr>db_executions := update_rows (\<lambda>q. ex_id q = i)
        (\<lambda>q. q\<lparr>ex_status := ExCancelled, ex_completedAt := Some now\<rparr>) (db_executions d),
      db_states := map (cancelled i) (db_states d)\<rparr> \<and>
    (\<forall>q \<in> set (findByExecutionId i d'). ts_status q \<noteq> Pending) \<and>
    cancel later i d' = (respond_error 409 ''CONFLICT'', d')"
proof -
  have d': "r = respond 200 (Accepted i ExCancelled)" "d' = d\<lparr>db_executions := update_rows (\<lambda>q. ex_id q = i)
        (\<lambda>q. q\<lparr>ex_status := ExCancelled, ex_completedAt := Some now\<rparr>) (db_executions d),
      db_states := map (cancelled i) (db_states d)\<rparr>"
    using cancel_effect [OF assms(1-3), of now] assms(4) by simp_all
  have "\<forall>q \<in> set (findByExecutionId i d'). ts_status q \<noteq> Pending"
    by (simp add: d'(2) findByExecutionId_def select_states_def filter_map comp_def)
  moreover have "filter (\<lambda>q. ex_id q = i) (db_executions d') =
      map (\<lambda>q. q\<lparr>ex_status := ExCancelled, ex_completedAt := Some now\<rparr>) (filter (\<lambda>q. ex_id q = i) (db_executions d))"
    by (simp add: d'(2) filter_update_rows)
  then have "cancel later i d' = (respond_error 409 ''CONFLICT'', d')"
    using assms(2) by (auto simp: cancel_def execution_findById_def execution_object_def split: list.splits)
  ultimately show ?thesis using d' by blast
qed

theorem cancel_pending_only_witness:
  "let d = fst (snd (execute sample_gen 7 mem_redis (sample_gen 0) None (sample_db, empty_server)));
       (r, d') = cancel 9 (sample_gen 4) d
   in rs_status r = 200 \<and> map ts_status (db_states d') = [Cancelled, Cancelled] \<and>
      cancel 10 (sample_gen 4) d' = (respond_error 409 ''CONFLICT'', d')"
proof -
  let ?d = "fst (snd (execute sample_gen 7 mem_redis (sample_gen 0) None (sample_db, empty_server)))"
  obtain r d' where c: "cancel 9 (sample_gen 4) ?d = (r, d')" by (metis surj_pair)
  obtain ex tss where f: "execution_findById (sample_gen 4) ?d = Some (ex, tss)" "ex_status ex = ExRunning"
  proof -
    have "(case execution_findById (sample_gen 4) ?d of Some (ex, tss) \<Rightarrow> ex_status ex = ExRunning | None \<Rightarrow> False)"
      by code_simp
    then show ?thesis using that by (auto split: option.splits)
  qed
  have ok: "schema_ok sample_gen ?d" by code_simp
  have run: "ex_status ex \<notin> {ExCompleted, ExFailed, ExCancelled}" using f(2) by simp
  have "cancel 10 (sample_gen 4) d' = (respond_error 409 ''CONFLICT'', d')" "r = respond 200 (Accepted (sample_gen 4) ExCancelled)"
    using cancel_pending_only [OF ok f(1) run c, of 10] by blast+
  moreover have "case cancel 9 (sample_gen 4) ?d of (r, d') \<Rightarrow> map ts_status (db_states d') = [Cancelled, Cancelled]"
    by code_simp
  ultimately show ?thesis by (simp add: c)
qed

end
