(* ===== verification/ScheduleRepository.thy ===== *)
theory ScheduleRepository
  imports WorkflowFacts
begin

section \<open>Schedules and webhook registrations (repositories of services/scheduler-api)\<close>

text \<open>
  The classes \<open>ScheduleRepository\<close> and \<open>WebhookRepository\<close>.  A row and the object made from it have
  the same type; \<open>v || undefined\<close> drops an empty text and an interval of 0.
\<close>

subsection \<open>schedule-repository.ts\<close>

definition positive_or_null :: "int option \<Rightarrow> int option" where
  "positive_or_null n = (if n = Some 0 then None else n)"

definition schedule_object :: "Schedule \<Rightarrow> Schedule" where
  "schedule_object row = row\<lparr>sc_cronExpr := or_null (sc_cronExpr row), sc_intervalMs := positive_or_null (sc_intervalMs row)\<rparr>"

text \<open>The argument of \<open>create\<close>; the interval is any number.\<close>

record NewSchedule =
  ns_workflowId :: string
  ns_cronExpr :: "string option"
  ns_intervalMs :: "jsnum option"
  ns_timezone :: string
  ns_active :: bool
  ns_lastRunAt :: "date option"
  ns_nextRunAt :: "date option"

definition optional_int_column :: "jsnum option \<Rightarrow> db_error + int option" where
  "optional_int_column n =
     (case n of
        None \<Rightarrow> Inr None
      | Some v \<Rightarrow> if v = Fin 0 \<or> v = NaN then Inr None else bindE (int_column v) (\<lambda>i. Inr (Some i)))"

definition insert_schedule :: "Schedule \<Rightarrow> db \<Rightarrow> db_error + (Schedule \<times> db)" where
  "insert_schedule row d =
     (if (case sc_cronExpr row of None \<Rightarrow> False | Some e \<Rightarrow> 100 < length e) \<or>
         (case sc_timezone row of None \<Rightarrow> False | Some z \<Rightarrow> 50 < length z) then Inl StringTooLong
      else if \<not> schedule_ok row then Inl CheckViolation
      else if sc_workflowId row \<notin> w_id ` set (db_workflows d) then Inl ForeignKeyViolation
      else Inr (row, d\<lparr>db_schedules := db_schedules d @ [row], db_drawn := Suc (db_drawn d)\<rparr>))"

definition schedule_create ::
    "(nat \<Rightarrow> string) \<Rightarrow> date \<Rightarrow> NewSchedule \<Rightarrow> db \<Rightarrow> db_error + (Schedule \<times> db)" where
  "schedule_create gen now schedule d =
     bindE (optional_int_column (ns_intervalMs schedule)) (\<lambda>interval.
     bindE (insert_schedule
        \<lparr>sc_id = next_id gen d, sc_workflowId = ns_workflowId schedule, sc_cronExpr = or_null (ns_cronExpr schedule),
         sc_intervalMs = interval, sc_timezone = Some (ns_timezone schedule), sc_active = ns_active schedule,
         sc_lastRunAt = ns_lastRunAt schedule, sc_nextRunAt = ns_nextRunAt schedule, sc_createdAt = now\<rparr> d)
       (\<lambda>(row, d'). Inr (schedule_object row, d')))"

definition schedule_findById :: "string \<Rightarrow> db \<Rightarrow> Schedule option" where
  "schedule_findById i d =
     (case filter (\<lambda>r. sc_id r = i) (db_schedules d) of [] \<Rightarrow> None | row # _ \<Rightarrow> Some (schedule_object row))"

definition schedule_findAll :: "int \<Rightarrow> int \<Rightarrow> db \<Rightarrow> db_error + (Schedule list \<times> nat)" where
  "schedule_findAll page pageSize d =
     (let limit = min pageSize 100; offset = (page - 1) * limit in
      bindE (slice_rows limit offset (newest_first sc_createdAt (db_schedules d))) (\<lambda>rows.
      Inr (map schedule_object rows, length (db_schedules d))))"

definition findActive :: "db \<Rightarrow> Schedule list" where
  "findActive d = map schedule_object (filter sc_active (db_schedules d))"

text \<open>A comparison with \<open>NULL\<close> is not true.\<close>

definition due_at :: "date \<Rightarrow> Schedule \<Rightarrow> bool" where
  "due_at now r \<longleftrightarrow> sc_active r \<and> (case sc_nextRunAt r of None \<Rightarrow> False | Some t \<Rightarrow> t \<le> now)"

definition findDue :: "date \<Rightarrow> db \<Rightarrow> Schedule list" where
  "findDue now d = map schedule_object (filter (due_at now) (db_schedules d))"

definition set_schedules :: "(Schedule \<Rightarrow> bool) \<Rightarrow> (Schedule \<Rightarrow> Schedule) \<Rightarrow> db \<Rightarrow> db" where
  "set_schedules p f d = d\<lparr>db_schedules := update_rows p f (db_schedules d)\<rparr>"

definition updateNextRun :: "string \<Rightarrow> date \<Rightarrow> date \<Rightarrow> db \<Rightarrow> bool \<times> db" where
  "updateNextRun i nextRunAt lastRunAt d =
     (0 < row_count (\<lambda>r. sc_id r = i) (db_schedules d),
      set_schedules (\<lambda>r. sc_id r = i) (\<lambda>r. r\<lparr>sc_lastRunAt := Some lastRunAt, sc_nextRunAt := Some nextRunAt\<rparr>) d)"

text \<open>The flag comes from the body of a request and may be missing; the column is not null.\<close>

definition setActive :: "string \<Rightarrow> bool option \<Rightarrow> db \<Rightarrow> db_error + (bool \<times> db)" where
  "setActive i active d =
     (let found = 0 < row_count (\<lambda>r. sc_id r = i) (db_schedules d) in
      case active of
        None \<Rightarrow> if found then Inl NotNullViolation else Inr (False, d)
      | Some b \<Rightarrow> Inr (found, set_schedules (\<lambda>r. sc_id r = i) (\<lambda>r. r\<lparr>sc_active := b\<rparr>) d))"

subsection \<open>webhook-repository.ts\<close>

definition webhook_object :: "WebhookRegistration \<Rightarrow> WebhookRegistration" where
  "webhook_object row = row\<lparr>wh_secret := or_null (wh_secret row)\<rparr>"

definition insert_webhook :: "WebhookRegistration \<Rightarrow> db \<Rightarrow> db_error + (WebhookRegistration \<times> db)" where
  "insert_webhook row d =
     (if (case wh_secret row of None \<Rightarrow> False | Some s \<Rightarrow> 255 < length s) then Inl StringTooLong
      else if wh_workflowId row \<notin> w_id ` set (db_workflows d) then Inl ForeignKeyViolation
      else Inr (row, d\<lparr>db_webhooks := db_webhooks d @ [row], db_drawn := Suc (db_drawn d)\<rparr>))"

definition webhook_create ::
    "(nat \<Rightarrow> string) \<Rightarrow> date \<Rightarrow> string \<Rightarrow> string option \<Rightarrow> bool \<Rightarrow> db \<Rightarrow> db_error + (WebhookRegistration \<times> db)" where
  "webhook_create gen now workflowId secret active d =
     bindE (insert_webhook
        \<lparr>wh_id = next_id gen d, wh_workflowId = workflowId, wh_secret = or_null secret, wh_active = active,
         wh_createdAt = now\<rparr> d)
       (\<lambda>(row, d'). Inr (webhook_object row, d'))"

definition webhook_findById :: "string \<Rightarrow> db \<Rightarrow> WebhookRegistration option" where
  "webhook_findById i d =
     (case filter (\<lambda>r. wh_id r = i) (db_webhooks d) of [] \<Rightarrow> None | row # _ \<Rightarrow> Some (webhook_object row))"

definition webhook_findByWorkflowId :: "string \<Rightarrow> db \<Rightarrow> WebhookRegistration list" where
  "webhook_findByWorkflowId workflowId d =
     map webhook_object (filter (\<lambda>r. wh_workflowId r = workflowId) (db_webhooks d))"

definition webhook_delete :: "string \<Rightarrow> db \<Rightarrow> bool \<times> db" where
  "webhook_delete i d =
     (0 < row_count (\<lambda>r. wh_id r = i) (db_webhooks d),
      d\<lparr>db_webhooks := filter (\<lambda>r. wh_id r \<noteq> i) (db_webhooks d)\<rparr>)"

subsection \<open>The schema invariant\<close>

lemma insert_schedule_schema:
  assumes "inj gen" "schema_ok gen d" "insert_schedule row d = Inr (r, d')" "sc_id row = next_id gen d"
  shows "schema_ok gen d'"
  by (rule schema_insert [OF assms(1,2)])
    (use assms(3,4) schema_checks [OF assms(2)] in
      \<open>auto simp: insert_schedule_def table_defs split: if_splits\<close>)

lemma schedule_create_schema:
  assumes "inj gen" "schema_ok gen d" "schedule_create gen now s d = Inr (r, d')"
  shows "schema_ok gen d'"
  using assms(3) by (auto simp: schedule_create_def bindE_Inr elim!: insert_schedule_schema [OF assms(1,2)])

lemma set_schedules_schema:
  assumes "schema_ok gen d"
    "\<And>r. sc_id (f r) = sc_id r \<and> sc_workflowId (f r) = sc_workflowId r \<and> (schedule_ok r \<longrightarrow> schedule_ok (f r))"
  shows "schema_ok gen (set_schedules p f d)"
proof (rule schema_update [OF assms(1)])
  show "checks_ok (set_schedules p f d)"
    using schema_checks [OF assms(1)] assms(2)
    by (auto simp: checks_ok_def set_schedules_def list_all_iff update_rows_def)
qed (use assms(2) in \<open>simp_all add: set_schedules_def ids_of_def refs_of_def map_update_rows\<close>)

lemma updateNextRun_schema: "schema_ok gen d \<Longrightarrow> schema_ok gen (snd (updateNextRun i a b d))"
  by (auto simp: updateNextRun_def schedule_ok_def intro!: set_schedules_schema)

lemma setActive_schema:
  assumes "schema_ok gen d" "setActive i active d = Inr (r, d')"
  shows "schema_ok gen d'"
  using assms set_schedules_schema [OF assms(1)]
  by (auto simp: setActive_def Let_def schedule_ok_def split: option.splits if_splits)

lemma insert_webhook_schema:
  assumes "inj gen" "schema_ok gen d" "insert_webhook row d = Inr (r, d')" "wh_id row = next_id gen d"
  shows "schema_ok gen d'"
  by (rule schema_insert [OF assms(1,2)])
    (use assms(3,4) schema_checks [OF assms(2)] in
      \<open>auto simp: insert_webhook_def table_defs split: if_splits\<close>)

lemma webhook_create_schema:
  assumes "inj gen" "schema_ok gen d" "webhook_create gen now i s a d = Inr (r, d')"
  shows "schema_ok gen d'"
  using assms(3) by (auto simp: webhook_create_def bindE_Inr elim!: insert_webhook_schema [OF assms(1,2)])

lemma webhook_delete_schema: "schema_ok gen d \<Longrightarrow> schema_ok gen (snd (webhook_delete i d))"
  by (frule schema_checks, erule schema_delete)
    (simp_all add: webhook_delete_def table_defs distinct_map_filter set_filter_image)

subsection \<open>Rows found again\<close>

text \<open>An interval outside 1000 to 86400000 never reaches the table.\<close>

lemma schedule_created:
  assumes "schedule_create gen now s d = Inr (r, d')"
  shows "db_schedules d' = db_schedules d @ [r] \<and> sc_id r = next_id gen d \<and>
    sc_workflowId r = ns_workflowId s \<and> sc_cronExpr r = or_null (ns_cronExpr s) \<and>
    sc_timezone r = Some (ns_timezone s) \<and> sc_active r = ns_active s \<and>
    sc_nextRunAt r = ns_nextRunAt s \<and> schedule_ok r"
  using assms
  by (auto simp: schedule_create_def bindE_Inr insert_schedule_def schedule_object_def positive_or_null_def schedule_ok_def
      split: if_splits)

lemma positive_or_null_idem [simp]: "positive_or_null (positive_or_null n) = positive_or_null n"
  by (simp add: positive_or_null_def)

lemma schedule_created_object: "schedule_create gen now s d = Inr (r, d') \<Longrightarrow> schedule_object r = r"
  by (auto simp: schedule_create_def bindE_Inr schedule_object_def)

lemma schedule_created_no_interval:
  assumes "schedule_create gen now s d = Inr (r, d')" "ns_intervalMs s \<in> {None, Some (Fin 0)}"
  shows "sc_intervalMs r = None"
  using assms
  by (auto simp: schedule_create_def bindE_Inr optional_int_column_def insert_schedule_def schedule_object_def
      positive_or_null_def split: if_splits)

end
