(* ===== verification/ScheduleController.thy ===== *)
theory ScheduleController
  imports ScheduleRepository Http CronNextRun
begin

section \<open>Schedules of a workflow (services/scheduler-api/src/controllers/schedule-controller.ts)\<close>

text \<open>
  The class \<open>ScheduleController\<close>.  The clock of the process is \<open>now\<close>, the zone database \<open>tz\<close>.  A
  request has the declared types: texts for the cron expression and the zone, a finite number for the
  interval, each possibly missing.
\<close>

record ScheduleRequest =
  rq_workflowId :: string
  rq_cronExpr :: "string option"
  rq_intervalMs :: "rat option"
  rq_timezone :: "string option"

datatype schedule_body = ScheduleBody Schedule | SchedulePage "Schedule list" nat | Toggled bool

text \<open>\<open>timezone || 'UTC'\<close>, and the time of \<open>new Date(Date.now() + intervalMs)\<close>.\<close>

definition zone_or_utc :: "string option \<Rightarrow> string" where
  "zone_or_utc z = (if truthy_str z then the z else ''UTC'')"

definition after_interval :: "date \<Rightarrow> rat \<Rightarrow> date" where
  "after_interval now ms = \<lfloor>of_int now + ms\<rfloor>"

definition first_run :: "tz_database \<Rightarrow> date \<Rightarrow> ScheduleRequest \<Rightarrow> run_error + date option" where
  "first_run tz now req =
     (if truthy_str (rq_cronExpr req)
      then (case getNextRunTime tz (the (rq_cronExpr req)) now (Some (zone_or_utc (rq_timezone req))) of
              Inl err \<Rightarrow> Inl err | Inr nextMs \<Rightarrow> Inr (Some nextMs))
      else (case rq_intervalMs req of
              None \<Rightarrow> Inr None
            | Some ms \<Rightarrow> if ms = 0 then Inr None else Inr (Some (after_interval now ms))))"

definition createSchedule ::
    "(nat \<Rightarrow> string) \<Rightarrow> tz_database \<Rightarrow> date \<Rightarrow> ScheduleRequest \<Rightarrow> db \<Rightarrow> schedule_body response \<times> db" where
  "createSchedule gen tz now req d =
     (if workflow_findById (rq_workflowId req) d = None then (respond_error 422 ''UNPROCESSABLE_ENTITY'', d)
      else if truthy_str (rq_cronExpr req) \<and> isl (parseCronExpression (the (rq_cronExpr req)))
      then (respond_error 422 ''UNPROCESSABLE_ENTITY'', d)
      else if (case rq_intervalMs req of None \<Rightarrow> False | Some ms \<Rightarrow> ms < 1000 \<or> 86400000 < ms)
      then (respond_error 422 ''UNPROCESSABLE_ENTITY'', d)
      else
        (case first_run tz now req of
           Inl _ \<Rightarrow> (errorHandler thrown, d)
         | Inr nextRunAt \<Rightarrow>
             (case schedule_create gen now
                \<lparr>ns_workflowId = rq_workflowId req, ns_cronExpr = rq_cronExpr req,
                 ns_intervalMs = map_option Fin (rq_intervalMs req), ns_timezone = zone_or_utc (rq_timezone req),
                 ns_active = True, ns_lastRunAt = None, ns_nextRunAt = nextRunAt\<rparr> d of
                Inl e \<Rightarrow> (errorHandler (db_failure e), d)
              | Inr (schedule, d') \<Rightarrow> (respond 201 (ScheduleBody schedule), d'))))"

definition listSchedules :: "string option \<Rightarrow> string option \<Rightarrow> db \<Rightarrow> schedule_body response" where
  "listSchedules pageText pageSizeText d =
     (let page = max 1 (query_int pageText 1); pageSize = clamp 1 100 (query_int pageSizeText 50) in
      case schedule_findAll page pageSize d of
        Inl e \<Rightarrow> errorHandler (db_failure e)
      | Inr (schedules, total_count) \<Rightarrow> respond 200 (SchedulePage schedules total_count))"

definition toggleSchedule :: "string \<Rightarrow> bool option \<Rightarrow> db \<Rightarrow> schedule_body response \<times> db" where
  "toggleSchedule i active d =
     (case setActive i active d of
        Inl e \<Rightarrow> (errorHandler (db_failure e), d)
      | Inr (schedule, d') \<Rightarrow>
          if \<not> schedule then (respond_error 404 ''NOT_FOUND'', d') else (respond 200 (Toggled schedule), d'))"

subsection \<open>Lemmas\<close>

lemma getNextRunTime_later: "getNextRunTime tz expr ref z = Inr t \<Longrightarrow> ref < t"
  using scan_after
  by (auto simp: getNextRunTime_def next_run_def and_then_def Let_def split: sum.splits option.splits)

lemma after_interval_later: "1000 \<le> ms \<Longrightarrow> now + 1000 \<le> after_interval now ms"
  unfolding after_interval_def by linarith

lemma first_run_later:
  assumes "first_run tz now req = Inr (Some t)"
    and "case rq_intervalMs req of None \<Rightarrow> True | Some ms \<Rightarrow> 1000 \<le> ms"
  shows "now < t"
  using assms getNextRunTime_later after_interval_later [of _ now]
  by (auto simp: first_run_def split: if_splits sum.splits option.splits) fastforce+

lemma first_run_missing:
  assumes "first_run tz now req = Inr None"
  shows "\<not> truthy_str (rq_cronExpr req) \<and> rq_intervalMs req \<in> {None, Some 0}"
  using assms by (auto simp: first_run_def split: if_splits sum.splits option.splits)

lemma createSchedule_201:
  assumes "createSchedule gen tz now req d = (respond 201 b, d')"
  shows "\<exists>nextRunAt schedule. first_run tz now req = Inr nextRunAt \<and> b = ScheduleBody schedule \<and>
    (case rq_intervalMs req of None \<Rightarrow> True | Some ms \<Rightarrow> 1000 \<le> ms \<and> ms \<le> 86400000) \<and>
    schedule_create gen now
      \<lparr>ns_workflowId = rq_workflowId req, ns_cronExpr = rq_cronExpr req,
       ns_intervalMs = map_option Fin (rq_intervalMs req), ns_timezone = zone_or_utc (rq_timezone req),
       ns_active = True, ns_lastRunAt = None, ns_nextRunAt = nextRunAt\<rparr> d = Inr (schedule, d')"
proof -
  have "respond 201 b \<noteq> errorHandler e" for e by (simp add: errorHandler_def)
  then show ?thesis using assms
    by (auto simp: createSchedule_def respond_def respond_error_def split: if_splits sum.splits option.splits)
qed

lemma row_found:
  assumes "inj gen" "schema_ok gen d" "db_schedules d' = db_schedules d @ [s]" "sc_id s = next_id gen d"
  shows "schedule_findById (sc_id s) d' = Some (schedule_object s)"
proof -
  have "sc_id s \<notin> set (map sc_id (db_schedules d))"
    unfolding assms(4) next_id_def by (rule schema_fresh [OF assms(1,2)]) (simp add: ids_of_def)
  then have "filter (\<lambda>r. sc_id r = sc_id s) (db_schedules d) = []" by (metis (mono_tags, lifting) filter_False image_eqI list.set_map)
  then show ?thesis by (simp add: schedule_findById_def assms(3))
qed

subsection \<open>Properties\<close>

text \<open>
  C15: A schedule that is answered with 201 is stored as the last row and is found under its id; it is
  active, and its first run lies in the future: at the next match of its cron expression, or, without
  one, after its interval, which is between a second and a day.
\<close>

theorem createSchedule_stores:
  assumes "inj gen" "schema_ok gen d" "createSchedule gen tz now req d = (respond 201 b, d')"
  shows "\<exists>s t. b = ScheduleBody s \<and> db_schedules d' = db_schedules d @ [s] \<and>
    schedule_findById (sc_id s) d' = Some s \<and> sc_workflowId s = rq_workflowId req \<and>
    sc_active s \<and> sc_nextRunAt s = Some t \<and> now < t \<and> schedule_ok s \<and> schema_ok gen d' \<and>
    (if truthy_str (rq_cronExpr req)
     then getNextRunTime tz (the (rq_cronExpr req)) now (Some (zone_or_utc (rq_timezone req))) = Inr t
     else \<exists>ms. rq_intervalMs req = Some ms \<and> 1000 \<le> ms \<and> ms \<le> 86400000 \<and> t = \<lfloor>of_int now + ms\<rfloor>)"
proof -
  obtain nextRunAt s where s: "first_run tz now req = Inr nextRunAt" "b = ScheduleBody s"
      "case rq_intervalMs req of None \<Rightarrow> True | Some ms \<Rightarrow> 1000 \<le> ms \<and> ms \<le> 86400000"
    and c: "schedule_create gen now
      \<lparr>ns_workflowId = rq_workflowId req, ns_cronExpr = rq_cronExpr req,
       ns_intervalMs = map_option Fin (rq_intervalMs req), ns_timezone = zone_or_utc (rq_timezone req),
       ns_active = True, ns_lastRunAt = None, ns_nextRunAt = nextRunAt\<rparr> d = Inr (s, d')"
    using createSchedule_201 [OF assms(3)] by blast
  note row = schedule_created [OF c, simplified]
  have found: "schedule_findById (sc_id s) d' = Some s"
    using row_found [OF assms(1,2), of d' s] row schedule_created_object [OF c] by simp
  have schema: "schema_ok gen d'" by (rule schedule_create_schema [OF assms(1,2) c])
  have "nextRunAt \<noteq> None"
  proof
    assume n: "nextRunAt = None"
    have "\<not> truthy_str (rq_cronExpr req)" "rq_intervalMs req \<in> {None, Some 0}"
      using first_run_missing [of tz now req] s(1) n by auto
    then have "sc_cronExpr s = None" "sc_intervalMs s = None"
      using row schedule_created_no_interval [OF c] by (auto simp: or_null_def)
    moreover have "schedule_ok s" using row by blast
    ultimately show False by (simp add: schedule_ok_def)
  qed
  then obtain t where t: "nextRunAt = Some t" by blast
  have "now < t" using first_run_later [of tz now req t] s(1,3) t by (auto split: option.splits)
  moreover have "if truthy_str (rq_cronExpr req)
     then getNextRunTime tz (the (rq_cronExpr req)) now (Some (zone_or_utc (rq_timezone req))) = Inr t
     else \<exists>ms. rq_intervalMs req = Some ms \<and> 1000 \<le> ms \<and> ms \<le> 86400000 \<and> t = \<lfloor>of_int now + ms\<rfloor>"
    using s(1,3) t by (auto simp: first_run_def after_interval_def split: if_splits sum.splits option.splits)
  ultimately show ?thesis using s(2) row found schema t by blast
qed

definition schedule_db :: db where
  "schedule_db = empty_db\<lparr>
     db_workflows := [\<lparr>w_id = sample_gen 0, w_name = ''w'', w_description = None, w_triggerConfig = JObj [],
       w_createdAt = 0, w_updatedAt = 0\<rparr>],
     db_tasks := map (\<lambda>i. \<lparr>tr_id = sample_gen i, tr_workflowId = sample_gen 0, tr_name = ''t'', tr_type = ''delay'',
       tr_config = JObj [], tr_timeoutMs = 1000, tr_retryPolicy = None\<rparr>) [1, 2],
     db_schedules := [\<lparr>sc_id = sample_gen 3, sc_workflowId = sample_gen 0, sc_cronExpr = None,
       sc_intervalMs = Some 60000, sc_timezone = Some ''UTC'', sc_active = True, sc_lastRunAt = None,
       sc_nextRunAt = Some 5, sc_createdAt = 0\<rparr>],
     db_drawn := 4\<rparr>"

lemma schedule_db_ok: "schema_ok sample_gen schedule_db"
  by code_simp

theorem createSchedule_stores_witness:
  "map sc_nextRunAt (db_schedules (snd (createSchedule sample_gen (\<lambda>z. None) 100
     \<lparr>rq_workflowId = sample_gen 0, rq_cronExpr = None, rq_intervalMs = Some 1500, rq_timezone = None\<rparr> schedule_db)))
   = [Some 5, Some 1600]"
proof -
  let ?req = "\<lparr>rq_workflowId = sample_gen 0, rq_cronExpr = None, rq_intervalMs = Some 1500, rq_timezone = None\<rparr>"
  obtain r d' where c: "createSchedule sample_gen (\<lambda>z. None) 100 ?req schedule_db = (r, d')" by (metis surj_pair)
  have "(case createSchedule sample_gen (\<lambda>z. None) 100 ?req schedule_db of (r, _) \<Rightarrow>
      rs_status r = 201 \<and> (case rs_body r of Body _ \<Rightarrow> True | ErrorBody _ \<Rightarrow> False))" by code_simp
  then obtain b where r: "r = respond 201 b" using c
    by (cases r) (auto simp: respond_def split: body.splits)
  have "db_schedules schedule_db \<noteq> [] \<and> map sc_nextRunAt (db_schedules schedule_db) = [Some 5]"
    by (simp add: schedule_db_def)
  with createSchedule_stores [OF inj_sample_gen schedule_db_ok c [unfolded r]]
  show ?thesis unfolding c snd_conv by (auto simp: truthy_str_def)
qed

text \<open>
  Toggling answers \<open>true\<close> in place of the schedule; a body without the flag is a database error, not
  one of the request.
\<close>

theorem toggleSchedule_answers:
  "toggleSchedule i active d =
     (if i \<notin> sc_id ` set (db_schedules d)
      then (respond_error 404 ''NOT_FOUND'', d)
      else case active of
        None \<Rightarrow> (respond_error 500 ''23502'', d)
      | Some b \<Rightarrow> (respond 200 (Toggled True),
          d\<lparr>db_schedules := update_rows (\<lambda>r. sc_id r = i) (\<lambda>r. r\<lparr>sc_active := b\<rparr>) (db_schedules d)\<rparr>))"
proof -
  have found: "0 < row_count (\<lambda>r. sc_id r = i) (db_schedules d) \<longleftrightarrow> i \<in> sc_id ` set (db_schedules d)"
    by (auto simp: row_count_pos)
  show ?thesis
  proof (cases "i \<in> sc_id ` set (db_schedules d)")
    case True
    then show ?thesis using found
      by (cases active) (simp_all add: toggleSchedule_def setActive_def set_schedules_def)
  next
    case False
    then have "update_rows (\<lambda>r. sc_id r = i) f (db_schedules d) = db_schedules d" for f
      by (intro update_rows_none) auto
    then show ?thesis using False found
      by (cases active) (simp_all add: toggleSchedule_def setActive_def set_schedules_def)
  qed
qed

end
