(* ===== verification/ScheduleEvaluator.thy ===== *)
theory ScheduleEvaluator
  imports ScheduleController ExecutionController
begin

section \<open>Firing due schedules (services/scheduler-api/src/services/schedule-evaluator.ts)\<close>

text \<open>
  The class \<open>ScheduleEvaluator\<close>: one call of \<open>evaluate\<close>, which the timer makes every five seconds.
  \<open>now\<close> is the time of the database, \<open>hostNow\<close> that of the process.  Every statement is committed on its
  own and the \<open>catch\<close> of a round only logs, so a round that throws keeps what it has written so far.
\<close>

text \<open>The loop over the task definitions: each state is inserted and enqueued; the first failing
  statement ends it.\<close>

fun start_tasks ::
    "(nat \<Rightarrow> string) \<Rightarrow> 's redis \<Rightarrow> string \<Rightarrow> string list \<Rightarrow> db \<times> 's \<Rightarrow> db_error option \<times> (db \<times> 's)" where
  "start_tasks gen R executionId [] st = (None, st)"
| "start_tasks gen R executionId (taskDefId # taskDefs) st =
     (case insert_state gen executionId taskDefId (fst st) of
        Inl e \<Rightarrow> (Some e, st)
      | Inr (row, d) \<Rightarrow>
          start_tasks gen R executionId taskDefs (d, enqueue R (ts_id row) (snd st)))"

definition next_schedule_run :: "tz_database \<Rightarrow> date \<Rightarrow> Schedule \<Rightarrow> run_error + date" where
  "next_schedule_run tz hostNow schedule =
     (if truthy_str (sc_cronExpr schedule)
      then getNextRunTime tz (the (sc_cronExpr schedule)) hostNow (sc_timezone schedule)
      else Inr (hostNow + (case sc_intervalMs schedule of None \<Rightarrow> 0 | Some ms \<Rightarrow> ms)))"

definition fire_schedule ::
    "(nat \<Rightarrow> string) \<Rightarrow> tz_database \<Rightarrow> date \<Rightarrow> date \<Rightarrow> 's redis \<Rightarrow> Schedule \<Rightarrow> db \<times> 's \<Rightarrow> db \<times> 's" where
  "fire_schedule gen tz now hostNow R schedule st =
     (let (d, s) = st in
      case insert_execution
          \<lparr>ex_id = next_id gen d, ex_workflowId = sc_workflowId schedule, ex_status = ExPending, ex_input = None,
           ex_startedAt = Some now, ex_completedAt = None, ex_createdAt = now\<rparr> d of
        Inl _ \<Rightarrow> (d, s)
      | Inr (execution, d1) \<Rightarrow>
          (let taskDefs = map tr_id (filter (\<lambda>r. tr_workflowId r = sc_workflowId schedule) (db_tasks d1)) in
           case start_tasks gen R (ex_id execution) taskDefs (d1, s) of
             (Some _, st2) \<Rightarrow> st2
           | (None, (d2, s2)) \<Rightarrow>
               (let d3 = set_execution (ex_id execution) (\<lambda>r. r\<lparr>ex_status := ExRunning\<rparr>) d2 in
                case next_schedule_run tz hostNow schedule of
                  Inl _ \<Rightarrow> (d3, s2)
                | Inr nextRunAt \<Rightarrow>
                    (set_schedules (\<lambda>r. sc_id r = sc_id schedule)
                       (\<lambda>r. r\<lparr>sc_lastRunAt := Some now, sc_nextRunAt := Some nextRunAt\<rparr>) d3, s2))))"

definition due_schedules :: "date \<Rightarrow> db \<Rightarrow> Schedule list" where
  "due_schedules now d = take 50 (sort_key (\<lambda>r. the (sc_nextRunAt r)) (filter (due_at now) (db_schedules d)))"

definition evaluate ::
    "(nat \<Rightarrow> string) \<Rightarrow> tz_database \<Rightarrow> date \<Rightarrow> date \<Rightarrow> 's redis \<Rightarrow> db \<times> 's \<Rightarrow> db \<times> 's" where
  "evaluate gen tz now hostNow R st = fold (fire_schedule gen tz now hostNow R) (due_schedules now (fst st)) st"

subsection \<open>The effect of one round\<close>

lemma start_tasks_effect:
  "e \<in> ex_id ` set (db_executions d) \<Longrightarrow> set ts \<subseteq> tr_id ` set (db_tasks d) \<Longrightarrow>
     \<exists>rows. start_tasks gen R e ts (d, s) =
         (None, (d\<lparr>db_states := db_states d @ rows, db_drawn := db_drawn d + length ts\<rparr>,
           fold (\<lambda>r. enqueue R (ts_id r)) rows s)) \<and>
       map ts_taskDefinitionId rows = ts \<and>
       (\<forall>r \<in> set rows. ts_executionId r = e \<and> ts_status r = Pending)"
proof (induction ts arbitrary: d s)
  case Nil
  then show ?case by simp
next
  case (Cons t ts)
  let ?row = "\<lparr>ts_id = next_id gen d, ts_executionId = e, ts_taskDefinitionId = t,
      ts_status = Pending, ts_attemptCount = 0, ts_output = None, ts_error = None,
      ts_startedAt = None, ts_completedAt = None\<rparr> :: TaskState"
  let ?d = "d\<lparr>db_states := db_states d @ [?row], db_drawn := Suc (db_drawn d)\<rparr>"
  from Cons.IH [of ?d "enqueue R (next_id gen d) s"] Cons.prems obtain rows where
    "start_tasks gen R e ts (?d, enqueue R (next_id gen d) s) =
       (None, (?d\<lparr>db_states := db_states ?d @ rows, db_drawn := db_drawn ?d + length ts\<rparr>,
         fold (\<lambda>r. enqueue R (ts_id r)) rows (enqueue R (next_id gen d) s)))"
    "map ts_taskDefinitionId rows = ts" "\<forall>r \<in> set rows. ts_executionId r = e \<and> ts_status r = Pending" by auto
  then show ?case using Cons.prems
    by (intro exI [of _ "?row # rows"]) (simp add: insert_state_def Let_def)
qed

text \<open>What happens to the schedule's own row.\<close>

definition rescheduled :: "tz_database \<Rightarrow> date \<Rightarrow> date \<Rightarrow> Schedule \<Rightarrow> Schedule" where
  "rescheduled tz now hostNow r =
     (case next_schedule_run tz hostNow r of
        Inl _ \<Rightarrow> r | Inr t \<Rightarrow> r\<lparr>sc_lastRunAt := Some now, sc_nextRunAt := Some t\<rparr>)"

definition workflow_tasks :: "db \<Rightarrow> string \<Rightarrow> string list" where
  "workflow_tasks d w = map tr_id (filter (\<lambda>r. tr_workflowId r = w) (db_tasks d))"

lemma rescheduled_simps [simp]:
  "sc_id (rescheduled tz now hostNow r) = sc_id r" "sc_workflowId (rescheduled tz now hostNow r) = sc_workflowId r"
  by (simp_all add: rescheduled_def split: sum.split)

lemma update_rows_unique:
  assumes "distinct (map f rows)" "r \<in> set rows"
  shows "update_rows (\<lambda>x. f x = f r) g rows = map (\<lambda>x. if x = r then g r else x) rows"
  using key_unique [OF assms(1)] assms(2) unfolding update_rows_def by (intro map_cong refl) metis

lemma fire_schedule_effect:
  assumes "inj gen" "schema_ok gen d" "r \<in> set (db_schedules d)"
  shows "\<exists>ex rows. ex_workflowId ex = sc_workflowId r \<and> ex_status ex = ExRunning \<and> ex_startedAt ex = Some now \<and>
    map ts_taskDefinitionId rows = workflow_tasks d (sc_workflowId r) \<and>
    (\<forall>q \<in> set rows. ts_executionId q = ex_id ex \<and> ts_status q = Pending) \<and>
    fire_schedule gen tz now hostNow R r (d, s) =
      (d\<lparr>db_executions := db_executions d @ [ex], db_states := db_states d @ rows,
         db_schedules := map (\<lambda>x. if x = r then rescheduled tz now hostNow x else x) (db_schedules d),
         db_drawn := Suc (db_drawn d) + length rows\<rparr>,
       fold (\<lambda>q. enqueue R (ts_id q)) rows s)"
proof -
  let ?ex = "\<lparr>ex_id = next_id gen d, ex_workflowId = sc_workflowId r, ex_status = ExPending, ex_input = None,
      ex_startedAt = Some now, ex_completedAt = None, ex_createdAt = now\<rparr> :: Execution"
  let ?d1 = "d\<lparr>db_executions := db_executions d @ [?ex], db_drawn := Suc (db_drawn d)\<rparr>"
  let ?ts = "workflow_tasks d (sc_workflowId r)"
  have "sc_workflowId r \<in> w_id ` set (db_workflows d)"
    using assms(2,3) by (auto simp: schema_ok_def refs_ok_def refs_of_def)
  then have ins: "insert_execution ?ex d = Inr (?ex, ?d1)" by (simp add: insert_execution_def)
  obtain rows where rows: "start_tasks gen R (next_id gen d) ?ts (?d1, s) =
       (None, (?d1\<lparr>db_states := db_states d @ rows, db_drawn := Suc (db_drawn d) + length ?ts\<rparr>,
         fold (\<lambda>q. enqueue R (ts_id q)) rows s))"
      "map ts_taskDefinitionId rows = ?ts" "\<forall>q \<in> set rows. ts_executionId q = next_id gen d \<and> ts_status q = Pending"
    using start_tasks_effect [of "next_id gen d" ?d1 ?ts gen R s] by (auto simp: workflow_tasks_def)
  have len: "length ?ts = length rows" using rows(2) by (metis length_map)
  have fresh: "ex_id q \<noteq> next_id gen d" if "q \<in> set (db_executions d)" for q
    using schema_fresh [OF assms(1,2), of "map ex_id (db_executions d)"] that
    by (simp add: ids_of_def next_id_def) (metis image_eqI)
  have upd: "update_rows (\<lambda>q. ex_id q = next_id gen d) f (db_executions d @ [?ex]) = db_executions d @ [f ?ex]" for f
    using fresh by (intro update_rows_last) auto
  have "distinct (map sc_id (db_schedules d))" using assms(2) by (simp add: schema_ok_def ids_of_def)
  note sch = update_rows_unique [OF this assms(3)]
  have same: "map (\<lambda>x. if x = r then r else x) (db_schedules d) = db_schedules d" by (simp add: map_idI)
  let ?ex' = "?ex\<lparr>ex_status := ExRunning\<rparr>"
  let ?d2 = "?d1\<lparr>db_states := db_states d @ rows, db_drawn := Suc (db_drawn d) + length ?ts\<rparr>"
  let ?d3 = "?d2\<lparr>db_executions := db_executions d @ [?ex']\<rparr>"
  have run: "set_execution (next_id gen d) (\<lambda>r. r\<lparr>ex_status := ExRunning\<rparr>) ?d2 = ?d3"
    by (simp add: set_execution_def upd)
  have sel: "map tr_id (filter (\<lambda>q. tr_workflowId q = sc_workflowId r) (db_tasks ?d1)) = ?ts"
    by (simp add: workflow_tasks_def)
  have id: "ex_id ?ex = next_id gen d" by simp
  have "fire_schedule gen tz now hostNow R r (d, s) =
      (case next_schedule_run tz hostNow r of
         Inl _ \<Rightarrow> (?d3, fold (\<lambda>q. enqueue R (ts_id q)) rows s)
       | Inr nextRunAt \<Rightarrow>
           (set_schedules (\<lambda>q. sc_id q = sc_id r)
             (\<lambda>q. q\<lparr>sc_lastRunAt := Some now, sc_nextRunAt := Some nextRunAt\<rparr>) ?d3,
            fold (\<lambda>q. enqueue R (ts_id q)) rows s))"
    unfolding fire_schedule_def Let_def prod.case ins sum.case sel id rows(1) option.case run ..
  also have "\<dots> = (?d3\<lparr>db_schedules := map (\<lambda>x. if x = r then rescheduled tz now hostNow x else x) (db_schedules d)\<rparr>,
      fold (\<lambda>q. enqueue R (ts_id q)) rows s)"
    by (cases "next_schedule_run tz hostNow r")
      (simp_all add: rescheduled_def set_schedules_def sch same cong: if_cong)
  finally show ?thesis using rows(2,3) len
    by (intro exI [of _ ?ex'] exI [of _ rows]) simp
qed

subsection \<open>The schema invariant\<close>

lemma start_tasks_schema:
  assumes "inj gen" "schema_ok gen (fst st)"
  shows "schema_ok gen (fst (snd (start_tasks gen R e ts st)))"
  using assms(2)
proof (induction ts arbitrary: st)
  case (Cons t ts)
  then show ?case using insert_state_schema [OF assms(1)] by (auto split: sum.split prod.split)
qed simp

lemma fire_schedule_schema:
  assumes "inj gen" "schema_ok gen (fst st)"
  shows "schema_ok gen (fst (fire_schedule gen tz now hostNow R r st))"
proof -
  obtain d s where st: "st = (d, s)" by (cases st)
  show ?thesis
  proof (cases "insert_execution
      \<lparr>ex_id = next_id gen d, ex_workflowId = sc_workflowId r, ex_status = ExPending, ex_input = None,
       ex_startedAt = Some now, ex_completedAt = None, ex_createdAt = now\<rparr> d")
    case (Inl e)
    then show ?thesis using assms(2) by (simp add: fire_schedule_def st)
  next
    case (Inr x)
    obtain ex d1 where x: "x = (ex, d1)" by (cases x)
    have "schema_ok gen d1" using insert_execution_schema [OF assms(1) _ Inr [unfolded x]] assms(2) st by simp
    then have s2: "schema_ok gen (fst (snd (start_tasks gen R (ex_id ex)
        (map tr_id (filter (\<lambda>q. tr_workflowId q = sc_workflowId r) (db_tasks d1))) (d1, s))))"
      by (intro start_tasks_schema [OF assms(1)]) simp
    have run: "schema_ok gen (set_execution i (\<lambda>q. q\<lparr>ex_status := ExRunning\<rparr>) d2)" if "schema_ok gen d2" for i d2
      using that by (rule set_execution_schema) simp
    have upd: "schema_ok gen (set_schedules p (\<lambda>q. q\<lparr>sc_lastRunAt := a, sc_nextRunAt := b\<rparr>) d2)" if "schema_ok gen d2" for p a b d2
      using that by (rule set_schedules_schema) (simp add: schedule_ok_def)
    show ?thesis using s2 by (auto simp: fire_schedule_def st Inr x Let_def intro!: run upd split: option.split prod.split sum.split)
  qed
qed

lemma evaluate_schema:
  assumes "inj gen" "schema_ok gen (fst st)"
  shows "schema_ok gen (fst (evaluate gen tz now hostNow R st))"
proof -
  have "schema_ok gen (fst (fold (fire_schedule gen tz now hostNow R) rs st))" for rs
    using assms(2) by (induction rs arbitrary: st) (simp_all add: fire_schedule_schema [OF assms(1)])
  then show ?thesis by (simp add: evaluate_def)
qed

subsection \<open>The effect of a poll\<close>

text \<open>An execution and its task states belong to a schedule that was fired.\<close>

definition fired_for :: "db \<Rightarrow> date \<Rightarrow> Schedule \<Rightarrow> Execution \<times> TaskState list \<Rightarrow> bool" where
  "fired_for d now r f \<longleftrightarrow> ex_workflowId (fst f) = sc_workflowId r \<and> ex_status (fst f) = ExRunning \<and>
     ex_startedAt (fst f) = Some now \<and> map ts_taskDefinitionId (snd f) = workflow_tasks d (sc_workflowId r) \<and>
     (\<forall>q \<in> set (snd f). ts_executionId q = ex_id (fst f) \<and> ts_status q = Pending)"

lemma fire_all:
  assumes "inj gen"
  shows "schema_ok gen d \<Longrightarrow> distinct rs \<Longrightarrow> set rs \<subseteq> set (db_schedules d) \<Longrightarrow>
    fold (fire_schedule gen tz now hostNow R) rs (d, s) = (d', s') \<Longrightarrow>
    \<exists>fs. list_all2 (fired_for d now) rs fs \<and> db_executions d' = db_executions d @ map fst fs \<and>
      db_states d' = db_states d @ concat (map snd fs) \<and>
      db_schedules d' = map (\<lambda>x. if x \<in> set rs then rescheduled tz now hostNow x else x) (db_schedules d) \<and>
      s' = fold (\<lambda>q. enqueue R (ts_id q)) (concat (map snd fs)) s"
proof (induction rs arbitrary: d s)
  case Nil
  then show ?case by simp
next
  case (Cons r rs)
  have r: "r \<in> set (db_schedules d)" using Cons.prems(3) by simp
  obtain ex rows where f: "fired_for d now r (ex, rows)"
    and e: "fire_schedule gen tz now hostNow R r (d, s) =
      (d\<lparr>db_executions := db_executions d @ [ex], db_states := db_states d @ rows,
         db_schedules := map (\<lambda>x. if x = r then rescheduled tz now hostNow x else x) (db_schedules d),
         db_drawn := Suc (db_drawn d) + length rows\<rparr>,
       fold (\<lambda>q. enqueue R (ts_id q)) rows s)" (is "_ = (?d1, ?s1)")
    using fire_schedule_effect [OF assms Cons.prems(1) r, of now tz hostNow R s]
    by (auto simp: fired_for_def)
  have dist: "distinct (map sc_id (db_schedules d))" using Cons.prems(1) by (simp add: schema_ok_def ids_of_def)
  have new: "rescheduled tz now hostNow r \<notin> set rs"
  proof
    assume "rescheduled tz now hostNow r \<in> set rs"
    then have "rescheduled tz now hostNow r = r"
      using key_unique [OF dist, of "rescheduled tz now hostNow r" r] Cons.prems(3) by auto
    then show False using \<open>rescheduled tz now hostNow r \<in> set rs\<close> Cons.prems(2) by simp
  qed
  have "schema_ok gen ?d1" using fire_schedule_schema [OF assms, of "(d, s)" tz now hostNow R r] Cons.prems(1) e by simp
  moreover have "set rs \<subseteq> set (db_schedules ?d1)" using Cons.prems(2,3) by auto
  moreover have "fold (fire_schedule gen tz now hostNow R) rs (?d1, ?s1) = (d', s')"
    using Cons.prems(4) e by simp
  moreover have "fired_for ?d1 now = fired_for d now" by (simp add: fired_for_def fun_eq_iff workflow_tasks_def)
  ultimately obtain fs where fs: "list_all2 (fired_for d now) rs fs"
      "db_executions d' = (db_executions d @ [ex]) @ map fst fs" "db_states d' = (db_states d @ rows) @ concat (map snd fs)"
      "db_schedules d' = map (\<lambda>x. if x \<in> set rs then rescheduled tz now hostNow x else x)
         (map (\<lambda>x. if x = r then rescheduled tz now hostNow x else x) (db_schedules d))"
      "s' = fold (\<lambda>q. enqueue R (ts_id q)) (concat (map snd fs)) ?s1"
    using Cons.IH [of ?d1 ?s1] Cons.prems(2) by auto
  have "db_schedules d' = map (\<lambda>x. if x \<in> set (r # rs) then rescheduled tz now hostNow x else x) (db_schedules d)"
    using fs(4) new by simp
  then show ?case using f fs by (intro exI [of _ "(ex, rows) # fs"]) simp
qed

lemma due_schedules_set: "set (due_schedules now d) \<subseteq> {r \<in> set (db_schedules d). due_at now r}"
  unfolding due_schedules_def using set_take_subset [of 50 "sort_key (\<lambda>r. the (sc_nextRunAt r)) (filter (due_at now) (db_schedules d))"]
  by auto

lemma due_schedules_distinct:
  assumes "schema_ok gen d" shows "distinct (due_schedules now d)"
proof -
  have "distinct (map sc_id (db_schedules d))" using assms by (simp add: schema_ok_def ids_of_def)
  then show ?thesis unfolding due_schedules_def by (simp add: distinct_map)
qed

lemma due_schedules_all:
  assumes "length (filter (due_at now) (db_schedules d)) \<le> 50"
  shows "set (due_schedules now d) = {r \<in> set (db_schedules d). due_at now r}"
  using assms by (simp add: due_schedules_def)

lemma next_schedule_run_later:
  assumes "next_schedule_run tz hostNow r = Inr t" "schedule_ok r"
  shows "hostNow < t \<or> sc_cronExpr r \<noteq> None \<and> sc_intervalMs r = None \<and> \<not> truthy_str (sc_cronExpr r)"
  using assms getNextRunTime_later [of tz _ hostNow _ t]
  by (auto simp: next_schedule_run_def schedule_ok_def split: if_splits option.splits)

lemma evaluate_effect:
  assumes "inj gen" "schema_ok gen d" "evaluate gen tz now hostNow R (d, s) = (d', s')"
  shows "\<exists>fs. list_all2 (fired_for d now) (due_schedules now d) fs \<and>
    db_executions d' = db_executions d @ map fst fs \<and> db_states d' = db_states d @ concat (map snd fs) \<and>
    db_schedules d' = map (\<lambda>x. if x \<in> set (due_schedules now d) then rescheduled tz now hostNow x else x) (db_schedules d) \<and>
    s' = fold (\<lambda>q. enqueue R (ts_id q)) (concat (map snd fs)) s"
proof (rule fire_all [OF assms(1,2) due_schedules_distinct [OF assms(2)]])
  show "set (due_schedules now d) \<subseteq> set (db_schedules d)" using due_schedules_set [of now d] by blast
  show "fold (fire_schedule gen tz now hostNow R) (due_schedules now d) (d, s) = (d', s')"
    using assms(3) by (simp add: evaluate_def)
qed

definition workflow_executions :: "db \<Rightarrow> string \<Rightarrow> Execution list" where
  "workflow_executions d w = filter (\<lambda>x. ex_workflowId x = w) (db_executions d)"

lemma stuck_poll:
  assumes "inj gen" "schema_ok gen d" "evaluate gen tz now hostNow R (d, s) = (d', s')"
    and "r \<in> set (db_schedules d)" "length (db_schedules d) \<le> 50" "due_at now r"
    and "next_schedule_run tz hostNow r = Inl err"
  shows "r \<in> set (db_schedules d')" "length (db_schedules d') = length (db_schedules d)"
    "length (workflow_executions d (sc_workflowId r)) < length (workflow_executions d' (sc_workflowId r))"
proof -
  obtain fs where fs: "list_all2 (fired_for d now) (due_schedules now d) fs"
      "db_executions d' = db_executions d @ map fst fs"
      "db_schedules d' = map (\<lambda>x. if x \<in> set (due_schedules now d) then rescheduled tz now hostNow x else x) (db_schedules d)"
    using evaluate_effect [OF assms(1-3)] by blast
  have "rescheduled tz now hostNow r = r" using assms(7) by (simp add: rescheduled_def)
  then show "r \<in> set (db_schedules d')" unfolding fs(3) using assms(4) by (auto intro!: image_eqI [of _ _ r])
  show "length (db_schedules d') = length (db_schedules d)" by (simp add: fs(3))
  have "length (filter (due_at now) (db_schedules d)) \<le> 50"
    using order_trans [OF length_filter_le assms(5)] .
  then have "r \<in> set (due_schedules now d)" using due_schedules_all [of now d] assms(4,6) by simp
  then obtain f where f: "f \<in> set fs" "fired_for d now r f"
    using fs(1) unfolding list_all2_conv_all_nth in_set_conv_nth by (metis nth_mem)
  then have "fst f \<in> set (filter (\<lambda>x. ex_workflowId x = sc_workflowId r) (map fst fs))"
    by (simp add: fired_for_def)
  then have "0 < length (filter (\<lambda>x. ex_workflowId x = sc_workflowId r) (map fst fs))"
    by (rule length_pos_if_in_set)
  then show "length (workflow_executions d (sc_workflowId r)) < length (workflow_executions d' (sc_workflowId r))"
    unfolding workflow_executions_def fs(2) filter_append length_append by linarith
qed

subsection \<open>Properties\<close>



text \<open>
  C14: A schedule fires once per due time: after a poll that could compute its next run, the run lies
  after the time of the process, and no poll before that time finds the schedule again.
\<close>

theorem fired_schedule_rests:
  assumes "inj gen" "schema_ok gen d" "evaluate gen tz now hostNow R (d, s) = (d', s')"
    "r \<in> set (due_schedules now d)" "next_schedule_run tz hostNow r = Inr t" "sc_cronExpr r \<noteq> Some []"
  shows "hostNow < t \<and> r\<lparr>sc_lastRunAt := Some now, sc_nextRunAt := Some t\<rparr> \<in> set (db_schedules d') \<and>
    (\<forall>now' < t. sc_id r \<notin> sc_id ` set (due_schedules now' d'))"
proof -
  have r: "r \<in> set (db_schedules d)" using assms(4) due_schedules_set by blast
  have "schedule_ok r" using schema_checks [OF assms(2)] r by (simp add: checks_ok_def list_all_iff)
  then have later: "hostNow < t"
    using next_schedule_run_later [OF assms(5)] assms(6) by (auto simp: truthy_str_def)
  let ?r = "r\<lparr>sc_lastRunAt := Some now, sc_nextRunAt := Some t\<rparr>"
  have res: "rescheduled tz now hostNow r = ?r" by (simp add: rescheduled_def assms(5))
  obtain rs where sch: "db_schedules d' = map (\<lambda>x. if x \<in> set (due_schedules now d) then rescheduled tz now hostNow x else x) (db_schedules d)"
    using evaluate_effect [OF assms(1-3)] by blast
  have mem: "?r \<in> set (db_schedules d')"
    unfolding sch using r assms(4) res by (auto intro!: image_eqI [of _ _ r])
  have "schema_ok gen d'" using evaluate_schema [OF assms(1), of "(d, s)" tz now hostNow R] assms(2,3) by simp
  then have dist: "distinct (map sc_id (db_schedules d'))" by (simp add: schema_ok_def ids_of_def)
  have "sc_id r \<notin> sc_id ` set (due_schedules now' d')" if "now' < t" for now'
  proof
    assume "sc_id r \<in> sc_id ` set (due_schedules now' d')"
    then obtain x where x: "x \<in> set (db_schedules d')" "due_at now' x" "sc_id x = sc_id r"
      using due_schedules_set [of now' d'] by auto
    then have "x = ?r" using key_unique [OF dist x(1) mem] by simp
    then show False using x(2) that by (simp add: due_at_def)
  qed
  then show ?thesis using later mem by blast
qed

theorem fired_schedule_rests_witness:
  "let (d', s') = evaluate sample_gen (\<lambda>z. None) 7 8 mem_redis (schedule_db, empty_server)
   in sample_gen 3 \<notin> sc_id ` set (due_schedules 60007 d')"
proof -
  obtain d' s' where e: "evaluate sample_gen (\<lambda>z. None) 7 8 mem_redis (schedule_db, empty_server) = (d', s')"
    by (metis surj_pair)
  let ?r = "\<lparr>sc_id = sample_gen 3, sc_workflowId = sample_gen 0, sc_cronExpr = None, sc_intervalMs = Some 60000,
      sc_timezone = Some ''UTC'', sc_active = True, sc_lastRunAt = None, sc_nextRunAt = Some 5, sc_createdAt = 0\<rparr>"
  have "due_schedules 7 schedule_db = [?r]" by code_simp
  then have r: "?r \<in> set (due_schedules 7 schedule_db)" by simp
  have n: "next_schedule_run (\<lambda>z. None) 8 ?r = Inr 60008" by (simp add: next_schedule_run_def truthy_str_def)
  show ?thesis
    using fired_schedule_rests [OF inj_sample_gen schedule_db_ok e r n] by (simp add: e)
qed

text \<open>
  A due schedule whose next run cannot be computed is never moved on, since the exception is raised
  after the execution has been created and enqueued: among at most fifty schedules, every poll creates
  one more execution of its workflow.
\<close>

theorem stuck_schedule_floods:
  assumes "inj gen" "schema_ok gen d" "r \<in> set (db_schedules d)" "length (db_schedules d) \<le> 50"
    and "\<forall>(now, hostNow) \<in> set polls. due_at now r \<and> isl (next_schedule_run tz hostNow r)"
    and "fold (\<lambda>(now, hostNow). evaluate gen tz now hostNow R) polls (d, s) = (d', s')"
  shows "r \<in> set (db_schedules d') \<and>
    length (workflow_executions d (sc_workflowId r)) + length polls \<le> length (workflow_executions d' (sc_workflowId r))"
  using assms(2-6)
proof (induction polls arbitrary: d s)
  case (Cons p polls)
  obtain now hostNow where p: "p = (now, hostNow)" by (cases p)
  obtain d1 s1 where e: "evaluate gen tz now hostNow R (d, s) = (d1, s1)" by (metis surj_pair)
  obtain err where err: "next_schedule_run tz hostNow r = Inl err" and due: "due_at now r"
    using Cons.prems(4) p by (auto simp: isl_def)
  note poll = stuck_poll [OF assms(1) Cons.prems(1) e Cons.prems(2,3) due err]
  have ok: "schema_ok gen d1" using evaluate_schema [OF assms(1), of "(d, s)" tz now hostNow R] Cons.prems(1) e by simp
  have "r \<in> set (db_schedules d') \<and>
      length (workflow_executions d1 (sc_workflowId r)) + length polls \<le> length (workflow_executions d' (sc_workflowId r))"
    using Cons.IH [OF ok poll(1)] poll(2) Cons.prems(3-5) p e by simp
  then show ?case using poll(3) by simp
qed simp

definition leap_row :: Schedule where
  "leap_row = \<lparr>sc_id = sample_gen 3, sc_workflowId = sample_gen 0, sc_cronExpr = Some (show_cron leap_days),
     sc_intervalMs = None, sc_timezone = None, sc_active = True, sc_lastRunAt = None,
     sc_nextRunAt = Some 3981312000000, sc_createdAt = 0\<rparr>"

definition leap_db :: db where
  "leap_db = schedule_db\<lparr>db_schedules := [leap_row]\<rparr>"

theorem stuck_schedule_floods_witness:
  "2 \<le> length (workflow_executions (fst (fold (\<lambda>(now, hostNow). evaluate sample_gen no_zones now hostNow mem_redis)
     [(3981398400000, 3981398400000), (3981398400000, 3981398400000)] (leap_db, empty_server))) (sample_gen 0))"
proof -
  let ?t = "3981398400000 :: int"
  obtain d' s' where e: "fold (\<lambda>(now, hostNow). evaluate sample_gen no_zones now hostNow mem_redis)
      [(?t, ?t), (?t, ?t)] (leap_db, empty_server) = (d', s')" by (metis surj_pair)
  have "ids_of leap_db = ids_of schedule_db" "refs_of leap_db = refs_of schedule_db" "checks_ok leap_db"
    by (simp_all add: leap_db_def schedule_db_def ids_of_def refs_of_def leap_row_def checks_ok_def schedule_ok_def empty_db_def)
  then have ok: "schema_ok sample_gen leap_db"
    by (intro schema_update [OF schedule_db_ok]) (simp_all add: leap_db_def)
  have "show_cron leap_days \<noteq> []" by code_simp
  then have "isl (next_schedule_run no_zones ?t leap_row)"
    using leap_day_schedule_fails [of no_zones] by (simp add: next_schedule_run_def leap_row_def truthy_str_def)
  moreover have "due_at ?t leap_row" by (simp add: due_at_def leap_row_def)
  moreover have "leap_row \<in> set (db_schedules leap_db)" "length (db_schedules leap_db) \<le> 50"
    "sc_workflowId leap_row = sample_gen 0" by (simp_all add: leap_db_def leap_row_def)
  ultimately have "2 \<le> length (workflow_executions d' (sample_gen 0))"
    using stuck_schedule_floods [OF inj_sample_gen ok _ _ _ e, of leap_row] by simp
  then show ?thesis unfolding e by simp
qed

end
