(* ===== verification/WebhookGateway.thy ===== *)
theory WebhookGateway
  imports Database JsString "HOL-Library.Word"
begin

section \<open>The webhook gateway (packages/shared/src/security/hmac-validator.ts, services/webhook-gateway/src)\<close>

text \<open>
  Signatures, the middlewares and the handler of the gateway.  A buffer is a list of bytes.  The
  parameters are \<open>hmac\<close>, the HMAC-SHA256 of a payload under a secret, and \<open>fetch\<close>, the scheduler's answer
  to a request.  \<open>Buffer.from(s, 'hex')\<close> reads pairs of hexadecimal digits up to the first character that
  is none and drops a single digit at the end.  A handler's result is its response and the requests it
  has sent to the scheduler.
\<close>

type_synonym bytes = "8 word list"

subsection \<open>Hexadecimal texts\<close>

definition hex_digit :: "char \<Rightarrow> nat option" where
  "hex_digit c = (let n = code_unit c in
     if 48 \<le> n \<and> n \<le> 57 then Some (n - 48) else if 97 \<le> n \<and> n \<le> 102 then Some (n - 87)
     else if 65 \<le> n \<and> n \<le> 70 then Some (n - 55) else None)"

definition hex_char :: "nat \<Rightarrow> char" where
  "hex_char n = (if n < 10 then char_of (48 + n) else char_of (87 + n))"

fun hex_decode :: "string \<Rightarrow> bytes" where
  "hex_decode (c # d # cs) =
     (case (hex_digit c, hex_digit d) of
        (Some a, Some b) \<Rightarrow> word_of_nat (16 * a + b) # hex_decode cs
      | _ \<Rightarrow> [])"
| "hex_decode _ = []"

definition hex_encode :: "bytes \<Rightarrow> string" where
  "hex_encode bs = concat (map (\<lambda>b. [hex_char (unat b div 16), hex_char (unat b mod 16)]) bs)"

lemma hex_digit_char: "n < 16 \<Longrightarrow> hex_digit (hex_char n) = Some n"
  by (auto simp: hex_digit_def hex_char_def code_unit_def Let_def)

lemma hex_decode_encode: "hex_decode (hex_encode bs @ rest) = bs @ hex_decode rest"
proof (induction bs)
  case (Cons b bs)
  have "unat b < 2 ^ LENGTH(8)" by (rule unsigned_less)
  then have "unat b < 256" by simp
  then have "unat b div 16 < 16" "unat b mod 16 < 16" by auto
  then show ?case using Cons.IH
    by (simp add: hex_encode_def hex_digit_char)
qed (simp add: hex_encode_def)

subsection \<open>hmac-validator.ts\<close>

definition computeSignature :: "(bytes \<Rightarrow> string \<Rightarrow> bytes) \<Rightarrow> bytes \<Rightarrow> string \<Rightarrow> string" where
  "computeSignature hmac payload secret = hex_encode (hmac payload secret)"

definition provided_signature :: "string \<Rightarrow> string" where
  "provided_signature signatureHeader =
     (if take 7 signatureHeader = ''sha256='' then drop 7 signatureHeader else signatureHeader)"

definition validateSignature :: "(bytes \<Rightarrow> string \<Rightarrow> bytes) \<Rightarrow> bytes \<Rightarrow> string \<Rightarrow> string \<Rightarrow> bool" where
  "validateSignature hmac payload signatureHeader secret =
     (let expectedSignature = computeSignature hmac payload secret;
          expectedBuffer = hex_decode expectedSignature;
          providedBuffer = hex_decode (provided_signature signatureHeader)
      in if length expectedBuffer \<noteq> length providedBuffer then False else expectedBuffer = providedBuffer)"

lemma validateSignature_iff:
  "validateSignature hmac payload h secret \<longleftrightarrow> hex_decode (provided_signature h) = hmac payload secret"
  using hex_decode_encode [of "hmac payload secret" "[]"]
  by (auto simp: validateSignature_def computeSignature_def Let_def)

subsection \<open>Requests and middlewares\<close>

record webhook_request =
  wq_id :: string
  wq_contentLength :: "string option"
  wq_signature :: "string option"
  wq_rawBody :: "bytes option"
  wq_body :: jsval

datatype webhook_response = Refused int | AcceptedWebhook jsval

definition MAX_PAYLOAD_SIZE :: int where "MAX_PAYLOAD_SIZE = 1 * 1024 * 1024"

text \<open>\<open>None\<close> when the middleware calls \<open>next\<close>.\<close>

definition payloadValidator :: "webhook_request \<Rightarrow> webhook_response option" where
  "payloadValidator req =
     (let too_long = (case wq_contentLength req of
            None \<Rightarrow> False
          | Some s \<Rightarrow> s \<noteq> [] \<and> (case js_parseInt s of Some n \<Rightarrow> MAX_PAYLOAD_SIZE < n | None \<Rightarrow> False));
          is_json = (case wq_body req of JObj _ \<Rightarrow> True | JArr _ \<Rightarrow> True | _ \<Rightarrow> False);
          too_big = (case wq_rawBody req of None \<Rightarrow> False | Some raw \<Rightarrow> MAX_PAYLOAD_SIZE < int (length raw))
      in if too_long then Some (Refused 400)
         else if \<not> is_json then Some (Refused 400)
         else if too_big then Some (Refused 400)
         else None)"

text \<open>The check of a signature, in the middleware and in the handler.\<close>

definition signature_refused :: "(bytes \<Rightarrow> string \<Rightarrow> bytes) \<Rightarrow> string option \<Rightarrow> webhook_request \<Rightarrow> bool" where
  "signature_refused hmac secret req =
     (case secret of
        None \<Rightarrow> False
      | Some key \<Rightarrow> key \<noteq> [] \<and>
          (case wq_signature req of
             None \<Rightarrow> True
           | Some signatureHeader \<Rightarrow> signatureHeader = [] \<or>
               (case wq_rawBody req of
                  None \<Rightarrow> True
                | Some rawBody \<Rightarrow> \<not> validateSignature hmac rawBody signatureHeader key)))"

definition createHmacValidator ::
    "(bytes \<Rightarrow> string \<Rightarrow> bytes) \<Rightarrow> WebhookRegistration option \<Rightarrow> webhook_request \<Rightarrow> webhook_response option" where
  "createHmacValidator hmac webhook req =
     (case webhook of
        None \<Rightarrow> None
      | Some w \<Rightarrow> if signature_refused hmac (wh_secret w) req then Some (Refused 401) else None)"

subsection \<open>webhook-forwarder.ts\<close>

text \<open>The scheduler's answer: unreachable, or a status and a body, if it is JSON.\<close>

datatype fetch_answer = Unreachable | Answer int "jsval option"

record ForwardResult =
  fw_success :: bool
  fw_statusCode :: int
  fw_executionId :: jsval

definition forwardToScheduler :: "(string \<Rightarrow> jsval \<Rightarrow> fetch_answer) \<Rightarrow> string \<Rightarrow> jsval \<Rightarrow> ForwardResult" where
  "forwardToScheduler fetch workflowId payload =
     (let unavailable = \<lparr>fw_success = False, fw_statusCode = 502, fw_executionId = JUndefined\<rparr> in
      case fetch workflowId (JObj [(''input'', payload)]) of
        Unreachable \<Rightarrow> unavailable
      | Answer status body \<Rightarrow>
          if 200 \<le> status \<and> status \<le> 299
          then (case body of
              None \<Rightarrow> unavailable
            | Some JNull \<Rightarrow> unavailable
            | Some (JObj ps) \<Rightarrow> \<lparr>fw_success = True, fw_statusCode = status,
                fw_executionId = (case map_of ps ''id'' of Some v \<Rightarrow> v | None \<Rightarrow> JUndefined)\<rparr>
            | Some _ \<Rightarrow> \<lparr>fw_success = True, fw_statusCode = status, fw_executionId = JUndefined\<rparr>)
          else \<lparr>fw_success = False, fw_statusCode = status, fw_executionId = JUndefined\<rparr>)"

subsection \<open>webhook-controller.ts\<close>

definition handleWebhook ::
    "(bytes \<Rightarrow> string \<Rightarrow> bytes) \<Rightarrow> (string \<Rightarrow> jsval \<Rightarrow> fetch_answer) \<Rightarrow> webhook_request \<Rightarrow> db \<Rightarrow>
     webhook_response \<times> (string \<times> jsval) list" where
  "handleWebhook hmac fetch req d =
     (case filter (\<lambda>w. wh_id w = wq_id req) (db_webhooks d) of
        [] \<Rightarrow> (Refused 404, [])
      | webhook # _ \<Rightarrow>
          if \<not> wh_active webhook then (Refused 404, [])
          else if signature_refused hmac (wh_secret webhook) req then (Refused 401, [])
          else
            (let forwardResult = forwardToScheduler fetch (wh_workflowId webhook) (wq_body req);
                 sent = [(wh_workflowId webhook, wq_body req)]
             in if \<not> fw_success forwardResult
                then (Refused (if fw_statusCode forwardResult = 0 then 502 else fw_statusCode forwardResult), sent)
                else (AcceptedWebhook (fw_executionId forwardResult), sent)))"

text \<open>The route: the payload middleware, then the handler.\<close>

definition webhook_route ::
    "(bytes \<Rightarrow> string \<Rightarrow> bytes) \<Rightarrow> (string \<Rightarrow> jsval \<Rightarrow> fetch_answer) \<Rightarrow> webhook_request \<Rightarrow> db \<Rightarrow>
     webhook_response \<times> (string \<times> jsval) list" where
  "webhook_route hmac fetch req d =
     (case payloadValidator req of Some r \<Rightarrow> (r, []) | None \<Rightarrow> handleWebhook hmac fetch req d)"

lemma signature_accepted:
  "\<not> signature_refused hmac secret req \<Longrightarrow> truthy_str secret \<Longrightarrow>
     \<exists>key h raw. secret = Some key \<and> wq_signature req = Some h \<and> wq_rawBody req = Some raw \<and>
       hex_decode (provided_signature h) = hmac raw key"
  by (auto simp: signature_refused_def truthy_str_def validateSignature_iff split: option.splits)

lemma signature_garbage:
  assumes "hex_decode rest = []"
  shows "validateSignature hmac payload (''sha256='' @ computeSignature hmac payload secret @ rest) secret"
  using hex_decode_encode [of "hmac payload secret" rest] assms
  by (simp add: validateSignature_iff provided_signature_def computeSignature_def)

subsection \<open>Properties\<close>


definition toy_hmac :: "bytes \<Rightarrow> string \<Rightarrow> bytes" where
  "toy_hmac payload secret = [fold (+) payload (of_nat (length secret)), 7]"

definition sample_hook :: "webhook_request \<Rightarrow> webhook_response \<times> (string \<times> jsval) list" where
  "sample_hook req = webhook_route toy_hmac (\<lambda>w b. Answer 202 (Some (JObj [(''id'', JStr ''x'')]))) req
     (empty_db\<lparr>db_webhooks := [\<lparr>wh_id = ''h'', wh_workflowId = ''w'', wh_secret = Some ''key'', wh_active = True, wh_createdAt = 0\<rparr>]\<rparr>)"


text \<open>
  A signature need not be a hexadecimal text of the right length: whatever follows the digits of a
  correct signature is ignored from the first character that is no hexadecimal digit on.
\<close>

theorem signature_ignores_garbage:
  "validateSignature hmac payload (''sha256='' @ computeSignature hmac payload secret @ ''zz, anything'') secret"
  by (rule signature_garbage) (simp add: hex_digit_def code_unit_def)

end
