(* ===== verification/SchedulerServices.thy ===== *)
theory SchedulerServices
  imports ScheduleEvaluator WebhookGateway EventBus StateMachine TaskClaimer
begin

section \<open>Triggers, completion and orphans (services/scheduler-api/src/services)\<close>

text \<open>
  The classes \<open>TriggerManager\<close>, \<open>ExecutionManager\<close> and \<open>OrphanDetector\<close>.  A statement that names a
  column the migrations do not create, or a conflict target without a unique constraint, fails
  whenever it is prepared, whatever the tables hold.
\<close>

subsection \<open>trigger-manager.ts\<close>

record TriggerConfig =
  tc_type :: string
  tc_scheduleId :: "string option"
  tc_secret :: "string option"

record TriggerResult =
  tg_webhookUrl :: "string option"
  tg_scheduleId :: "string option"

text \<open>\<open>INSERT ... ON CONFLICT (workflow_id) DO UPDATE\<close> needs a constraint that makes \<open>workflow_id\<close>
  unique; the table has its primary key only.\<close>

definition webhook_unique_keys :: "string list list" where
  "webhook_unique_keys = [[''id'']]"

definition upsert_webhook :: "WebhookRegistration \<Rightarrow> db \<Rightarrow> db_error + db" where
  "upsert_webhook row d =
     (if [''workflow_id''] \<notin> set webhook_unique_keys then Inl NoMatchingConstraint
      else if (case wh_secret row of None \<Rightarrow> False | Some s \<Rightarrow> 255 < length s) then Inl StringTooLong
      else if wh_workflowId row \<in> wh_workflowId ` set (db_webhooks d)
      then Inr (d\<lparr>db_webhooks := update_rows (\<lambda>r. wh_workflowId r = wh_workflowId row)
                    (\<lambda>r. r\<lparr>wh_secret := wh_secret row, wh_active := True\<rparr>) (db_webhooks d)\<rparr>)
      else if wh_workflowId row \<notin> w_id ` set (db_workflows d) then Inl ForeignKeyViolation
      else Inr (d\<lparr>db_webhooks := db_webhooks d @ [row]\<rparr>))"

text \<open>\<open>webhookId\<close> and \<open>newSecret\<close> are what \<open>uuidv4()\<close> returns.\<close>

definition handleTriggerConfig ::
    "string \<Rightarrow> string \<Rightarrow> date \<Rightarrow> string \<Rightarrow> TriggerConfig \<Rightarrow> db \<Rightarrow> db_error + (TriggerResult \<times> db)" where
  "handleTriggerConfig webhookId newSecret now workflowId config d =
     (if tc_type config = ''webhook''
      then (let secret = (if truthy_str (tc_secret config) then the (tc_secret config) else newSecret) in
        bindE (upsert_webhook \<lparr>wh_id = webhookId, wh_workflowId = workflowId, wh_secret = Some secret,
            wh_active = True, wh_createdAt = now\<rparr> d) (\<lambda>d'.
          Inr (\<lparr>tg_webhookUrl = Some (''/api/v1/webhooks/'' @ workflowId), tg_scheduleId = None\<rparr>, d')))
      else if tc_type config = ''schedule'' \<and> truthy_str (tc_scheduleId config)
      then Inr (\<lparr>tg_webhookUrl = None, tg_scheduleId = tc_scheduleId config\<rparr>, d)
      else Inr (\<lparr>tg_webhookUrl = None, tg_scheduleId = None\<rparr>, d))"

definition removeTrigger :: "string \<Rightarrow> db \<Rightarrow> db" where
  "removeTrigger workflowId d =
     (let d1 = d\<lparr>db_webhooks := update_rows (\<lambda>r. wh_workflowId r = workflowId) (\<lambda>r. r\<lparr>wh_active := False\<rparr>) (db_webhooks d)\<rparr>
      in set_schedules (\<lambda>r. sc_workflowId r = workflowId) (\<lambda>r. r\<lparr>sc_active := False\<rparr>) d1)"

subsection \<open>execution-manager.ts\<close>

definition checkExecutionCompletion :: "date \<Rightarrow> string \<Rightarrow> db \<Rightarrow> db" where
  "checkExecutionCompletion now executionId d =
     (let statuses = map ts_status (filter (\<lambda>r. ts_executionId r = executionId) (db_states d)) in
      if statuses = [] then d
      else if \<not> list_all isTerminalState statuses then d
      else
        (let hasFailed = list_ex (\<lambda>s. s = Failed) statuses;
             finalStatus = (if hasFailed then ExFailed else ExCompleted)
         in d\<lparr>db_executions := update_rows (\<lambda>r. ex_id r = executionId \<and> ex_status r = ExRunning)
              (\<lambda>r. r\<lparr>ex_status := finalStatus, ex_completedAt := Some now\<rparr>) (db_executions d)\<rparr>))"

text \<open>A handler is the name of the function it calls.\<close>

datatype manager_handler = CheckCompletion

definition manager_start :: "manager_handler bus \<Rightarrow> manager_handler bus" where
  "manager_start b = subscribe ''task:failed'' CheckCompletion (subscribe ''task:completed'' CheckCompletion b)"

text \<open>What a message leads to in the database.\<close>

definition on_message :: "date \<Rightarrow> manager_handler bus \<Rightarrow> message \<Rightarrow> db \<Rightarrow> db" where
  "on_message now b m d =
     fold (\<lambda>(h, event). case h of CheckCompletion \<Rightarrow> checkExecutionCompletion now (ev_executionId event)) (deliver m b) d"

subsection \<open>orphan-detector.ts\<close>

definition ORPHAN_EXECUTOR :: string where "ORPHAN_EXECUTOR = ''orphan-detector-instance''"

text \<open>The columns of \<open>task_states\<close>, and a statement that names some: it is refused when one is missing.
  The value of the column \<open>claimed_at\<close>, which the selection compares, is a parameter.\<close>

definition task_state_columns :: "string list" where
  "task_state_columns = [''id'', ''execution_id'', ''task_definition_id'', ''status'', ''attempt_count'', ''output'',
     ''error'', ''started_at'', ''completed_at'', ''created_at'']"

definition with_columns :: "string list \<Rightarrow> 'a \<Rightarrow> db_error + 'a" where
  "with_columns named result = (if set named \<subseteq> set task_state_columns then Inr result else Inl UndefinedColumn)"

definition select_orphans :: "(TaskState \<Rightarrow> date option) \<Rightarrow> date \<Rightarrow> db \<Rightarrow> db_error + string list" where
  "select_orphans claimed_at now d =
     with_columns [''id'', ''execution_id'', ''status'', ''claimed_at'']
       (map ts_id (filter (\<lambda>r. show_status (ts_status r) = ''processing'' \<and>
          (case claimed_at r of None \<Rightarrow> False | Some t \<Rightarrow> t < now - 5 * 60 * 1000)) (db_states d)))"

definition reset_orphan :: "string \<Rightarrow> db \<Rightarrow> db_error + db" where
  "reset_orphan taskStateId d =
     with_columns [''status'', ''claimed_at'', ''attempts'', ''id'']
       (d\<lparr>db_states := update_rows (\<lambda>r. ts_id r = taskStateId \<and> show_status (ts_status r) = ''processing'')
            (\<lambda>r. r\<lparr>ts_status := Pending\<rparr>) (db_states d)\<rparr>)"

lemma orphan_statements_fail:
  "select_orphans claimed_at now d = Inl UndefinedColumn" "reset_orphan i d = Inl UndefinedColumn"
  by (simp_all add: select_orphans_def reset_orphan_def with_columns_def task_state_columns_def)

definition requeue_orphan :: "'s redis \<Rightarrow> string \<Rightarrow> db \<times> 's \<Rightarrow> db \<times> 's" where
  "requeue_orphan R orphan st =
     (case reset_orphan orphan (fst st) of Inl _ \<Rightarrow> st | Inr d \<Rightarrow> (d, enqueue R orphan (snd st)))"

text \<open>The error that ends the call, if any, and the state: the lock is released in any case.\<close>

definition detect ::
    "(TaskState \<Rightarrow> date option) \<Rightarrow> date \<Rightarrow> 's redis \<Rightarrow> db \<times> 's \<Rightarrow> db_error option \<times> (db \<times> 's)" where
  "detect claimed_at now R st =
     (let (d, s) = st; (lock, s1) = acquire R ''orphan-detector'' ORPHAN_EXECUTOR DEFAULT_TTL_MS s in
      if \<not> lock then (None, (d, s1))
      else
        (case select_orphans claimed_at now d of
           Inl e \<Rightarrow> (Some e, (d, snd (release R ''orphan-detector'' ORPHAN_EXECUTOR s1)))
         | Inr orphans \<Rightarrow>
             (let (d2, s2) = fold (requeue_orphan R) orphans (d, s1)
              in (None, (d2, snd (release R ''orphan-detector'' ORPHAN_EXECUTOR s2))))))"

subsection \<open>Lemmas\<close>

lemma removeTrigger_tables:
  "db_webhooks (removeTrigger w d) = update_rows (\<lambda>r. wh_workflowId r = w) (\<lambda>r. r\<lparr>wh_active := False\<rparr>) (db_webhooks d)"
  "db_schedules (removeTrigger w d) = update_rows (\<lambda>r. sc_workflowId r = w) (\<lambda>r. r\<lparr>sc_active := False\<rparr>) (db_schedules d)"
  by (simp_all add: removeTrigger_def set_schedules_def Let_def)

lemma removeTrigger_schema:
  assumes "schema_ok gen d" shows "schema_ok gen (removeTrigger w d)"
proof -
  let ?d1 = "d\<lparr>db_webhooks := update_rows (\<lambda>r. wh_workflowId r = w) (\<lambda>r. r\<lparr>wh_active := False\<rparr>) (db_webhooks d)\<rparr>"
  have "schema_ok gen ?d1"
    by (rule schema_update [OF assms]) (use schema_checks [OF assms] in \<open>simp_all add: table_defs map_update_rows\<close>)
  then show ?thesis by (auto simp: removeTrigger_def Let_def schedule_ok_def intro!: set_schedules_schema)
qed

lemma completion_schema:
  assumes "schema_ok gen d" shows "schema_ok gen (checkExecutionCompletion now i d)"
proof -
  have "schema_ok gen (d\<lparr>db_executions := update_rows p (\<lambda>r. r\<lparr>ex_status := a, ex_completedAt := b\<rparr>) (db_executions d)\<rparr>)" for p a b
    by (rule schema_update [OF assms]) (use schema_checks [OF assms] in \<open>simp_all add: table_defs map_update_rows\<close>)
  then show ?thesis using assms by (simp add: checkExecutionCompletion_def Let_def)
qed

lemma route_forwards:
  assumes "webhook_route hmac fetch req d = (r, sent)" "x \<in> set sent"
  shows "\<exists>w \<in> set (db_webhooks d). wh_active w \<and> fst x = wh_workflowId w"
proof -
  have "\<exists>w \<in> set (db_webhooks d). wh_active w \<and> sent = [(wh_workflowId w, wq_body req)]"
  proof (cases "filter (\<lambda>w. wh_id w = wq_id req) (db_webhooks d)")
    case Nil
    then show ?thesis using assms by (auto simp: webhook_route_def handleWebhook_def split: option.splits)
  next
    case (Cons w ws)
    then have "w \<in> set (filter (\<lambda>w. wh_id w = wq_id req) (db_webhooks d))" by simp
    then have "w \<in> set (db_webhooks d)" by simp
    then show ?thesis using assms Cons
      by (auto simp: webhook_route_def handleWebhook_def Let_def split: option.splits if_splits)
  qed
  then show ?thesis using assms(2) by auto
qed

lemma completion_effect:
  assumes "schema_ok gen d" "ex \<in> set (db_executions d)"
    and "sts = ts_status ` {q \<in> set (db_states d). ts_executionId q = ex_id ex}"
  shows "checkExecutionCompletion now (ex_id ex) d =
    (if ex_status ex = ExRunning \<and> sts \<noteq> {} \<and> sts \<subseteq> {Completed, Failed, Cancelled, TimedOut}
     then d\<lparr>db_executions := map (\<lambda>x. if x = ex
       then x\<lparr>ex_status := (if Failed \<in> sts then ExFailed else ExCompleted), ex_completedAt := Some now\<rparr> else x) (db_executions d)\<rparr>
     else d)"
proof -
  let ?ss = "map ts_status (filter (\<lambda>r. ts_executionId r = ex_id ex) (db_states d))"
  have sts: "sts = set ?ss" using assms(3) by auto
  have terminal: "list_all isTerminalState ?ss \<longleftrightarrow> sts \<subseteq> {Completed, Failed, Cancelled, TimedOut}"
    unfolding sts by (auto simp: list_all_iff isTerminalState_def TERMINAL_STATES_def)
  have fail: "list_ex (\<lambda>s. s = Failed) ?ss \<longleftrightarrow> Failed \<in> sts" unfolding sts by (auto simp: list_ex_iff)
  have empty: "?ss = [] \<longleftrightarrow> sts = {}" unfolding sts by (auto simp: filter_empty_conv)
  have dist: "distinct (map ex_id (db_executions d))" using assms(1) by (simp add: schema_ok_def ids_of_def)
  have upd: "update_rows (\<lambda>r. ex_id r = ex_id ex \<and> ex_status r = ExRunning) f (db_executions d) =
      (if ex_status ex = ExRunning then map (\<lambda>x. if x = ex then f x else x) (db_executions d) else db_executions d)" for f
    using key_unique [OF dist _ assms(2)] by (auto simp: update_rows_def intro!: map_cong map_idI) blast
  show ?thesis
    unfolding checkExecutionCompletion_def Let_def terminal fail empty upd by (cases "ex_status ex = ExRunning") simp_all
qed

subsection \<open>Properties\<close>

text \<open>
  C20: After its trigger has been removed, no workflow is started from outside: the gateway forwards no
  request to it, and no poll finds a schedule of it due; the rows of other workflows are the same.
\<close>

theorem removed_trigger_silent:
  assumes "webhook_route hmac fetch req (removeTrigger w d) = (r, sent)"
  shows "w \<notin> fst ` set sent \<and> w \<notin> sc_workflowId ` set (due_schedules now (removeTrigger w d)) \<and>
    filter (\<lambda>q. wh_workflowId q \<noteq> w) (db_webhooks (removeTrigger w d)) = filter (\<lambda>q. wh_workflowId q \<noteq> w) (db_webhooks d) \<and>
    filter (\<lambda>q. sc_workflowId q \<noteq> w) (db_schedules (removeTrigger w d)) = filter (\<lambda>q. sc_workflowId q \<noteq> w) (db_schedules d)"
proof -
  have others: "filter (\<lambda>q. f q \<noteq> w) (update_rows (\<lambda>q. f q = w) g rows) = filter (\<lambda>q. f q \<noteq> w) rows"
    if "\<And>q. f (g q) = f q" for f :: "'r \<Rightarrow> string" and g rows
    using that by (induction rows) (auto simp: update_rows_def)
  have hooks: "wh_workflowId q \<noteq> w" if "q \<in> set (db_webhooks (removeTrigger w d))" "wh_active q" for q
    using that unfolding removeTrigger_tables set_update_rows by (elim UnE imageE CollectE conjE) simp_all
  have timers: "sc_workflowId q \<noteq> w" if "q \<in> set (db_schedules (removeTrigger w d))" "due_at now q" for q
    using that unfolding removeTrigger_tables set_update_rows due_at_def by (elim UnE imageE CollectE conjE) simp_all
  have "w \<notin> fst ` set sent"
  proof
    assume "w \<in> fst ` set sent"
    then obtain x where x: "x \<in> set sent" "fst x = w" by blast
    obtain q where "q \<in> set (db_webhooks (removeTrigger w d))" "wh_active q" "fst x = wh_workflowId q"
      using route_forwards [OF assms x(1)] by blast
    then show False using hooks [of q] x(2) by metis
  qed
  moreover have "w \<notin> sc_workflowId ` set (due_schedules now (removeTrigger w d))"
    using due_schedules_set [of now "removeTrigger w d"] timers by blast
  ultimately show ?thesis by (simp add: removeTrigger_tables others)
qed

theorem removed_trigger_silent_witness:
  "snd (webhook_route toy_hmac (\<lambda>w b. Answer 202 None)
     \<lparr>wq_id = ''h'', wq_contentLength = None, wq_signature = None, wq_rawBody = None, wq_body = JObj []\<rparr>
     (removeTrigger ''w'' (empty_db\<lparr>db_webhooks := [\<lparr>wh_id = ''h'', wh_workflowId = ''w'', wh_secret = None,
        wh_active = True, wh_createdAt = 0\<rparr>]\<rparr>))) = []"
proof -
  let ?req = "\<lparr>wq_id = ''h'', wq_contentLength = None, wq_signature = None, wq_rawBody = None, wq_body = JObj []\<rparr>"
  let ?d = "empty_db\<lparr>db_webhooks := [\<lparr>wh_id = ''h'', wh_workflowId = ''w'', wh_secret = None, wh_active = True, wh_createdAt = 0\<rparr>]\<rparr>"
  obtain r sent where q: "webhook_route toy_hmac (\<lambda>w b. Answer 202 None) ?req (removeTrigger ''w'' ?d) = (r, sent)"
    by (metis surj_pair)
  have "w = ''w''" if "(w, b) \<in> set sent" for w b
    using route_forwards [OF q that] by (auto simp: removeTrigger_tables set_update_rows)
  then have "sent = []" using removed_trigger_silent [OF q, of 0] by (cases sent) force+
  then show ?thesis by (simp add: q)
qed

text \<open>
  A webhook trigger can never be configured: the statement fails whatever the database holds.
\<close>

theorem webhook_trigger_fails:
  "handleTriggerConfig webhookId newSecret now workflowId
     \<lparr>tc_type = ''webhook'', tc_scheduleId = scheduleId, tc_secret = secret\<rparr> d = Inl NoMatchingConstraint"
  by (simp add: handleTriggerConfig_def upsert_webhook_def webhook_unique_keys_def)



text \<open>
  No execution is ever completed by an event: the manager subscribes to channels on which nothing is
  published, so the messages of the bus for completed and failed tasks change nothing.
\<close>

theorem completion_never_checked:
  "m \<in> {publishTaskCompleted t taskStateId executionId, publishTaskFailed t taskStateId executionId} \<Longrightarrow>
     on_message now (manager_start new_bus) m d = d"
  by (auto simp: on_message_def manager_start_def publishTaskCompleted_def publishTaskFailed_def
      CHANNEL_TASK_COMPLETED_def CHANNEL_TASK_FAILED_def deliver_subscribe_other)

theorem completion_never_checked_witness:
  "on_message 3 (manager_start new_bus) (publishTaskCompleted 1 ''t'' ''e'') sample_db = sample_db"
  by (rule completion_never_checked [of _ 1 "''t''" "''e''"]) simp

text \<open>
  The detector never returns a task to the queue: whatever the state, a call writes nothing to the
  database and leaves every list of the server as it was, and when it gets its lock it ends with an
  error, the lock released.
\<close>

theorem orphans_never_requeued:
  assumes "redis_server R ls ks now" "detect claimed_at t R (d, s) = (r, (d', s'))"
  shows "d' = d \<and> ls s' = ls s \<and> (fst (acquire R ''orphan-detector'' ORPHAN_EXECUTOR DEFAULT_TTL_MS s) \<longrightarrow> r = Some UndefinedColumn)"
  using assms(2) redis_server.lock_lists [OF assms(1)]
  by (auto simp: detect_def orphan_statements_fail split: prod.splits if_splits) (metis snd_conv)+

theorem orphans_never_requeued_witness:
  "m_list (snd (snd (detect (\<lambda>_. None) 0 mem_redis (empty_db, enqueue mem_redis ''t'' empty_server)))) TASK_QUEUE_KEY = [''t''] \<and>
   fst (detect (\<lambda>_. None) 0 mem_redis (empty_db, enqueue mem_redis ''t'' empty_server)) = Some UndefinedColumn"
proof -
  obtain r d' s' where e: "detect (\<lambda>_. None) 0 mem_redis (empty_db, enqueue mem_redis ''t'' empty_server) = (r, (d', s'))"
    by (metis prod_cases3)
  have "fst (acquire mem_redis ''orphan-detector'' ORPHAN_EXECUTOR DEFAULT_TTL_MS (enqueue mem_redis ''t'' empty_server))"
    "m_list (enqueue mem_redis ''t'' empty_server) TASK_QUEUE_KEY = [''t'']" by code_simp+
  then show ?thesis using orphans_never_requeued [OF mem_both.redis_server_axioms e] by (simp add: e)
qed

end
