(* ===== verification/SlaMonitor.thy ===== *)
theory SlaMonitor
  imports WorkflowFacts Http JsNumber
begin

section \<open>Service level agreements and alerts (services/monitor-service/src)\<close>

text \<open>
  The repositories of alerts and SLA configurations, the class \<open>AlertManager\<close> and the class
  \<open>SLAChecker\<close>.  The state of a checker is the map from an execution to the severities it has been
  alerted with, beside the database; \<open>hostNow\<close> is the time of the process, \<open>now\<close> that of the database.
\<close>

subsection \<open>alert-repository.ts, alert-manager.ts\<close>

record NewAlert =
  na_executionId :: string
  na_workflowId :: string
  na_severity :: Severity
  na_message :: string
  na_elapsedMs :: int
  na_slaLimitMs :: int

text \<open>The row of an alert and its object are the same.\<close>

definition createAlert :: "(nat \<Rightarrow> string) \<Rightarrow> date \<Rightarrow> NewAlert \<Rightarrow> db \<Rightarrow> db_error + (Alert \<times> db)" where
  "createAlert gen now a d =
     bindE (int_column (Fin (of_int (na_elapsedMs a)))) (\<lambda>elapsed.
     bindE (int_column (Fin (of_int (na_slaLimitMs a)))) (\<lambda>limit.
       if na_executionId a \<notin> ex_id ` set (db_executions d) \<or> na_workflowId a \<notin> w_id ` set (db_workflows d)
       then Inl ForeignKeyViolation
       else
         (let row = \<lparr>al_id = next_id gen d, al_executionId = na_executionId a, al_workflowId = na_workflowId a,
                al_severity = na_severity a, al_message = na_message a, al_elapsedMs = elapsed,
                al_slaLimitMs = limit, al_resolved = False, al_resolvedAt = None, al_createdAt = now\<rparr>
          in Inr (row, d\<lparr>db_alerts := db_alerts d @ [row], db_drawn := Suc (db_drawn d)\<rparr>))))"

fun severity_rank :: "Severity \<Rightarrow> int" where
  "severity_rank Critical = 0"
| "severity_rank Warning = 1"

definition findRecent :: "date \<Rightarrow> int \<Rightarrow> int \<Rightarrow> db \<Rightarrow> db_error + Alert list" where
  "findRecent now hours limit d =
     slice_rows limit 0
       (sort_key (\<lambda>a. severity_rank (al_severity a))
         (newest_first al_createdAt (filter (\<lambda>a. now - 3600000 * hours \<le> al_createdAt a) (db_alerts d))))"

definition resolve :: "date \<Rightarrow> string \<Rightarrow> db \<Rightarrow> db" where
  "resolve now executionId d =
     d\<lparr>db_alerts := update_rows (\<lambda>a. al_executionId a = executionId \<and> \<not> al_resolved a)
         (\<lambda>a. a\<lparr>al_resolved := True, al_resolvedAt := Some now\<rparr>) (db_alerts d)\<rparr>"

definition findUnresolvedByExecution :: "string \<Rightarrow> db \<Rightarrow> Alert list" where
  "findUnresolvedByExecution executionId d =
     filter (\<lambda>a. al_executionId a = executionId \<and> \<not> al_resolved a) (db_alerts d)"

text \<open>The class \<open>AlertManager\<close> adds a line in the log of the process and nothing else.\<close>

definition manager_createAlert :: "(nat \<Rightarrow> string) \<Rightarrow> date \<Rightarrow> NewAlert \<Rightarrow> db \<Rightarrow> db_error + (Alert \<times> db)" where
  "manager_createAlert gen now a d = createAlert gen now a d"

definition resolveByExecution :: "date \<Rightarrow> string \<Rightarrow> db \<Rightarrow> db" where
  "resolveByExecution now executionId d = resolve now executionId d"

definition getRecentAlerts :: "date \<Rightarrow> int option \<Rightarrow> int option \<Rightarrow> db \<Rightarrow> db_error + Alert list" where
  "getRecentAlerts now hours limit d =
     findRecent now (case hours of Some n \<Rightarrow> n | None \<Rightarrow> 24) (case limit of Some n \<Rightarrow> n | None \<Rightarrow> 200) d"

definition getUnresolvedAlerts :: "string \<Rightarrow> db \<Rightarrow> Alert list" where
  "getUnresolvedAlerts executionId d = findUnresolvedByExecution executionId d"

lemma manager_createAlert_eq [simp]: "manager_createAlert = createAlert"
  by (simp add: manager_createAlert_def fun_eq_iff)

subsection \<open>sla-config-repository.ts\<close>

definition sla_create ::
    "(nat \<Rightarrow> string) \<Rightarrow> string \<Rightarrow> jsnum \<Rightarrow> jsnum \<Rightarrow> db \<Rightarrow> db_error + (SLAConfig \<times> db)" where
  "sla_create gen workflowId maxDurationMs warningThresholdPct d =
     bindE (int_column maxDurationMs) (\<lambda>maxMs.
     bindE (int_column warningThresholdPct) (\<lambda>pct.
       (let row = \<lparr>sla_id = next_id gen d, sla_workflowId = workflowId, sla_maxDurationMs = maxMs,
              sla_warningThresholdPct = pct\<rparr>
        in if \<not> sla_ok row then Inl CheckViolation
           else if workflowId \<notin> w_id ` set (db_workflows d) then Inl ForeignKeyViolation
           else Inr (row, d\<lparr>db_slas := db_slas d @ [row], db_drawn := Suc (db_drawn d)\<rparr>))))"

definition sla_findByWorkflowId :: "string \<Rightarrow> db \<Rightarrow> SLAConfig option" where
  "sla_findByWorkflowId workflowId d =
     (case filter (\<lambda>r. sla_workflowId r = workflowId) (db_slas d) of [] \<Rightarrow> None | row # _ \<Rightarrow> Some row)"

definition sla_findAll :: "db \<Rightarrow> SLAConfig list" where
  "sla_findAll d = db_slas d"

subsection \<open>sla-checker.ts\<close>

type_synonym alert_memory = "(string \<times> Severity list) list"

text \<open>\<open>maxDurationMs * (warningThresholdPct / 100)\<close>.\<close>

definition warning_at :: "SLAConfig \<Rightarrow> jsnum" where
  "warning_at sla = js_mul (Fin (of_int (sla_maxDurationMs sla))) (js_fin (of_int (sla_warningThresholdPct sla) / 100))"

definition warning_due :: "int \<Rightarrow> SLAConfig \<Rightarrow> bool" where
  "warning_due elapsedMs sla \<longleftrightarrow>
     warning_at sla \<noteq> NaN \<and> \<not> js_less (Fin (of_int elapsedMs)) (warning_at sla)"

definition critical_message :: "SLAConfig \<Rightarrow> int \<Rightarrow> string" where
  "critical_message sla elapsedMs =
     ''Execution exceeded SLA limit of '' @ show_nat (nat (sla_maxDurationMs sla)) @ ''ms (elapsed: ''
       @ show_nat (nat elapsedMs) @ ''ms)''"

definition warning_message :: "SLAConfig \<Rightarrow> int \<Rightarrow> string" where
  "warning_message sla elapsedMs =
     ''Execution approaching SLA limit ('' @ show_nat (nat (sla_warningThresholdPct sla))
       @ ''% threshold reached, elapsed: '' @ show_nat (nat elapsedMs) @ ''ms)''"

definition sla_map :: "SLAConfig list \<Rightarrow> (string \<times> SLAConfig) list" where
  "sla_map slaConfigs = fold (\<lambda>config. AList.update (sla_workflowId config) config) slaConfigs []"

definition monitored :: "(string \<times> SLAConfig) list \<Rightarrow> db \<Rightarrow> (string \<times> string \<times> date) list" where
  "monitored slaByWorkflow d =
     concat (map (\<lambda>r. case ex_startedAt r of
         None \<Rightarrow> []
       | Some startedAt \<Rightarrow>
           if ex_status r = ExRunning \<and> ex_workflowId r \<in> set (map fst slaByWorkflow)
           then [(ex_id r, ex_workflowId r, startedAt)] else []) (db_executions d))"

definition alerted_with :: "alert_memory \<Rightarrow> string \<Rightarrow> Severity list" where
  "alerted_with alerted executionId = (case map_of alerted executionId of None \<Rightarrow> [] | Some S \<Rightarrow> S)"

definition raise_alert ::
    "(nat \<Rightarrow> string) \<Rightarrow> date \<Rightarrow> NewAlert \<Rightarrow> alert_memory \<times> db \<Rightarrow> db_error + (alert_memory \<times> db)" where
  "raise_alert gen now a st =
     bindE (manager_createAlert gen now a (snd st)) (\<lambda>(row, d).
       Inr (AList.update (na_executionId a)
              (set_add (na_severity a) (alerted_with (fst st) (na_executionId a))) (fst st), d))"

definition check_row ::
    "(nat \<Rightarrow> string) \<Rightarrow> date \<Rightarrow> date \<Rightarrow> (string \<times> SLAConfig) list \<Rightarrow> string \<times> string \<times> date \<Rightarrow>
     alert_memory \<times> db \<Rightarrow> db_error + (alert_memory \<times> db)" where
  "check_row gen now hostNow slaByWorkflow row st =
     (let (executionId, workflowId, startedAt) = row; elapsedMs = hostNow - startedAt in
      case map_of slaByWorkflow workflowId of
        None \<Rightarrow> Inr st
      | Some sla \<Rightarrow>
          (let alertedSet = alerted_with (fst st) executionId in
           if sla_maxDurationMs sla \<le> elapsedMs \<and> Critical \<notin> set alertedSet
           then raise_alert gen now
             \<lparr>na_executionId = executionId, na_workflowId = workflowId, na_severity = Critical,
              na_message = critical_message sla elapsedMs, na_elapsedMs = elapsedMs,
              na_slaLimitMs = sla_maxDurationMs sla\<rparr> st
           else if warning_due elapsedMs sla \<and> Warning \<notin> set alertedSet
           then raise_alert gen now
             \<lparr>na_executionId = executionId, na_workflowId = workflowId, na_severity = Warning,
              na_message = warning_message sla elapsedMs, na_elapsedMs = elapsedMs,
              na_slaLimitMs = sla_maxDurationMs sla\<rparr> st
           else Inr st))"

text \<open>The loop: the first exception ends it and keeps what was done.\<close>

fun check_rows ::
    "('r \<Rightarrow> 's \<Rightarrow> db_error + 's) \<Rightarrow> 'r list \<Rightarrow> 's \<Rightarrow> db_error option \<times> 's" where
  "check_rows f [] st = (None, st)"
| "check_rows f (row # rows) st = (case f row st of Inl e \<Rightarrow> (Some e, st) | Inr st' \<Rightarrow> check_rows f rows st')"

definition cleanupCompletedExecutions :: "string list \<Rightarrow> alert_memory \<Rightarrow> alert_memory" where
  "cleanupCompletedExecutions activeIds alerted = filter (\<lambda>p. fst p \<in> set activeIds) alerted"

definition sla_check ::
    "(nat \<Rightarrow> string) \<Rightarrow> date \<Rightarrow> date \<Rightarrow> alert_memory \<times> db \<Rightarrow> db_error option \<times> (alert_memory \<times> db)" where
  "sla_check gen now hostNow st =
     (let slaConfigs = sla_findAll (snd st) in
      if slaConfigs = [] then (None, st)
      else
        (let slaByWorkflow = sla_map slaConfigs;
             rows = monitored slaByWorkflow (snd st)
         in case check_rows (check_row gen now hostNow slaByWorkflow) rows st of
              (Some e, st') \<Rightarrow> (Some e, st')
            | (None, (alerted, d)) \<Rightarrow> (None, (cleanupCompletedExecutions (map fst rows) alerted, d))))"

subsection \<open>The schema invariant\<close>

lemma createAlert_schema:
  assumes "inj gen" "schema_ok gen d" "createAlert gen now a d = Inr (r, d')"
  shows "schema_ok gen d'"
  by (rule schema_insert [OF assms(1,2)])
    (use assms(3) schema_checks [OF assms(2)] in
      \<open>auto simp: createAlert_def bindE_Inr Let_def table_defs split: if_splits\<close>)

lemma resolve_schema: "schema_ok gen d \<Longrightarrow> schema_ok gen (resolve now i d)"
  by (frule schema_checks, erule schema_update) (simp_all add: resolve_def table_defs map_update_rows)

lemma sla_create_schema:
  assumes "inj gen" "schema_ok gen d" "sla_create gen i a b d = Inr (r, d')"
  shows "schema_ok gen d'"
  by (rule schema_insert [OF assms(1,2)])
    (use assms(3) schema_checks [OF assms(2)] in
      \<open>auto simp: sla_create_def bindE_Inr Let_def table_defs split: if_splits\<close>)

lemma raise_alert_schema:
  assumes "inj gen" "schema_ok gen (snd st)" "raise_alert gen now a st = Inr st'"
  shows "schema_ok gen (snd st')"
  using assms(3) createAlert_schema [OF assms(1,2)] by (auto simp: raise_alert_def bindE_Inr)

lemma check_row_schema:
  assumes "inj gen" "schema_ok gen (snd st)" "check_row gen now hostNow m row st = Inr st'"
  shows "schema_ok gen (snd st')"
  using assms(2,3) raise_alert_schema [OF assms(1,2)]
  by (cases row) (auto simp: check_row_def Let_def split: option.splits if_splits)

lemma check_rows_invariant:
  assumes "check_rows f rows st = (r, st')" "P st"
    and "\<And>row st st'. row \<in> set rows \<Longrightarrow> P st \<Longrightarrow> f row st = Inr st' \<Longrightarrow> P st'"
  shows "P st'"
  using assms
proof (induction rows arbitrary: st)
  case (Cons row rows)
  show ?case
  proof (cases "f row st")
    case (Inl e)
    then show ?thesis using Cons.prems by simp
  next
    case (Inr st1)
    have "P st1" by (rule Cons.prems(3) [OF _ Cons.prems(2) Inr]) simp
    moreover have "check_rows f rows st1 = (r, st')" using Cons.prems(1) Inr by simp
    ultimately show ?thesis using Cons.IH [of st1] Cons.prems(3) by (meson list.set_intros(2))
  qed
qed simp

lemma sla_check_schema:
  assumes "inj gen" "schema_ok gen (snd st)"
  shows "schema_ok gen (snd (snd (sla_check gen now hostNow st)))"
proof -
  obtain r st' where c: "check_rows (check_row gen now hostNow (sla_map (sla_findAll (snd st))))
      (monitored (sla_map (sla_findAll (snd st))) (snd st)) st = (r, st')" by (metis surj_pair)
  have "schema_ok gen (snd st')"
    using check_rows_invariant [OF c, of "\<lambda>st. schema_ok gen (snd st)"] check_row_schema [OF assms(1)] assms(2) by blast
  then show ?thesis using assms(2) c by (auto simp: sla_check_def Let_def split: option.split prod.split)
qed

subsection \<open>What a check raises\<close>

lemma int_column_int: "int_column (Fin (of_int n)) = Inr m \<longleftrightarrow> m = n \<and> - 2147483648 \<le> n \<and> n \<le> 2147483647"
  by (auto simp: int_column_def)

lemma int_column_large: "2147483647 < n \<Longrightarrow> int_column (Fin (of_int n)) = Inl OutOfRange"
  by (simp add: int_column_def)

lemma raise_alert_effect:
  assumes "raise_alert gen now a (al, d) = Inr (al', d')"
  shows "\<exists>row. db_alerts d' = db_alerts d @ [row] \<and> db_executions d' = db_executions d \<and> db_slas d' = db_slas d \<and>
    al_executionId row = na_executionId a \<and> al_severity row = na_severity a \<and> al_elapsedMs row = na_elapsedMs a \<and>
    al' = AList.update (na_executionId a) (set_add (na_severity a) (alerted_with al (na_executionId a))) al"
  using assms
  by (auto simp: raise_alert_def createAlert_def bindE_Inr int_column_int Let_def split: if_splits)

definition alert_keys :: "alert_memory \<Rightarrow> (string \<times> Severity) set" where
  "alert_keys al = {(e, s). s \<in> set (alerted_with al e)}"

lemma alerted_with_update: "alerted_with (AList.update e S al) x = (if x = e then S else alerted_with al x)"
  by (simp add: alerted_with_def)

lemma alert_keys_update:
  "alert_keys (AList.update e (set_add s (alerted_with al e)) al) = insert (e, s) (alert_keys al)"
  by (auto simp: alert_keys_def alerted_with_update split: if_splits)

lemma sla_map_Some:
  assumes "map_of (sla_map configs) w = Some c"
  shows "c \<in> set configs \<and> sla_workflowId c = w"
proof -
  have "map_of (fold (\<lambda>config. AList.update (sla_workflowId config) config) configs m) w = Some c \<Longrightarrow>
      c \<in> set configs \<and> sla_workflowId c = w \<or> map_of m w = Some c" for m
  proof (induction configs arbitrary: m)
    case (Cons a configs)
    from Cons.IH [of "AList.update (sla_workflowId a) a m"] Cons.prems show ?case by (auto split: if_splits)
  qed simp
  from this [of "[]"] assms show ?thesis by (simp add: sla_map_def)
qed

lemma monitored_iff:
  "(e, w, t) \<in> set (monitored m d) \<longleftrightarrow>
     (\<exists>ex \<in> set (db_executions d). e = ex_id ex \<and> w = ex_workflowId ex \<and> ex_startedAt ex = Some t \<and>
        ex_status ex = ExRunning \<and> w \<in> fst ` set m)"
  by (auto simp: monitored_def split: option.splits if_splits) force

text \<open>Why an alert was raised by a check at one of the times \<open>ts\<close>.\<close>

definition justified :: "db \<Rightarrow> date set \<Rightarrow> Alert \<Rightarrow> bool" where
  "justified d ts a \<longleftrightarrow>
     (\<exists>ex \<in> set (db_executions d). \<exists>sla \<in> set (db_slas d). \<exists>hostNow \<in> ts. \<exists>t.
        al_executionId a = ex_id ex \<and> ex_status ex = ExRunning \<and> sla_workflowId sla = ex_workflowId ex \<and>
        ex_startedAt ex = Some t \<and> al_elapsedMs a = hostNow - t \<and>
        (if al_severity a = Critical then sla_maxDurationMs sla \<le> hostNow - t else warning_due (hostNow - t) sla))"

definition alerting :: "db \<Rightarrow> date set \<Rightarrow> alert_memory \<times> db \<Rightarrow> bool" where
  "alerting d0 ts st \<longleftrightarrow>
     (\<exists>new. db_alerts (snd st) = db_alerts d0 @ new \<and> db_executions (snd st) = db_executions d0 \<and>
        db_slas (snd st) = db_slas d0 \<and> distinct (map (\<lambda>a. (al_executionId a, al_severity a)) new) \<and>
        set (map (\<lambda>a. (al_executionId a, al_severity a)) new) = alert_keys (fst st) \<and>
        list_all (justified d0 ts) new \<and>
        fst ` set (fst st) \<subseteq> fst ` set (monitored (sla_map (db_slas d0)) d0))"

lemma alerting_raise:
  assumes "alerting d0 ts (al, d)" "raise_alert gen now a (al, d) = Inr (al', d')"
    and "na_severity a \<notin> set (alerted_with al (na_executionId a))"
    and "na_executionId a \<in> fst ` set (monitored (sla_map (db_slas d0)) d0)"
    and "\<And>row. al_executionId row = na_executionId a \<Longrightarrow> al_severity row = na_severity a \<Longrightarrow>
      al_elapsedMs row = na_elapsedMs a \<Longrightarrow> justified d0 ts row"
  shows "alerting d0 ts (al', d')"
proof -
  obtain row where row: "db_alerts d' = db_alerts d @ [row]" "db_executions d' = db_executions d" "db_slas d' = db_slas d"
      "al_executionId row = na_executionId a" "al_severity row = na_severity a" "al_elapsedMs row = na_elapsedMs a"
      "al' = AList.update (na_executionId a) (set_add (na_severity a) (alerted_with al (na_executionId a))) al"
    using raise_alert_effect [OF assms(2)] by blast
  obtain new where new: "db_alerts d = db_alerts d0 @ new" "db_executions d = db_executions d0" "db_slas d = db_slas d0"
      "distinct (map (\<lambda>a. (al_executionId a, al_severity a)) new)"
      "set (map (\<lambda>a. (al_executionId a, al_severity a)) new) = alert_keys al" "list_all (justified d0 ts) new"
      "fst ` set al \<subseteq> fst ` set (monitored (sla_map (db_slas d0)) d0)"
    using assms(1) by (auto simp: alerting_def)
  have fresh: "(na_executionId a, na_severity a) \<notin> alert_keys al" using assms(3) by (simp add: alert_keys_def)
  have keys: "alert_keys al' = insert (na_executionId a, na_severity a) (alert_keys al)"
    by (simp add: row(7) alert_keys_update)
  have dom: "fst ` set al' \<subseteq> fst ` set (monitored (sla_map (db_slas d0)) d0)"
    using new(7) assms(4) by (simp add: row(7) dom_update)
  have just: "justified d0 ts row" using assms(5) row(4-6) by blast
  show ?thesis unfolding alerting_def fst_conv snd_conv
    by (rule exI [of _ "new @ [row]"])
      (use row(1-5) new(1-6) fresh keys dom just in \<open>auto simp flip: set_map\<close>)
qed

lemma alerting_row:
  assumes "alerting d0 ts st" "check_row gen now hostNow (sla_map (db_slas d0)) row st = Inr st'"
    and "row \<in> set (monitored (sla_map (db_slas d0)) d0)" "hostNow \<in> ts"
  shows "alerting d0 ts st'"
proof -
  obtain e w t where r: "row = (e, w, t)" by (cases row)
  obtain al d al' d' where st: "st = (al, d)" "st' = (al', d')" by (cases st, cases st')
  from assms(3) obtain ex where ex: "ex \<in> set (db_executions d0)" "e = ex_id ex" "w = ex_workflowId ex"
      "ex_startedAt ex = Some t" "ex_status ex = ExRunning"
    unfolding r monitored_iff by blast
  have mem: "e \<in> fst ` set (monitored (sla_map (db_slas d0)) d0)" using assms(3) r by force
  show ?thesis
  proof (cases "map_of (sla_map (db_slas d0)) w")
    case None
    then show ?thesis using assms(1,2) by (simp add: check_row_def r)
  next
    case (Some sla)
    note sla = sla_map_Some [OF Some]
    have just: "justified d0 ts a" if "al_executionId a = e" "al_elapsedMs a = hostNow - t"
      "if al_severity a = Critical then sla_maxDurationMs sla \<le> hostNow - t else warning_due (hostNow - t) sla" for a
      unfolding justified_def using that ex sla assms(4) by blast
    show ?thesis
    proof (cases "sla_maxDurationMs sla \<le> hostNow - t \<and> Critical \<notin> set (alerted_with al e)")
      case True
      then have "raise_alert gen now
         \<lparr>na_executionId = e, na_workflowId = w, na_severity = Critical, na_message = critical_message sla (hostNow - t),
          na_elapsedMs = hostNow - t, na_slaLimitMs = sla_maxDurationMs sla\<rparr> (al, d) = Inr (al', d')"
        using assms(2) Some by (simp add: check_row_def r st Let_def)
      from alerting_raise [OF assms(1) [unfolded st] this] True mem just show ?thesis by (simp add: st)
    next
      case False
      show ?thesis
      proof (cases "warning_due (hostNow - t) sla \<and> Warning \<notin> set (alerted_with al e)")
        case True
        then have "raise_alert gen now
           \<lparr>na_executionId = e, na_workflowId = w, na_severity = Warning, na_message = warning_message sla (hostNow - t),
            na_elapsedMs = hostNow - t, na_slaLimitMs = sla_maxDurationMs sla\<rparr> (al, d) = Inr (al', d')"
          using assms(2) Some False by (auto simp: check_row_def r st Let_def)
        from alerting_raise [OF assms(1) [unfolded st] this] True mem just show ?thesis by (simp add: st)
      next
        case no: False
        then have "st' = st" using assms(2) Some False by (auto simp: check_row_def r st Let_def)
        then show ?thesis using assms(1) by simp
      qed
    qed
  qed
qed

lemma alerting_check:
  assumes "alerting d0 ts st" "hostNow \<in> ts"
  shows "alerting d0 ts (snd (sla_check gen now hostNow st))"
proof -
  have same: "db_executions (snd st) = db_executions d0" "db_slas (snd st) = db_slas d0"
    using assms(1) by (auto simp: alerting_def)
  let ?m = "sla_map (db_slas d0)"
  let ?rows = "monitored ?m d0"
  have rows: "monitored ?m (snd st) = ?rows" by (simp add: monitored_def same)
  obtain r al d where c: "check_rows (check_row gen now hostNow ?m) ?rows st = (r, (al, d))" by (metis prod_cases3)
  have ok: "alerting d0 ts (al, d)"
    using check_rows_invariant [OF c, of "alerting d0 ts"] alerting_row [OF _ _ _ assms(2)] assms(1) by blast
  then have "fst ` set al \<subseteq> fst ` set ?rows" by (auto simp: alerting_def)
  then have "cleanupCompletedExecutions (map fst ?rows) al = al"
    by (auto simp: cleanupCompletedExecutions_def intro!: filter_True)
  then show ?thesis using assms(1) ok c
    by (cases r) (auto simp: sla_check_def Let_def sla_findAll_def same rows)
qed

definition sla_polls :: "(nat \<Rightarrow> string) \<Rightarrow> (date \<times> date) list \<Rightarrow> alert_memory \<times> db \<Rightarrow> alert_memory \<times> db" where
  "sla_polls gen polls st = fold (\<lambda>(now, hostNow) st. snd (sla_check gen now hostNow st)) polls st"

lemma alerting_polls:
  "alerting d0 ts st \<Longrightarrow> snd ` set polls \<subseteq> ts \<Longrightarrow> alerting d0 ts (sla_polls gen polls st)"
proof (induction polls arbitrary: st)
  case (Cons p polls)
  have "alerting d0 ts (snd (sla_check gen (fst p) (snd p) st))"
    using alerting_check [OF Cons.prems(1)] Cons.prems(2) by simp
  then show ?case using Cons.IH Cons.prems(2) by (simp add: sla_polls_def case_prod_unfold)
qed (simp add: sla_polls_def)

lemma alerting_new: "alerting d ts ([], d)"
  by (simp add: alerting_def alert_keys_def alerted_with_def)

text \<open>A row whose limit is exceeded is alerted with \<open>Critical\<close> when the loop has passed it, and no later row
  takes that away.\<close>

lemma alerted_raise:
  assumes "raise_alert gen now a (al, d) = Inr (al', d')" "s \<in> set (alerted_with al e)"
  shows "s \<in> set (alerted_with al' e)"
  using raise_alert_effect [OF assms(1)] assms(2) by (auto simp: alerted_with_update)

lemma alerted_row:
  assumes "check_row gen now hostNow m row st = Inr st'" "s \<in> set (alerted_with (fst st) e)"
  shows "s \<in> set (alerted_with (fst st') e)"
  using assms alerted_raise [of gen now _ "fst st" "snd st" "fst st'" "snd st'" s e]
  by (cases row) (auto simp: check_row_def Let_def split: option.splits if_splits)

lemma critical_row:
  assumes "check_row gen now hostNow m (e, w, t) st = Inr st'" "map_of m w = Some sla" "sla_maxDurationMs sla \<le> hostNow - t"
  shows "Critical \<in> set (alerted_with (fst st') e)"
proof (cases "Critical \<in> set (alerted_with (fst st) e)")
  case True
  then show ?thesis using alerted_row [OF assms(1)] by blast
next
  case False
  then have "raise_alert gen now \<lparr>na_executionId = e, na_workflowId = w, na_severity = Critical,
      na_message = critical_message sla (hostNow - t), na_elapsedMs = hostNow - t,
      na_slaLimitMs = sla_maxDurationMs sla\<rparr> (fst st, snd st) = Inr (fst st', snd st')"
    using assms by (simp add: check_row_def Let_def)
  from raise_alert_effect [OF this] show ?thesis by (auto simp: alerted_with_update)
qed

lemma check_rows_critical:
  assumes "check_rows (check_row gen now hostNow m) rows st = (None, st')" "(e, w, t) \<in> set rows"
    "map_of m w = Some sla" "sla_maxDurationMs sla \<le> hostNow - t"
  shows "Critical \<in> set (alerted_with (fst st') e)"
  using assms(1,2)
proof (induction rows arbitrary: st)
  case (Cons row rows)
  obtain st1 where s: "check_row gen now hostNow m row st = Inr st1"
      "check_rows (check_row gen now hostNow m) rows st1 = (None, st')"
    using Cons.prems(1) by (cases "check_row gen now hostNow m row st") auto
  show ?case
  proof (cases "(e, w, t) = row")
    case True
    then have "Critical \<in> set (alerted_with (fst st1) e)" using critical_row [of gen now hostNow m e w t st st1] s(1) assms(3,4) by simp
    then show ?thesis using check_rows_invariant [OF s(2), of "\<lambda>st. Critical \<in> set (alerted_with (fst st) e)"] alerted_row by blast
  next
    case False
    then show ?thesis using Cons.IH [OF s(2)] Cons.prems(2) by auto
  qed
qed simp

lemma cleanup_keeps: "e \<in> set ids \<Longrightarrow> alerted_with (cleanupCompletedExecutions ids al) e = alerted_with al e"
  by (induction al) (auto simp: cleanupCompletedExecutions_def alerted_with_def)

text \<open>The warning threshold is at most the limit, rounding included.\<close>

lemma warning_at_bound:
  assumes "sla_ok sla" "sla_maxDurationMs sla \<le> 2147483647"
  shows "\<exists>x. warning_at sla = Fin x \<and> x \<le> of_int (sla_maxDurationMs sla)"
proof -
  let ?p = "of_int (sla_warningThresholdPct sla) / 100 :: rat"
  let ?m = "sla_maxDurationMs sla"
  have sla: "1000 \<le> ?m" "0 < sla_warningThresholdPct sla" "sla_warningThresholdPct sla < 100"
    using assms(1) by (simp_all add: sla_ok_def)
  have big: "(2147483647::rat) \<le> max_double" by (simp add: max_double_def)
  have p: "0 \<le> ?p" "?p \<le> of_int 1" using sla by simp_all
  have "fl ?p \<le> 1" using dbl.rnd_le_int [of 1 ?p] p(2) by simp
  moreover from this have "js_fin ?p = Fin (fl ?p)" using js_fin_cases [OF p(1)] big by auto
  moreover have "0 \<le> fl ?p" using fl_nonneg [OF p(1)] .
  ultimately have q: "0 \<le> of_int ?m * fl ?p" "of_int ?m * fl ?p \<le> of_int ?m"
      "warning_at sla = js_fin (of_int ?m * fl ?p)"
    using sla by (simp_all add: warning_at_def js_mul_def mult_left_le)
  have le: "fl (of_int ?m * fl ?p) \<le> of_int ?m" using dbl.rnd_le_int [OF _ q(2)] assms(2) sla by simp
  also have "(of_int ?m :: rat) \<le> max_double"
    using assms(2) big order_trans [of "of_int ?m :: rat" 2147483647 max_double] by simp
  finally show ?thesis using js_fin_cases [OF q(1)] q(3) le by auto
qed

lemma warning_due_limit:
  "sla_ok sla \<Longrightarrow> sla_maxDurationMs sla \<le> 2147483647 \<Longrightarrow> sla_maxDurationMs sla \<le> elapsed \<Longrightarrow> warning_due elapsed sla"
  using warning_at_bound [of sla] by (auto simp: warning_due_def)

text \<open>An elapsed time that does not fit the column.\<close>

lemma raise_alert_overflow:
  "2147483647 < na_elapsedMs a \<Longrightarrow> raise_alert gen now a st = Inl OutOfRange"
  by (simp add: raise_alert_def createAlert_def int_column_large)

lemma check_row_overflow:
  assumes "map_of m w = Some sla" "sla_maxDurationMs sla \<le> 2147483647" "2147483647 < hostNow - t"
    "Critical \<notin> set (alerted_with (fst st) e)"
  shows "check_row gen now hostNow m (e, w, t) st = Inl OutOfRange"
  using assms by (simp add: check_row_def Let_def raise_alert_overflow)

subsection \<open>Properties\<close>

text \<open>
  C16: A checker that starts with an empty memory raises each alert once: over any sequence of checks of the
  same executions, no execution gets two alerts of one severity, and every alert is justified: its
  execution is running under an SLA of its workflow, and its elapsed time at one of the checks has
  reached the limit (critical) or the warning threshold (warning).
\<close>

theorem sla_alerts_once:
  assumes "sla_polls gen polls ([], d) = (al, d')"
  shows "\<exists>new. db_alerts d' = db_alerts d @ new \<and>
    distinct (map (\<lambda>a. (al_executionId a, al_severity a)) new) \<and> list_all (justified d (snd ` set polls)) new"
  using alerting_polls [OF alerting_new [of d "snd ` set polls"], of polls gen] assms by (auto simp: alerting_def)

definition sla_row :: SLAConfig where
  "sla_row = \<lparr>sla_id = sample_gen 1, sla_workflowId = sample_gen 0, sla_maxDurationMs = 1000, sla_warningThresholdPct = 80\<rparr>"

definition sla_db :: "date list \<Rightarrow> db" where
  "sla_db starts = empty_db\<lparr>
     db_workflows := [\<lparr>w_id = sample_gen 0, w_name = ''w'', w_description = None, w_triggerConfig = JObj [],
       w_createdAt = 0, w_updatedAt = 0\<rparr>],
     db_executions := map (\<lambda>(i, t). \<lparr>ex_id = sample_gen (2 + i), ex_workflowId = sample_gen 0, ex_status = ExRunning,
       ex_input = None, ex_startedAt = Some t, ex_completedAt = None, ex_createdAt = t\<rparr>) (zip [0 ..< length starts] starts),
     db_slas := [sla_row], db_drawn := 2 + length starts\<rparr>"

theorem sla_alerts_once_witness:
  "\<exists>al d'. sla_polls sample_gen [(1000, 1000)] ([], sla_db [0, -5]) = (al, d') \<and>
     distinct (map (\<lambda>a. (al_executionId a, al_severity a)) (db_alerts d')) \<and>
     map al_severity (db_alerts d') = [Critical, Critical]"
proof -
  obtain al d' where e: "sla_polls sample_gen [(1000, 1000)] ([], sla_db [0, -5]) = (al, d')"
    by (metis surj_pair)
  have "case sla_polls sample_gen [(1000, 1000)] ([], sla_db [0, -5]) of
      (al, d') \<Rightarrow> map al_severity (db_alerts d') = [Critical, Critical]" by code_simp
  moreover have "db_alerts (sla_db [0, -5]) = []" by (simp add: sla_db_def empty_db_def)
  ultimately show ?thesis using sla_alerts_once [OF e] by (simp add: e)
qed



text \<open>
  A breach is followed by a warning: an execution alerted as critical without a warning before gets, at the
  next check, the warning that it is approaching the limit.
\<close>

theorem sla_warning_after_critical:
  assumes "map_of m w = Some sla" "sla_ok sla" "sla_maxDurationMs sla \<le> hostNow - t" "hostNow - t \<le> 2147483647"
    and "Critical \<in> set (alerted_with al e)" "Warning \<notin> set (alerted_with al e)"
    and "e \<in> ex_id ` set (db_executions d)" "w \<in> w_id ` set (db_workflows d)"
  shows "\<exists>al' d' a. check_row gen now hostNow m (e, w, t) (al, d) = Inr (al', d') \<and>
    db_alerts d' = db_alerts d @ [a] \<and> al_executionId a = e \<and> al_severity a = Warning"
proof -
  have "sla_maxDurationMs sla \<le> 2147483647" using assms(3,4) by simp
  then have due: "warning_due (hostNow - t) sla" using warning_due_limit assms(2,3) by blast
  have ge: "1000 \<le> sla_maxDurationMs sla" using assms(2) by (simp add: sla_ok_def)
  have col: "int_column (Fin (of_int (hostNow - t))) = Inr (hostNow - t)"
    "int_column (Fin (of_int (sla_maxDurationMs sla))) = Inr (sla_maxDurationMs sla)"
    unfolding int_column_int using assms(3,4) ge by linarith+
  show ?thesis
    using assms(1,5-8) due by (simp add: check_row_def Let_def raise_alert_def createAlert_def col del: of_int_diff)
qed

theorem sla_warning_after_critical_witness:
  "\<exists>al' d' a. check_row sample_gen 1000 1000 [(sample_gen 0, sla_row)] (sample_gen 2, sample_gen 0, 0)
     ([(sample_gen 2, [Critical])], sla_db [0]) = Inr (al', d') \<and>
     db_alerts d' = db_alerts (sla_db [0]) @ [a] \<and> al_executionId a = sample_gen 2 \<and> al_severity a = Warning"
  by (rule sla_warning_after_critical [where sla = sla_row])
    (simp_all add: sla_row_def sla_ok_def alerted_with_def sla_db_def numeral_2_eq_2)

text \<open>
  One execution can silence the checker: while the first execution of the loop has been running longer than
  2147483647 ms without a critical alert in memory, the insertion of its alert fails, every check ends with
  the error, and no execution is ever alerted.
\<close>

theorem sla_check_blocked:
  assumes "monitored (sla_map (db_slas d)) d = (e, w, t) # rows" "map_of (sla_map (db_slas d)) w = Some sla"
    and "sla_maxDurationMs sla \<le> 2147483647" "Critical \<notin> set (alerted_with al e)"
    and "\<forall>(now, hostNow) \<in> set polls. 2147483647 < hostNow - t"
  shows "sla_polls gen polls (al, d) = (al, d)"
  using assms(5)
proof (induction polls)
  case (Cons p polls)
  have "db_slas d \<noteq> []" using assms(2) by (auto simp: sla_map_def)
  moreover have "check_row gen (fst p) (snd p) (sla_map (db_slas d)) (e, w, t) (al, d) = Inl OutOfRange"
    using Cons.prems by (intro check_row_overflow [OF assms(2,3)]) (use assms(4) in auto)
  ultimately have "sla_check gen (fst p) (snd p) (al, d) = (Some OutOfRange, (al, d))"
    by (simp add: sla_check_def sla_findAll_def Let_def assms(1))
  then show ?case using Cons by (simp add: sla_polls_def case_prod_unfold)
qed (simp add: sla_polls_def)

theorem sla_check_blocked_witness:
  "db_alerts (snd (sla_polls sample_gen [(3000000000, 3000000000), (3000005000, 3000005000)] ([], sla_db [0, 2999990000]))) = []"
proof -
  let ?d = "sla_db [0, 2999990000]"
  have m: "sla_map (db_slas ?d) = [(sample_gen 0, sla_row)]" by (simp add: sla_map_def sla_db_def sla_row_def)
  have "monitored (sla_map (db_slas ?d)) ?d =
      (sample_gen 2, sample_gen 0, 0) # [(sample_gen 3, sample_gen 0, 2999990000)]"
    unfolding m by (simp add: monitored_def sla_db_def numeral_2_eq_2 numeral_3_eq_3)
  from sla_check_blocked [OF this, of sla_row "[]" "[(3000000000, 3000000000), (3000005000, 3000005000)]" sample_gen]
  have "sla_polls sample_gen [(3000000000, 3000000000), (3000005000, 3000005000)] ([], ?d) = ([], ?d)"
    by (simp add: m alerted_with_def) (simp add: sla_row_def)
  then show ?thesis by (simp add: sla_db_def empty_db_def)
qed

end
