(* ===== verification/JsMath.thy ===== *)
theory JsMath
  imports JsNumber
begin

section \<open>Division and rounding of JavaScript numbers\<close>

text \<open>
  \<open>a / b\<close>, \<open>Math.round\<close> and the percentage with two decimals that the monitor computes in two places.
  \<open>Math.round\<close> rounds halves up.
\<close>

definition js_div :: "jsnum \<Rightarrow> jsnum \<Rightarrow> jsnum" where
  "js_div a b = (case (a, b) of
       (Fin x, Fin y) \<Rightarrow>
         if y = 0 then (if 0 < x then PosInf else if x < 0 then NegInf else NaN) else js_fin (x / y)
     | (NaN, _) \<Rightarrow> NaN
     | (_, NaN) \<Rightarrow> NaN
     | (Fin _, _) \<Rightarrow> Fin 0
     | (_, Fin y) \<Rightarrow> if (0 \<le> y) = (a = PosInf) then PosInf else NegInf
     | _ \<Rightarrow> NaN)"

definition js_round :: "jsnum \<Rightarrow> jsnum" where
  "js_round a = (case a of Fin x \<Rightarrow> Fin (of_int \<lfloor>x + 1 / 2\<rfloor>) | _ \<Rightarrow> a)"

text \<open>\<open>Math.round((a / b) * 100 * 100) / 100\<close>.\<close>

definition percentage :: "jsnum \<Rightarrow> jsnum \<Rightarrow> jsnum" where
  "percentage a b = js_div (js_round (js_mul (js_mul (js_div a b) (Fin 100)) (Fin 100))) (Fin 100)"

lemma js_fin_small:
  assumes "0 \<le> x" "x \<le> of_int n" "n \<le> 2 ^ 53"
  shows "js_fin x = Fin (fl x)" "0 \<le> fl x" "fl x \<le> of_int n"
proof -
  have "0 \<le> n" using assms(1,2) by (meson of_int_0_le_iff order_trans)
  then show le: "fl x \<le> of_int n" using dbl.rnd_le_int [OF _ assms(2)] assms(3) by simp
  show "0 \<le> fl x" using fl_nonneg [OF assms(1)] .
  have "(of_int n :: rat) \<le> of_int (2 ^ 53)" using assms(3) by (simp only: of_int_le_iff)
  also have "\<dots> \<le> max_double" by (simp add: max_double_def)
  finally show "js_fin x = Fin (fl x)" using js_fin_cases [OF assms(1)] le by auto
qed

lemma floor_half_bounds: "0 \<le> (x::rat) \<Longrightarrow> x \<le> of_int n \<Longrightarrow> 0 \<le> \<lfloor>x + 1 / 2\<rfloor> \<and> \<lfloor>x + 1 / 2\<rfloor> \<le> n"
  by (auto simp: le_floor_iff floor_le_iff)

lemma percentage_bounds:
  assumes "0 \<le> c" "c \<le> t" "0 < t"
  shows "\<exists>x. percentage (Fin (of_int c)) (Fin (of_int t)) = Fin x \<and> 0 \<le> x \<and> x \<le> 100"
proof -
  have r: "0 \<le> (of_int c / of_int t :: rat)" "(of_int c / of_int t :: rat) \<le> of_int 1" using assms by simp_all
  define q where "q = fl (of_int c / of_int t)"
  have q: "js_fin (of_int c / of_int t) = Fin q" "0 \<le> q" "q \<le> 1"
    using js_fin_small [OF r] by (simp_all add: q_def)
  define h where "h = fl (q * 100)"
  have h: "js_fin (q * 100) = Fin h" "0 \<le> h" "h \<le> 100"
    using js_fin_small [of "q * 100" 100] q(2,3) by (simp_all add: h_def)
  define k where "k = fl (h * 100)"
  have k: "js_fin (h * 100) = Fin k" "0 \<le> k" "k \<le> 10000"
    using js_fin_small [of "h * 100" 10000] h(2,3) by (simp_all add: k_def)
  have n: "0 \<le> \<lfloor>k + 1 / 2\<rfloor>" "\<lfloor>k + 1 / 2\<rfloor> \<le> 10000" using floor_half_bounds [of k 10000] k(2,3) by simp_all
  then have "0 \<le> (of_int \<lfloor>k + 1 / 2\<rfloor> / 100 :: rat)" "(of_int \<lfloor>k + 1 / 2\<rfloor> / 100 :: rat) \<le> of_int 100" by simp_all
  from js_fin_small [OF this]
  have "percentage (Fin (of_int c)) (Fin (of_int t)) = Fin (fl (of_int \<lfloor>k + 1 / 2\<rfloor> / 100))"
    "0 \<le> fl (of_int \<lfloor>k + 1 / 2\<rfloor> / 100)" "fl (of_int \<lfloor>k + 1 / 2\<rfloor> / 100) \<le> 100"
    using assms(3) q(1) h(1) k(1) by (simp_all add: percentage_def js_div_def js_mul_def js_round_def)
  then show ?thesis by blast
qed

lemma fl_nat [simp]: "fl 1 = 1" "fl 100 = 100" "fl 10000 = 10000"
  using dbl.rnd_int [of 1] dbl.rnd_int [of 100] dbl.rnd_int [of 10000] by simp_all

lemma js_fin_nat [simp]: "js_fin 0 = Fin 0" "js_fin 1 = Fin 1" "js_fin 100 = Fin 100" "js_fin 10000 = Fin 10000"
  using js_fin_small(1) [of 0 1] js_fin_small(1) [of 1 1] js_fin_small(1) [of 100 100] js_fin_small(1) [of 10000 10000]
  by simp_all

lemma floor_halves [simp]: "\<lfloor>20001 / 2 :: rat\<rfloor> = 10000" "\<lfloor>1 / 2 :: rat\<rfloor> = 0"
  by (simp_all add: floor_eq_iff)

lemma percentage_all: "0 < t \<Longrightarrow> percentage (Fin (of_int t)) (Fin (of_int t)) = Fin 100"
  by (simp add: percentage_def js_div_def js_mul_def js_round_def)

lemma percentage_none: "0 < t \<Longrightarrow> percentage (Fin 0) (Fin (of_int t)) = Fin 0"
  by (simp add: percentage_def js_div_def js_mul_def js_round_def)

end
