(* ===== verification/Heartbeats.thy ===== *)
theory Heartbeats
  imports JsMath JsString Calendar
begin

section \<open>Heartbeats (packages/shared/src/redis/heartbeat-store.ts, heartbeat-emitter.ts, executor-health-tracker.ts)\<close>

text \<open>
  An executor writes a hash under \<open>heartbeat:<id>\<close> that expires after 90 seconds; the monitor scans for
  these hashes.  The server is a parameter, the record \<open>hash_server\<close>; the laws of the locale
  \<open>hash_store\<close> are the documented behaviour of \<open>HSET\<close> (fields are merged, the expiry stays),
  \<open>EXPIRE\<close>, \<open>HGETALL\<close> and \<open>SCAN\<close>: a full iteration ends and returns every key that is there,
  in some order and maybe twice.  The state does not change during an iteration.
\<close>

type_synonym hash = "(string \<times> string) list"

record 's hash_server =
  h_hset :: "string \<Rightarrow> hash \<Rightarrow> 's \<Rightarrow> 's"
  h_expire :: "string \<Rightarrow> int \<Rightarrow> 's \<Rightarrow> 's"
  h_hgetall :: "string \<Rightarrow> 's \<Rightarrow> hash"
  h_scan :: "string \<Rightarrow> string \<Rightarrow> 's \<Rightarrow> string \<times> string list"
  h_tick :: "int \<Rightarrow> 's \<Rightarrow> 's"

definition live_hash :: "(string \<Rightarrow> (hash \<times> int option) option) \<Rightarrow> int \<Rightarrow> string \<Rightarrow> hash" where
  "live_hash hs t k = (case hs k of
       None \<Rightarrow> []
     | Some (fs, None) \<Rightarrow> fs
     | Some (fs, Some e) \<Rightarrow> if t < e then fs else [])"

definition live_expiry :: "(string \<Rightarrow> (hash \<times> int option) option) \<Rightarrow> int \<Rightarrow> string \<Rightarrow> int option" where
  "live_expiry hs t k = (case hs k of
       None \<Rightarrow> None | Some (_, None) \<Rightarrow> None | Some (_, Some e) \<Rightarrow> if t < e then Some e else None)"

text \<open>The pages of one iteration from a cursor on.\<close>

inductive scan_run :: "'s hash_server \<Rightarrow> string \<Rightarrow> 's \<Rightarrow> string \<Rightarrow> string list list \<Rightarrow> bool"
  for H :: "'s hash_server" and p :: string and s :: 's where
  scan_last: "h_scan H cursor p s = (''0'', ks) \<Longrightarrow> scan_run H p s cursor [ks]"
| scan_more: "h_scan H cursor p s = (c, ks) \<Longrightarrow> c \<noteq> ''0'' \<Longrightarrow> scan_run H p s c ps \<Longrightarrow>
    scan_run H p s cursor (ks # ps)"

locale hash_store =
  fixes H :: "'s hash_server" and hashes :: "'s \<Rightarrow> string \<Rightarrow> (hash \<times> int option) option" and htime :: "'s \<Rightarrow> int"
  assumes hset_hash: "hashes (h_hset H k fs s) =
      (hashes s)(k \<mapsto> (AList.updates (map fst fs) (map snd fs) (live_hash (hashes s) (htime s) k),
        live_expiry (hashes s) (htime s) k))"
    and hset_time: "htime (h_hset H k fs s) = htime s"
    and expire_hash: "live_hash (hashes s) (htime s) k \<noteq> [] \<Longrightarrow>
      hashes (h_expire H k n s) = (hashes s)(k \<mapsto> (live_hash (hashes s) (htime s) k, Some (htime s + 1000 * n)))"
    and expire_time: "htime (h_expire H k n s) = htime s"
    and hgetall_hash: "h_hgetall H k s = live_hash (hashes s) (htime s) k"
    and tick_hash: "hashes (h_tick H n s) = hashes s" and tick_time: "htime (h_tick H n s) = htime s + n"
    and scan_all: "\<exists>ps. scan_run H p s ''0'' ps \<and> (\<forall>k \<in> set (concat ps). take (length p) k = p) \<and>
      {k. take (length p) k = p \<and> live_hash (hashes s) (htime s) k \<noteq> []} \<subseteq> set (concat ps)"

subsection \<open>heartbeat-store.ts\<close>

definition HEARTBEAT_PREFIX :: string where "HEARTBEAT_PREFIX = ''heartbeat:''"
definition HEARTBEAT_TTL_SECONDS :: int where "HEARTBEAT_TTL_SECONDS = 90"

record ExecutorHeartbeat =
  hb_executorId :: "string option"
  hb_timestamp :: "int option"
  hb_currentTaskCount :: jsnum
  hb_maxCapacity :: jsnum

definition heartbeat_key :: "string \<Rightarrow> string" where
  "heartbeat_key executorId = HEARTBEAT_PREFIX @ executorId"

definition heartbeat_hash :: "nat \<Rightarrow> string \<Rightarrow> nat \<Rightarrow> nat \<Rightarrow> hash" where
  "heartbeat_hash now executorId taskCount maxCapacity =
     [(''executorId'', executorId), (''timestamp'', show_nat now), (''currentTaskCount'', show_nat taskCount),
      (''maxCapacity'', show_nat maxCapacity)]"

definition send_heartbeat :: "'s hash_server \<Rightarrow> nat \<Rightarrow> string \<Rightarrow> nat \<Rightarrow> nat \<Rightarrow> 's \<Rightarrow> 's" where
  "send_heartbeat H now executorId taskCount maxCapacity s =
     h_expire H (heartbeat_key executorId) HEARTBEAT_TTL_SECONDS
       (h_hset H (heartbeat_key executorId) (heartbeat_hash now executorId taskCount maxCapacity) s)"

text \<open>\<open>Number(data.f)\<close>, and \<open>new Date(n).getTime()\<close> for a number.\<close>

definition field_number :: "hash \<Rightarrow> string \<Rightarrow> jsnum" where
  "field_number fs f = (case map_of fs f of None \<Rightarrow> NaN | Some v \<Rightarrow> js_Number v)"

definition date_value :: "jsnum \<Rightarrow> int option" where
  "date_value n = (case n of
       Fin r \<Rightarrow> if \<bar>r\<bar> \<le> of_int max_time then Some (if 0 \<le> r then \<lfloor>r\<rfloor> else \<lceil>r\<rceil>) else None
     | _ \<Rightarrow> None)"

definition parseHeartbeat :: "hash \<Rightarrow> ExecutorHeartbeat" where
  "parseHeartbeat fs =
     \<lparr>hb_executorId = map_of fs ''executorId'', hb_timestamp = date_value (field_number fs ''timestamp''),
      hb_currentTaskCount = field_number fs ''currentTaskCount'', hb_maxCapacity = field_number fs ''maxCapacity''\<rparr>"

definition heartbeat_get :: "'s hash_server \<Rightarrow> string \<Rightarrow> 's \<Rightarrow> ExecutorHeartbeat option" where
  "heartbeat_get H executorId s =
     (let fs = h_hgetall H (heartbeat_key executorId) s in if fs = [] then None else Some (parseHeartbeat fs))"

definition page_heartbeats :: "'s hash_server \<Rightarrow> string list \<Rightarrow> 's \<Rightarrow> ExecutorHeartbeat list" where
  "page_heartbeats H ks s = map parseHeartbeat (filter (\<lambda>fs. fs \<noteq> []) (map (\<lambda>k. h_hgetall H k s) ks))"

text \<open>The loop over the pages; it ends when the server answers with the cursor 0.\<close>

partial_function (option) scan_heartbeats ::
    "'s hash_server \<Rightarrow> string \<Rightarrow> ExecutorHeartbeat list \<Rightarrow> 's \<Rightarrow> ExecutorHeartbeat list option" where
  "scan_heartbeats H cursor heartbeats s =
     (let (nextCursor, ks) = h_scan H cursor HEARTBEAT_PREFIX s;
          found = heartbeats @ page_heartbeats H ks s
      in if nextCursor = ''0'' then Some found else scan_heartbeats H nextCursor found s)"

declare scan_heartbeats.simps [code]

definition heartbeat_getAll :: "'s hash_server \<Rightarrow> 's \<Rightarrow> ExecutorHeartbeat list option" where
  "heartbeat_getAll H s = scan_heartbeats H ''0'' [] s"

definition elapsed_within :: "int \<Rightarrow> int \<Rightarrow> int option \<Rightarrow> bool" where
  "elapsed_within now thresholdMs timestamp =
     (case timestamp of None \<Rightarrow> False | Some t \<Rightarrow> now - t \<le> thresholdMs)"

definition isHealthy :: "'s hash_server \<Rightarrow> int \<Rightarrow> string \<Rightarrow> int \<Rightarrow> 's \<Rightarrow> bool" where
  "isHealthy H now executorId thresholdMs s =
     (case heartbeat_get H executorId s of
        None \<Rightarrow> False
      | Some heartbeat \<Rightarrow> elapsed_within now thresholdMs (hb_timestamp heartbeat))"

subsection \<open>heartbeat-emitter.ts\<close>

text \<open>The timers of an emitter: the first heartbeat, then the interval.\<close>

record emitter =
  em_executorId :: string
  em_maxCapacity :: nat
  em_intervalMs :: nat
  em_running :: bool
  em_currentTaskCount :: nat
  em_initialTimeout :: "nat option"
  em_interval :: "nat option"

definition new_emitter :: "string \<Rightarrow> nat \<Rightarrow> nat option \<Rightarrow> emitter" where
  "new_emitter executorId maxCapacity intervalMs =
     \<lparr>em_executorId = executorId, em_maxCapacity = maxCapacity,
      em_intervalMs = (case intervalMs of None \<Rightarrow> 30000 | Some n \<Rightarrow> n), em_running = False,
      em_currentTaskCount = 0, em_initialTimeout = None, em_interval = None\<rparr>"

definition emitter_start :: "emitter \<Rightarrow> emitter" where
  "emitter_start e =
     (if em_running e then e
      else e\<lparr>em_running := True, em_initialTimeout := Some (min 5000 (em_intervalMs e))\<rparr>)"

definition emitter_stop :: "emitter \<Rightarrow> emitter" where
  "emitter_stop e = e\<lparr>em_running := False, em_initialTimeout := None, em_interval := None\<rparr>"

definition setTaskCount :: "nat \<Rightarrow> emitter \<Rightarrow> emitter" where
  "setTaskCount n e = e\<lparr>em_currentTaskCount := n\<rparr>"

definition emitter_send :: "'s hash_server \<Rightarrow> nat \<Rightarrow> emitter \<times> 's \<Rightarrow> emitter \<times> 's" where
  "emitter_send H now st =
     (if \<not> em_running (fst st) then st
      else (fst st, send_heartbeat H now (em_executorId (fst st)) (em_currentTaskCount (fst st)) (em_maxCapacity (fst st)) (snd st)))"

text \<open>The callback of the first timer sends and, after waiting for that, starts the interval; the
  callback of the interval sends.\<close>

definition start_interval :: "emitter \<Rightarrow> emitter" where
  "start_interval e = e\<lparr>em_interval := Some (em_intervalMs e)\<rparr>"

subsection \<open>executor-health-tracker.ts\<close>

definition HEALTHY_THRESHOLD_MS :: int where "HEALTHY_THRESHOLD_MS = 90000"

record ExecutorHealthStatus =
  he_executorId :: "string option"
  he_healthy :: bool
  he_lastHeartbeat :: "int option"
  he_currentTaskCount :: jsnum
  he_maxCapacity :: jsnum
  he_utilizationPct :: jsnum
  he_staleSinceMs :: "int option"

text \<open>\<open>None\<close> for \<open>null\<close>; with an invalid timestamp the time since it is \<open>NaN\<close>, which JSON prints as
  \<open>null\<close> too.\<close>

definition health_of :: "int \<Rightarrow> ExecutorHeartbeat \<Rightarrow> ExecutorHealthStatus" where
  "health_of now hb =
     (let healthy = elapsed_within now HEALTHY_THRESHOLD_MS (hb_timestamp hb) in
      \<lparr>he_executorId = hb_executorId hb, he_healthy = healthy, he_lastHeartbeat = hb_timestamp hb,
       he_currentTaskCount = hb_currentTaskCount hb, he_maxCapacity = hb_maxCapacity hb,
       he_utilizationPct = (if js_less (Fin 0) (hb_maxCapacity hb)
         then percentage (hb_currentTaskCount hb) (hb_maxCapacity hb) else Fin 0),
       he_staleSinceMs = (if healthy then None else map_option (\<lambda>t. now - t) (hb_timestamp hb))\<rparr>)"

definition refreshHealth :: "'s hash_server \<Rightarrow> int \<Rightarrow> 's \<Rightarrow> ExecutorHealthStatus list option" where
  "refreshHealth H now s = map_option (map (health_of now)) (heartbeat_getAll H s)"

text \<open>The last snapshot is refreshed when it is empty.\<close>

definition getAllExecutorHealth ::
    "'s hash_server \<Rightarrow> int \<Rightarrow> ExecutorHealthStatus list \<Rightarrow> 's \<Rightarrow> ExecutorHealthStatus list option" where
  "getAllExecutorHealth H now snapshot s = (if snapshot = [] then refreshHealth H now s else Some snapshot)"

definition getHealthyExecutorCount ::
    "'s hash_server \<Rightarrow> int \<Rightarrow> ExecutorHealthStatus list \<Rightarrow> 's \<Rightarrow> nat option" where
  "getHealthyExecutorCount H now snapshot s =
     map_option (\<lambda>h. length (filter he_healthy h)) (getAllExecutorHealth H now snapshot s)"

definition isExecutorHealthy :: "'s hash_server \<Rightarrow> int \<Rightarrow> string \<Rightarrow> 's \<Rightarrow> bool" where
  "isExecutorHealthy H now executorId s = isHealthy H now executorId HEALTHY_THRESHOLD_MS s"

subsection \<open>Numbers of a heartbeat\<close>

lemma digits_no_ws: "list_all is_digit cs \<Longrightarrow> dropWhile is_ws cs = cs"
  by (cases cs) (auto simp: is_digit_def is_ws_def)

lemma js_trim_digits: "list_all is_digit cs \<Longrightarrow> js_trim cs = cs"
  using digits_no_ws [of cs] digits_no_ws [of "rev cs"] by (simp add: js_trim_def)

lemma decimal_digits:
  assumes "list_all is_digit cs" "cs \<noteq> []"
  shows "decimal_literal cs = Some (of_int (digits_value cs))"
proof -
  have tw: "takeWhile is_digit cs = cs" and dw: "dropWhile is_digit cs = []"
    using assms(1) by (simp_all add: list_all_iff takeWhile_eq_all_conv dropWhile_eq_Nil_conv)
  show ?thesis using assms(2) by (simp add: decimal_literal_def exponent_part_def Let_def tw dw)
qed

lemma js_Number_show_nat: "js_Number (show_nat n) = js_fin (of_nat n)"
proof -
  let ?t = "show_nat n"
  have d: "list_all is_digit ?t" "?t \<noteq> []" using show_nat_digits by blast+
  have all: "is_digit c" if "c \<in> set ?t" for c using d(1) that by (auto simp: list_all_iff)
  have "is_digit c" if "c \<in> set (take 2 ?t)" for c using all in_set_takeD [OF that] by blast
  moreover have "\<not> is_digit c" if "c \<in> set ''xXoObB''" for c using that by (auto simp: is_digit_def code_unit_def)
  ultimately have no: "\<not> (\<exists>c \<in> set (take 2 ?t). c \<in> set ''xXoObB'')" by blast
  have "take 2 ?t \<notin> {''0x'', ''0X'', ''0o'', ''0O'', ''0b'', ''0B''}"
  proof
    assume "take 2 ?t \<in> {''0x'', ''0X'', ''0o'', ''0O'', ''0b'', ''0B''}"
    then have "\<exists>c \<in> set (take 2 ?t). c \<in> set ''xXoObB''" by (elim insertE emptyE) simp_all
    then show False using no by blast
  qed
  moreover have "is_digit (hd ?t)" using all d(2) hd_in_set by blast
  then have "hd ?t \<notin> {CHR ''-'', CHR ''+''}" by (auto simp: is_digit_def code_unit_def)
  moreover have "?t \<noteq> ''Infinity''" using d(1) by (auto simp: is_digit_def code_unit_def)
  ultimately show ?thesis
    using d(2) by (simp add: js_Number_def js_trim_digits [OF d(1)] decimal_digits [OF d] digits_value_show_nat Let_def)
qed

lemma date_value_show_nat:
  assumes "int n \<le> max_time"
  shows "date_value (js_Number (show_nat n)) = Some (int n)"
proof -
  have "int n \<le> 2 ^ 53" using assms by (simp add: max_time_def)
  then have "fl (of_nat n) = of_nat n" using dbl.rnd_int [of "int n"] by simp
  moreover have "js_fin (of_nat n) = Fin (fl (of_nat n))" using js_fin_small(1) [of "of_nat n" "int n"] \<open>int n \<le> 2 ^ 53\<close> by simp
  ultimately show ?thesis using assms by (simp add: js_Number_show_nat date_value_def)
qed

subsection \<open>The scan\<close>

lemma scan_heartbeats_run:
  "scan_run H HEARTBEAT_PREFIX s c ps \<Longrightarrow>
     scan_heartbeats H c acc s = Some (acc @ concat (map (\<lambda>ks. page_heartbeats H ks s) ps))"
proof (induction arbitrary: acc rule: scan_run.induct)
  case (scan_last c ks)
  then show ?case by (subst scan_heartbeats.simps) simp
next
  case (scan_more cursor c ks ps)
  then show ?case by (subst scan_heartbeats.simps) simp
qed

context hash_store begin

abbreviation live_at :: "'s \<Rightarrow> string \<Rightarrow> hash" where
  "live_at s k \<equiv> live_hash (hashes s) (htime s) k"

lemma getAll_found:
  "\<exists>hbs. heartbeat_getAll H s = Some hbs \<and>
     set hbs = {parseHeartbeat (live_at s k) | k. take (length HEARTBEAT_PREFIX) k = HEARTBEAT_PREFIX \<and> live_at s k \<noteq> []}"
proof -
  obtain ps where ps: "scan_run H HEARTBEAT_PREFIX s ''0'' ps"
      "\<forall>k \<in> set (concat ps). take (length HEARTBEAT_PREFIX) k = HEARTBEAT_PREFIX"
      "{k. take (length HEARTBEAT_PREFIX) k = HEARTBEAT_PREFIX \<and> live_at s k \<noteq> []} \<subseteq> set (concat ps)"
    using scan_all [of HEARTBEAT_PREFIX s] by blast
  have page: "set (page_heartbeats H ks s) = {parseHeartbeat (live_at s k) | k. k \<in> set ks \<and> live_at s k \<noteq> []}" for ks
    by (auto simp: page_heartbeats_def hgetall_hash)
  have "set (concat (map (\<lambda>ks. page_heartbeats H ks s) ps)) =
      {parseHeartbeat (live_at s k) | k. k \<in> set (concat ps) \<and> live_at s k \<noteq> []}"
    unfolding set_concat set_map image_image page by blast
  also have "\<dots> = {parseHeartbeat (live_at s k) | k. take (length HEARTBEAT_PREFIX) k = HEARTBEAT_PREFIX \<and> live_at s k \<noteq> []}"
    using ps(2,3) by blast
  finally show ?thesis using scan_heartbeats_run [OF ps(1), of "[]"] by (simp add: heartbeat_getAll_def)
qed

end

subsection \<open>Histories of heartbeats\<close>

datatype beat = Beat string nat nat | Pass nat

text \<open>A heartbeat carries the time of its sender, here the clock of the server.\<close>

fun beat_step :: "'s hash_server \<Rightarrow> ('s \<Rightarrow> int) \<Rightarrow> beat \<Rightarrow> 's \<Rightarrow> 's" where
  "beat_step H htime (Beat i n m) s = send_heartbeat H (nat (htime s)) i n m s"
| "beat_step H htime (Pass n) s = h_tick H (int n) s"

text \<open>The time, and the time of each executor's last heartbeat.\<close>

fun last_beats :: "beat list \<Rightarrow> int \<Rightarrow> (string \<Rightarrow> int option) \<Rightarrow> int \<times> (string \<Rightarrow> int option)" where
  "last_beats [] t L = (t, L)"
| "last_beats (Beat i n m # bs) t L = last_beats bs t (L(i \<mapsto> t))"
| "last_beats (Pass n # bs) t L = last_beats bs (t + int n) L"

text \<open>The hash an executor has left.\<close>

definition beat_of :: "string \<Rightarrow> int option \<Rightarrow> (hash \<times> int option) option \<Rightarrow> bool" where
  "beat_of i u h = (case u of
       None \<Rightarrow> h = None
     | Some t \<Rightarrow> 0 \<le> t \<and> (\<exists>fs. h = Some (fs, Some (t + 90000)) \<and> map_of fs ''executorId'' = Some i \<and>
         map_of fs ''timestamp'' = Some (show_nat (nat t))))"

lemma live_hash_beat:
  assumes "beat_of i u (hs k)"
  shows "live_hash hs t k \<noteq> [] \<longleftrightarrow> (\<exists>v. u = Some v \<and> t < v + 90000)"
  using assms by (auto simp: beat_of_def live_hash_def split: option.splits)

context hash_store begin

definition beating :: "'s \<Rightarrow> (string \<Rightarrow> int option) \<Rightarrow> bool" where
  "beating s L \<longleftrightarrow> 0 \<le> htime s \<and>
     (\<forall>i. beat_of i (L i) (hashes s (heartbeat_key i)) \<and> (\<forall>t. L i = Some t \<longrightarrow> t \<le> htime s))"

lemma heartbeat_key_eq [simp]: "heartbeat_key i = heartbeat_key j \<longleftrightarrow> i = j"
  by (simp add: heartbeat_key_def)

lemma send_hash:
  "hashes (send_heartbeat H n i c m s) = (hashes s)(heartbeat_key i \<mapsto>
     (AList.updates (map fst (heartbeat_hash n i c m)) (map snd (heartbeat_hash n i c m)) (live_at s (heartbeat_key i)),
      Some (htime s + 90000)))"
  "htime (send_heartbeat H n i c m s) = htime s"
proof -
  let ?k = "heartbeat_key i" and ?fs = "heartbeat_hash n i c m"
  let ?gs = "AList.updates (map fst ?fs) (map snd ?fs) (live_at s ?k)"
  let ?s = "h_hset H ?k ?fs s"
  have h: "hashes ?s = (hashes s)(?k \<mapsto> (?gs, live_expiry (hashes s) (htime s) ?k))" "htime ?s = htime s"
    by (simp_all add: hset_hash hset_time)
  have ne: "?gs \<noteq> []"
  proof
    assume "?gs = []"
    moreover have "map_of ?gs ''executorId'' = Some i" by (simp add: updates_conv' heartbeat_hash_def)
    ultimately show False by simp
  qed
  have "live_at ?s ?k = ?gs" unfolding h
    by (auto simp: live_hash_def live_expiry_def split: option.splits prod.splits if_splits)
  with expire_hash [of ?s ?k HEARTBEAT_TTL_SECONDS] ne h
  show "hashes (send_heartbeat H n i c m s) = (hashes s)(?k \<mapsto> (?gs, Some (htime s + 90000)))"
    by (simp add: send_heartbeat_def HEARTBEAT_TTL_SECONDS_def)
  show "htime (send_heartbeat H n i c m s) = htime s"
    by (simp add: send_heartbeat_def expire_time hset_time)
qed

lemma beating_step:
  assumes "beating s L"
  shows "beating (beat_step H htime b s) (snd (last_beats [b] (htime s) L)) \<and>
    htime (beat_step H htime b s) = fst (last_beats [b] (htime s) L)"
proof (cases b)
  case (Beat i n m)
  have "beat_of i (Some (htime s)) (hashes (send_heartbeat H (nat (htime s)) i n m s) (heartbeat_key i))"
    using assms by (simp add: send_hash beat_of_def updates_conv' heartbeat_hash_def beating_def)
  moreover have "hashes (send_heartbeat H (nat (htime s)) i n m s) (heartbeat_key j) = hashes s (heartbeat_key j)" if "j \<noteq> i" for j
    using that by (simp add: send_hash)
  ultimately show ?thesis using assms by (auto simp: Beat beating_def send_hash(2))
next
  case (Pass n)
  then show ?thesis using assms
    by (auto simp: beating_def tick_hash tick_time) (meson le_add_same_cancel1 of_nat_0_le_iff order_trans)
qed

lemma beating_run:
  "beating s L \<Longrightarrow> beating (fold (beat_step H htime) bs s) (snd (last_beats bs (htime s) L)) \<and>
     htime (fold (beat_step H htime) bs s) = fst (last_beats bs (htime s) L)"
proof (induction bs arbitrary: s L)
  case (Cons b bs)
  have "last_beats (b # bs) (htime s) L = last_beats bs (fst (last_beats [b] (htime s) L)) (snd (last_beats [b] (htime s) L))"
    by (cases b) simp_all
  then show ?case using Cons.IH [of "beat_step H htime b s" "snd (last_beats [b] (htime s) L)"] beating_step [OF Cons.prems, of b]
    by simp
qed simp

lemma beating_start: "0 \<le> htime s \<Longrightarrow> (\<And>i. hashes s (heartbeat_key i) = None) \<Longrightarrow> beating s (\<lambda>i. None)"
  by (simp add: beating_def beat_of_def)

lemma health_of_beating:
  assumes "beating s L" "htime s \<le> max_time"
  shows "\<exists>hl. refreshHealth H (htime s) s = Some hl \<and> list_all he_healthy hl \<and>
    he_executorId ` set hl = Some ` {i. \<exists>u. L i = Some u \<and> htime s < u + 90000}"
proof -
  let ?keys = "{k. take (length HEARTBEAT_PREFIX) k = HEARTBEAT_PREFIX \<and> live_at s k \<noteq> []}"
  obtain hbs where hbs: "heartbeat_getAll H s = Some hbs" "set hbs = {parseHeartbeat (live_at s k) | k. k \<in> ?keys}"
    using getAll_found [of s] by auto
  have lv: "live_at s (heartbeat_key i) \<noteq> [] \<longleftrightarrow> (\<exists>u. L i = Some u \<and> htime s < u + 90000)" for i
    using live_hash_beat [of i "L i" "hashes s" "heartbeat_key i" "htime s"] assms(1) by (simp add: beating_def)
  have keys: "?keys = heartbeat_key ` {i. \<exists>u. L i = Some u \<and> htime s < u + 90000}"
  proof (intro equalityI subsetI)
    fix k assume k: "k \<in> ?keys"
    define i where "i = drop (length HEARTBEAT_PREFIX) k"
    have ki: "k = heartbeat_key i" using k append_take_drop_id [of "length HEARTBEAT_PREFIX" k]
      by (simp add: heartbeat_key_def i_def)
    then have "live_at s (heartbeat_key i) \<noteq> []" using k by simp
    then show "k \<in> heartbeat_key ` {i. \<exists>u. L i = Some u \<and> htime s < u + 90000}" using lv ki by blast
  next
    fix k assume "k \<in> heartbeat_key ` {i. \<exists>u. L i = Some u \<and> htime s < u + 90000}"
    then obtain i where "k = heartbeat_key i" "live_at s (heartbeat_key i) \<noteq> []" using lv by blast
    then show "k \<in> ?keys" by (simp add: heartbeat_key_def)
  qed
  have parsed: "hb_executorId (parseHeartbeat (live_at s (heartbeat_key i))) = Some i \<and>
      hb_timestamp (parseHeartbeat (live_at s (heartbeat_key i))) = Some u"
    if u: "L i = Some u" "htime s < u + 90000" for i u
  proof -
    have b: "beat_of i (Some u) (hashes s (heartbeat_key i))" "u \<le> htime s"
      using assms(1) u(1) unfolding beating_def by metis+
    then obtain fs where fs: "hashes s (heartbeat_key i) = Some (fs, Some (u + 90000))" "0 \<le> u"
        "map_of fs ''executorId'' = Some i" "map_of fs ''timestamp'' = Some (show_nat (nat u))"
      by (auto simp: beat_of_def)
    have "date_value (js_Number (show_nat (nat u))) = Some u"
      using date_value_show_nat [of "nat u"] fs(2) b(2) assms(2) by simp
    then show ?thesis using fs u(2) by (simp add: live_hash_def parseHeartbeat_def field_number_def)
  qed
  have set: "set hbs = (\<lambda>i. parseHeartbeat (live_at s (heartbeat_key i))) ` {i. \<exists>u. L i = Some u \<and> htime s < u + 90000}"
    using hbs(2) keys by auto
  have "list_all he_healthy (map (health_of (htime s)) hbs)"
    using set parsed by (auto simp: list_all_iff health_of_def Let_def elapsed_within_def HEALTHY_THRESHOLD_MS_def)
  moreover have "he_executorId ` set (map (health_of (htime s)) hbs) = Some ` {i. \<exists>u. L i = Some u \<and> htime s < u + 90000}"
    using set parsed by (auto simp: health_of_def Let_def image_iff) metis
  ultimately show ?thesis using hbs(1) by (intro exI [of _ "map (health_of (htime s)) hbs"]) (simp add: refreshHealth_def)
qed

end

subsection \<open>A reference server\<close>

record mem_store =
  ms_hashes :: "(string \<times> hash \<times> int option) list"
  ms_time :: int

definition ms_hash :: "mem_store \<Rightarrow> string \<Rightarrow> (hash \<times> int option) option" where
  "ms_hash s = map_of (ms_hashes s)"

definition mem_hashes :: "mem_store hash_server" where
  "mem_hashes =
     \<lparr>h_hset = (\<lambda>k fs s. s\<lparr>ms_hashes := (k, AList.updates (map fst fs) (map snd fs) (live_hash (ms_hash s) (ms_time s) k),
        live_expiry (ms_hash s) (ms_time s) k) # ms_hashes s\<rparr>),
      h_expire = (\<lambda>k n s. s\<lparr>ms_hashes := (k, live_hash (ms_hash s) (ms_time s) k, Some (ms_time s + 1000 * n)) # ms_hashes s\<rparr>),
      h_hgetall = (\<lambda>k s. live_hash (ms_hash s) (ms_time s) k),
      h_scan = (\<lambda>c p s. (''0'', filter (\<lambda>k. take (length p) k = p) (map fst (ms_hashes s)))),
      h_tick = (\<lambda>n s. s\<lparr>ms_time := ms_time s + n\<rparr>)\<rparr>"

lemma ms_hash_simps [simp]:
  "ms_hash (s\<lparr>ms_hashes := (k, h) # ms_hashes s\<rparr>) = (ms_hash s)(k \<mapsto> h)"
  "ms_hash (s\<lparr>ms_time := n\<rparr>) = ms_hash s"
  by (simp_all add: ms_hash_def)

interpretation mem_beats: hash_store mem_hashes ms_hash ms_time
proof unfold_locales
  fix p and s :: mem_store
  let ?ks = "filter (\<lambda>k. take (length p) k = p) (map fst (ms_hashes s))"
  have "scan_run mem_hashes p s ''0'' [?ks]" by (rule scan_last) (simp add: mem_hashes_def)
  moreover have "k \<in> fst ` set (ms_hashes s)" if "live_hash (ms_hash s) (ms_time s) k \<noteq> []" for k
    using that by (auto simp: live_hash_def ms_hash_def split: option.splits dest: map_of_SomeD intro: rev_image_eqI)
  ultimately show "\<exists>ps. scan_run mem_hashes p s ''0'' ps \<and> (\<forall>k \<in> set (concat ps). take (length p) k = p) \<and>
      {k. take (length p) k = p \<and> live_hash (ms_hash s) (ms_time s) k \<noteq> []} \<subseteq> set (concat ps)"
    by (intro exI [of _ "[?ks]"]) auto
qed (simp_all add: mem_hashes_def)

subsection \<open>Properties\<close>

text \<open>
  C21: The health snapshot always ends and names exactly the executors whose last heartbeat is less than 90
  seconds old, each of them healthy: an executor that has gone silent is not reported as unhealthy, it
  disappears.
\<close>

theorem health_names_live_executors:
  assumes "hash_store H hs tm" "0 \<le> tm s" "\<forall>i. hs s (heartbeat_key i) = None"
    and "last_beats beats (tm s) (\<lambda>i. None) = (t, L)" "t \<le> max_time" "s' = fold (beat_step H tm) beats s"
  shows "\<exists>hl. refreshHealth H t s' = Some hl \<and> list_all he_healthy hl \<and>
    he_executorId ` set hl = Some ` {i. \<exists>u. L i = Some u \<and> t < u + 90000}"
proof -
  note start = hash_store.beating_start [OF assms(1,2)]
  have run: "hash_store.beating hs tm s' L" "tm s' = t"
    using hash_store.beating_run [OF assms(1) start, of beats] assms(3,4,6) by simp_all
  then show ?thesis using hash_store.health_of_beating [OF assms(1) run(1)] assms(5) by simp
qed

theorem health_names_live_executors_witness:
  "\<exists>hl. refreshHealth mem_hashes 95000
      (fold (beat_step mem_hashes ms_time) [Beat ''a'' 1 4, Pass 50000, Beat ''b'' 0 4, Pass 45000] \<lparr>ms_hashes = [], ms_time = 0\<rparr>)
      = Some hl \<and> he_executorId ` set hl = {Some ''b''}"
proof -
  let ?beats = "[Beat ''a'' 1 4, Pass 50000, Beat ''b'' 0 4, Pass 45000]"
  have "last_beats ?beats (ms_time \<lparr>ms_hashes = [], ms_time = 0\<rparr>) (\<lambda>i. None) = (95000, [''a'' \<mapsto> 0, ''b'' \<mapsto> 50000])" by simp
  from health_names_live_executors [OF mem_beats.hash_store_axioms _ _ this _ refl]
  obtain hl where "refreshHealth mem_hashes 95000 (fold (beat_step mem_hashes ms_time) ?beats \<lparr>ms_hashes = [], ms_time = 0\<rparr>) = Some hl"
      "he_executorId ` set hl = Some ` {i. \<exists>u. [''a'' \<mapsto> 0, ''b'' \<mapsto> 50000] i = Some u \<and> (95000::int) < u + 90000}"
    by (auto simp: ms_hash_def max_time_def)
  moreover have "{i. \<exists>u. [''a'' \<mapsto> 0, ''b'' \<mapsto> 50000] i = Some u \<and> (95000::int) < u + 90000} = {''b''}"
    by (auto split: if_splits)
  ultimately show ?thesis by auto
qed

text \<open>
  An emitter never sends after it has been stopped, until it is started again; but when it is stopped
  while its first heartbeat is under way, the interval is started afterwards and stays.
\<close>

theorem stopped_emitter:
  "emitter_send H now (emitter_stop e, s) = (emitter_stop e, s) \<and>
   em_interval (start_interval (emitter_stop e)) = Some (em_intervalMs e) \<and>
   emitter_send H now (start_interval (emitter_stop e), s) = (start_interval (emitter_stop e), s)"
  by (simp add: emitter_send_def emitter_stop_def start_interval_def)

end
