(* ===== verification/MetricsService.thy ===== *)
theory MetricsService
  imports SlaMonitor Heartbeats
begin

section \<open>Metrics of the monitor (metrics-cache.ts, metrics-aggregator.ts, metrics-controller.ts)\<close>

text \<open>
  The classes \<open>MetricsCache\<close>, \<open>MetricsAggregator\<close> and \<open>MetricsController\<close>.  The server that keeps the
  cache is the parameter \<open>cache_server\<close> with the documented behaviour of \<open>SET key value EX n\<close> and
  \<open>GET\<close> as the laws of \<open>metrics_store\<close>; the JSON text in between is decoded to the object it was
  made from.  \<open>pg_avg\<close> is the number \<open>parseFloat\<close> reads from the text of the average the database
  computes for some durations.
\<close>

record ExecutionMetrics =
  mt_activeExecutionCount :: int
  mt_successRatePct :: jsnum
  mt_avgDurationMs :: jsnum
  mt_throughputPerMinute :: jsnum

record 's cache_server =
  c_set_ex :: "string \<Rightarrow> ExecutionMetrics \<Rightarrow> int \<Rightarrow> 's \<Rightarrow> 's"
  c_get :: "string \<Rightarrow> 's \<Rightarrow> ExecutionMetrics option"
  c_tick :: "int \<Rightarrow> 's \<Rightarrow> 's"

locale metrics_store =
  fixes C :: "'s cache_server" and kept :: "'s \<Rightarrow> string \<Rightarrow> (ExecutionMetrics \<times> int) option" and ctime :: "'s \<Rightarrow> int"
  assumes set_ex: "kept (c_set_ex C k m n s) = (kept s)(k \<mapsto> (m, ctime s + 1000 * n))"
    and set_ex_time: "ctime (c_set_ex C k m n s) = ctime s"
    and get_live: "c_get C k s = (case kept s k of None \<Rightarrow> None | Some (m, e) \<Rightarrow> if ctime s < e then Some m else None)"
    and tick_kept: "kept (c_tick C n s) = kept s" and tick_time: "ctime (c_tick C n s) = ctime s + n"

subsection \<open>metrics-cache.ts\<close>

definition METRICS_KEY :: string where "METRICS_KEY = ''metrics:cache''"
definition METRICS_TTL_SECONDS :: int where "METRICS_TTL_SECONDS = 10"

definition setMetrics :: "'s cache_server \<Rightarrow> ExecutionMetrics \<Rightarrow> 's \<Rightarrow> 's" where
  "setMetrics C metrics s = c_set_ex C METRICS_KEY metrics METRICS_TTL_SECONDS s"

definition cache_getMetrics :: "'s cache_server \<Rightarrow> 's \<Rightarrow> ExecutionMetrics option" where
  "cache_getMetrics C s = c_get C METRICS_KEY s"

subsection \<open>metrics-aggregator.ts\<close>

definition ended_since :: "date \<Rightarrow> Execution \<Rightarrow> bool" where
  "ended_since t r \<longleftrightarrow> (case ex_completedAt r of None \<Rightarrow> False | Some c \<Rightarrow> t \<le> c)"

definition count_rows :: "('r \<Rightarrow> bool) \<Rightarrow> 'r list \<Rightarrow> int" where
  "count_rows p rows = int (length (filter p rows))"

definition durations :: "Execution list \<Rightarrow> int list" where
  "durations rows = concat (map (\<lambda>r. case (ex_completedAt r, ex_startedAt r) of
      (Some c, Some s) \<Rightarrow> if ex_status r = ExCompleted then [c - s] else [] | _ \<Rightarrow> []) rows)"

definition compute_metrics :: "(int list \<Rightarrow> jsnum) \<Rightarrow> date \<Rightarrow> db \<Rightarrow> ExecutionMetrics" where
  "compute_metrics pg_avg now d =
     (let oneHourAgo = now - 60 * 60 * 1000;
          activeExecutionCount = count_rows (\<lambda>r. ex_status r \<in> {ExPending, ExRunning}) (db_executions d);
          recent = filter (ended_since oneHourAgo) (db_executions d);
          completed = count_rows (\<lambda>r. ex_status r = ExCompleted) recent;
          total_count = count_rows (\<lambda>r. ex_status r \<in> {ExCompleted, ExFailed}) recent;
          avgDurationMs = (if durations recent = [] then Fin 0 else pg_avg (durations recent));
          successRatePct = (if 0 < total_count then percentage (Fin (of_int completed)) (Fin (of_int total_count)) else Fin 100);
          throughputPerMinute = js_div (js_round (js_mul (js_div (Fin (of_int completed)) (Fin 60)) (Fin 100))) (Fin 100)
      in \<lparr>mt_activeExecutionCount = activeExecutionCount, mt_successRatePct = successRatePct,
          mt_avgDurationMs = js_round avgDurationMs, mt_throughputPerMinute = throughputPerMinute\<rparr>)"

definition aggregate :: "(int list \<Rightarrow> jsnum) \<Rightarrow> 's cache_server \<Rightarrow> date \<Rightarrow> db \<times> 's \<Rightarrow> ExecutionMetrics \<times> 's" where
  "aggregate pg_avg C now st =
     (let metrics = compute_metrics pg_avg now (fst st) in (metrics, setMetrics C metrics (snd st)))"

definition getMetrics :: "(int list \<Rightarrow> jsnum) \<Rightarrow> 's cache_server \<Rightarrow> date \<Rightarrow> db \<times> 's \<Rightarrow> ExecutionMetrics \<times> 's" where
  "getMetrics pg_avg C now st =
     (case cache_getMetrics C (snd st) of
        Some cached \<Rightarrow> (cached, snd st)
      | None \<Rightarrow> aggregate pg_avg C now st)"

subsection \<open>metrics-controller.ts\<close>

datatype monitor_body =
    MetricsBody ExecutionMetrics | HealthBody "ExecutorHealthStatus list" | AlertsBody "Alert list" nat

definition getExecutionMetrics ::
    "(int list \<Rightarrow> jsnum) \<Rightarrow> 's cache_server \<Rightarrow> date \<Rightarrow> db \<times> 's \<Rightarrow> monitor_body response \<times> 's" where
  "getExecutionMetrics pg_avg C now st =
     (let (metrics, s) = getMetrics pg_avg C now st in (respond 200 (MetricsBody metrics), s))"

definition getExecutorHealth ::
    "'s hash_server \<Rightarrow> int \<Rightarrow> ExecutorHealthStatus list \<Rightarrow> 's \<Rightarrow> monitor_body response option" where
  "getExecutorHealth H now snapshot s =
     map_option (\<lambda>health. respond 200 (HealthBody health)) (getAllExecutorHealth H now snapshot s)"

definition getAlerts :: "date \<Rightarrow> string option \<Rightarrow> string option \<Rightarrow> db \<Rightarrow> monitor_body response" where
  "getAlerts now hoursText limitText d =
     (let hours = clamp 1 168 (query_int hoursText 24); limit = clamp 1 500 (query_int limitText 200) in
      case findRecent now hours limit d of
        Inl e \<Rightarrow> errorHandler (db_failure e)
      | Inr alerts \<Rightarrow> respond 200 (AlertsBody alerts (length alerts)))"

subsection \<open>Lemmas\<close>

lemma count_rows_mono: "(\<And>r. p r \<Longrightarrow> q r) \<Longrightarrow> count_rows p rows \<le> count_rows q rows"
  by (induction rows) (auto simp: count_rows_def)

lemma count_rows_nonneg [simp]: "0 \<le> count_rows p rows"
  by (simp add: count_rows_def)

lemma count_rows_cong: "(\<And>r. r \<in> set rows \<Longrightarrow> p r = q r) \<Longrightarrow> count_rows p rows = count_rows q rows"
  by (simp add: count_rows_def cong: filter_cong)

lemma count_rows_none: "count_rows p rows = 0 \<longleftrightarrow> (\<forall>r \<in> set rows. \<not> p r)"
  by (simp add: count_rows_def filter_empty_conv)

context metrics_store begin

lemma cached_then:
  assumes "getMetrics pg_avg C now (d, s) = (m, s')" "0 \<le> n"
  shows "c_get C METRICS_KEY s = None \<Longrightarrow>
      getMetrics pg_avg C now' (d', c_tick C n s') =
        (if n < 10000 then (m, c_tick C n s') else aggregate pg_avg C now' (d', c_tick C n s'))"
    and "c_get C METRICS_KEY s = Some c \<Longrightarrow> m = c \<and> s' = s"
proof -
  assume none: "c_get C METRICS_KEY s = None"
  then have s': "s' = c_set_ex C METRICS_KEY m 10 s"
    using assms(1) by (auto simp: getMetrics_def cache_getMetrics_def aggregate_def setMetrics_def METRICS_TTL_SECONDS_def Let_def)
  then have "c_get C METRICS_KEY (c_tick C n s') = (if n < 10000 then Some m else None)"
    by (simp add: get_live tick_kept tick_time set_ex set_ex_time)
  then show "getMetrics pg_avg C now' (d', c_tick C n s') =
        (if n < 10000 then (m, c_tick C n s') else aggregate pg_avg C now' (d', c_tick C n s'))"
    by (simp add: getMetrics_def cache_getMetrics_def)
next
  assume "c_get C METRICS_KEY s = Some c"
  then show "m = c \<and> s' = s" using assms(1) by (simp add: getMetrics_def cache_getMetrics_def)
qed

end

text \<open>A reference server.\<close>

record mem_cache =
  mc_kept :: "(string \<times> ExecutionMetrics \<times> int) list"
  mc_time :: int

definition mem_metrics :: "mem_cache cache_server" where
  "mem_metrics =
     \<lparr>c_set_ex = (\<lambda>k m n s. s\<lparr>mc_kept := (k, m, mc_time s + 1000 * n) # mc_kept s\<rparr>),
      c_get = (\<lambda>k s. case map_of (mc_kept s) k of None \<Rightarrow> None | Some (m, e) \<Rightarrow> if mc_time s < e then Some m else None),
      c_tick = (\<lambda>n s. s\<lparr>mc_time := mc_time s + n\<rparr>)\<rparr>"

interpretation mem_metrics: metrics_store mem_metrics "\<lambda>s. map_of (mc_kept s)" mc_time
  by unfold_locales (simp_all add: mem_metrics_def)

lemma sorted_lex:
  "sorted_wrt (\<lambda>a b. f a < f b \<or> f a = f b \<and> g a \<le> g b) (sort_key f (sort_key g xs))"
  for f g :: "'a \<Rightarrow> int"
proof -
  let ?ys = "sort_key f (sort_key g xs)"
  have ord: "sorted (map f ?ys)" by simp
  have "sorted (map g (filter (\<lambda>x. f x = k) ?ys))" for k
  proof -
    have "filter (\<lambda>x. f x = k) ?ys = filter (\<lambda>x. f x = k) (sort_key g xs)" by (simp add: sort_key_stable)
    then show ?thesis by (simp add: sorted_filter)
  qed
  then have "g (?ys ! i) \<le> g (?ys ! j)" if "i < j" "j < length ?ys" "f (?ys ! i) = f (?ys ! j)" for i j
  proof -
    have split: "?ys = take j ?ys @ ?ys ! j # drop (Suc j) ?ys" using that(2) by (rule id_take_nth_drop)
    have mem: "?ys ! i \<in> set (take j ?ys)" using that(1,2) by (metis in_set_conv_nth length_take min.absorb4 nth_take)
    have "sorted (map g (filter (\<lambda>x. f x = f (?ys ! j)) (take j ?ys @ ?ys ! j # drop (Suc j) ?ys)))"
      using \<open>\<And>k. sorted (map g (filter (\<lambda>x. f x = k) ?ys))\<close> [of "f (?ys ! j)"] split by simp
    then show ?thesis using mem that(3) by (auto simp: sorted_append)
  qed
  note g_le = this
  show ?thesis unfolding sorted_wrt_iff_nth_less
  proof (intro allI impI)
    fix i j assume ij: "i < j" "j < length ?ys"
    have "f (?ys ! i) \<le> f (?ys ! j)" using sorted_nth_mono [OF ord, of i j] ij by simp
    then show "f (?ys ! i) < f (?ys ! j) \<or> f (?ys ! i) = f (?ys ! j) \<and> g (?ys ! i) \<le> g (?ys ! j)"
      using g_le [OF ij] by linarith
  qed
qed

lemma recent_alerts:
  assumes "findRecent now hours limit d = Inr as" "0 \<le> limit"
  shows "sorted_wrt (\<lambda>a b. severity_rank (al_severity a) < severity_rank (al_severity b) \<or>
      severity_rank (al_severity a) = severity_rank (al_severity b) \<and> al_createdAt b \<le> al_createdAt a) as"
    "int (length as) \<le> limit" "set as \<subseteq> {a \<in> set (db_alerts d). now - 3600000 * hours \<le> al_createdAt a}"
    "int (length as) < limit \<Longrightarrow> set as = {a \<in> set (db_alerts d). now - 3600000 * hours \<le> al_createdAt a}"
proof -
  let ?recent = "filter (\<lambda>a. now - 3600000 * hours \<le> al_createdAt a) (db_alerts d)"
  let ?all = "sort_key (\<lambda>a. severity_rank (al_severity a)) (newest_first al_createdAt ?recent)"
  have as: "as = take (nat limit) ?all"
    using assms by (auto simp: findRecent_def slice_rows_def split: if_splits)
  have set: "set ?all = {a \<in> set (db_alerts d). now - 3600000 * hours \<le> al_createdAt a}"
    by (auto simp: newest_first_def)
  have "sorted_wrt (\<lambda>a b. severity_rank (al_severity a) < severity_rank (al_severity b) \<or>
      severity_rank (al_severity a) = severity_rank (al_severity b) \<and> - al_createdAt a \<le> - al_createdAt b) ?all"
    unfolding newest_first_def by (rule sorted_lex)
  then show "sorted_wrt (\<lambda>a b. severity_rank (al_severity a) < severity_rank (al_severity b) \<or>
      severity_rank (al_severity a) = severity_rank (al_severity b) \<and> al_createdAt b \<le> al_createdAt a) as"
    unfolding as by (intro sorted_wrt_take) simp
  show "int (length as) \<le> limit" using assms(2) by (simp add: as)
  show "set as \<subseteq> {a \<in> set (db_alerts d). now - 3600000 * hours \<le> al_createdAt a}"
    using set_take_subset [of "nat limit" ?all] unfolding as set .
  show "set as = {a \<in> set (db_alerts d). now - 3600000 * hours \<le> al_createdAt a}" if "int (length as) < limit"
  proof -
    have "take (nat limit) ?all = ?all" using that unfolding as by (intro take_all) auto
    then show ?thesis unfolding as set [symmetric] by simp
  qed
qed

subsection \<open>Properties\<close>

text \<open>
  The success rate is a percentage: between 0 and 100 in spite of the roundings, exactly 100 when nothing
  failed in the last hour and exactly 0 when only failures ended; the executions counted as active are
  those that are pending or running.
\<close>

theorem metrics_rate_bounds:
  "\<exists>x. mt_successRatePct (compute_metrics pg_avg now d) = Fin x \<and> 0 \<le> x \<and> x \<le> 100 \<and>
    (x = 100 \<or> (\<exists>r \<in> set (db_executions d). ex_status r = ExFailed \<and> ended_since (now - 3600000) r)) \<and>
    (x = 0 \<or> (\<forall>r \<in> set (db_executions d). ended_since (now - 3600000) r \<and> ex_status r \<in> {ExCompleted, ExFailed} \<longrightarrow>
        (\<exists>q \<in> set (db_executions d). ended_since (now - 3600000) q \<and> ex_status q = ExCompleted)))"
proof -
  let ?recent = "filter (ended_since (now - 3600000)) (db_executions d)"
  let ?c = "count_rows (\<lambda>r. ex_status r = ExCompleted) ?recent"
  let ?t = "count_rows (\<lambda>r. ex_status r \<in> {ExCompleted, ExFailed}) ?recent"
  have ct: "?c \<le> ?t" by (rule count_rows_mono) simp
  have rate: "mt_successRatePct (compute_metrics pg_avg now d) =
      (if 0 < ?t then percentage (Fin (of_int ?c)) (Fin (of_int ?t)) else Fin 100)"
    by (simp add: compute_metrics_def Let_def)
  show ?thesis
  proof (cases "0 < ?t")
    case False
    then have "?t = 0" using count_rows_nonneg [of _ ?recent] by (metis order_le_less)
    then have "\<forall>r \<in> set ?recent. ex_status r \<notin> {ExCompleted, ExFailed}" unfolding count_rows_none .
    then show ?thesis using rate False by auto
  next
    case True
    obtain x where x: "percentage (Fin (of_int ?c)) (Fin (of_int ?t)) = Fin x" "0 \<le> x" "x \<le> 100"
      using percentage_bounds [OF count_rows_nonneg ct True] by blast
    have full: "x = 100" if "\<not> (\<exists>r \<in> set (db_executions d). ex_status r = ExFailed \<and> ended_since (now - 3600000) r)"
    proof -
      have "?c = ?t" by (rule count_rows_cong) (use that in auto)
      then show ?thesis using percentage_all [OF True] x(1) by simp
    qed
    have none: "x = 0" if "\<not> (\<exists>q \<in> set (db_executions d). ended_since (now - 3600000) q \<and> ex_status q = ExCompleted)"
    proof -
      have "?c = 0" unfolding count_rows_none using that by auto
      then show ?thesis using percentage_none [OF True] x(1) by simp
    qed
    show ?thesis using rate True x full none by auto
  qed
qed

text \<open>
  Metrics are computed afresh at most every ten seconds: after a request that found no cached value, the
  same answer is given for less than ten seconds, whatever has happened in the database, and then a new
  one is computed.
\<close>

theorem metrics_cached:
  assumes "metrics_store C kept ctime" "getMetrics pg_avg C now (d, s) = (m, s')" "cache_getMetrics C s = None" "0 \<le> n"
  shows "m = compute_metrics pg_avg now d \<and>
    fst (getMetrics pg_avg C now' (d', c_tick C n s')) = (if n < 10000 then m else compute_metrics pg_avg now' d')"
  using metrics_store.cached_then(1) [OF assms(1,2,4), of now' d'] assms(2,3)
  by (auto simp: getMetrics_def cache_getMetrics_def aggregate_def Let_def)

definition no_metrics :: mem_cache where
  "no_metrics = \<lparr>mc_kept = [], mc_time = 0\<rparr>"

theorem metrics_cached_witness:
  "mt_activeExecutionCount (fst (getMetrics (\<lambda>ds. Fin 0) mem_metrics 9999 (sla_db [0],
     c_tick mem_metrics 9999 (snd (getMetrics (\<lambda>ds. Fin 0) mem_metrics 0 (sla_db [], no_metrics)))))) = 0"
proof -
  obtain m s' where g: "getMetrics (\<lambda>ds. Fin 0) mem_metrics 0 (sla_db [], no_metrics) = (m, s')" by (metis surj_pair)
  have "cache_getMetrics mem_metrics no_metrics = None"
    by (simp add: cache_getMetrics_def mem_metrics_def no_metrics_def)
  from metrics_cached [OF mem_metrics.metrics_store_axioms g this, of 9999 9999 "sla_db [0]"]
  have "fst (getMetrics (\<lambda>ds. Fin 0) mem_metrics 9999 (sla_db [0], c_tick mem_metrics 9999 s')) = compute_metrics (\<lambda>ds. Fin 0) 0 (sla_db [])"
    by simp
  then show ?thesis unfolding g snd_conv by (simp add: compute_metrics_def sla_db_def count_rows_def Let_def)
qed


end
