(* ===== verification/Setup.thy ===== *)
theory Setup
  imports JsString JsSort
begin

section \<open>Migrations and connections (packages/shared/src/db, packages/shared/src/redis/redis-client.ts)\<close>

text \<open>
  What runs before the services: \<open>runMigrations\<close> over the names of the files in its directory, and the
  lazily opened connections.  The effect of a migration's SQL text on the database is the parameter
  \<open>sql\<close>: \<^const>\<open>Inl\<close> of an error, or the new database.  A transaction that fails is rolled back.
\<close>

subsection \<open>migrations/index.ts\<close>

text \<open>The order of \<open>sort()\<close> without a comparator: by code units.\<close>

fun string_cmp :: "string \<Rightarrow> string \<Rightarrow> int" where
  "string_cmp [] [] = 0"
| "string_cmp [] (y # ys) = -1"
| "string_cmp (x # xs) [] = 1"
| "string_cmp (x # xs) (y # ys) =
     (if code_unit x < code_unit y then -1 else if code_unit y < code_unit x then 1 else string_cmp xs ys)"

definition is_sql_file :: "string \<Rightarrow> bool" where
  "is_sql_file f \<longleftrightarrow> 4 \<le> length f \<and> drop (length f - 4) f = ''.sql''"

definition discoverMigrationFiles :: "string list \<Rightarrow> string list" where
  "discoverMigrationFiles directory = js_sort string_cmp (filter is_sql_file directory)"

record 'd migrated =
  mg_created :: bool
  mg_applied :: "string list"
  mg_data :: 'd

text \<open>The table of migrations: \<open>CREATE TABLE IF NOT EXISTS\<close>, and its names in the order of its ids.\<close>

definition ensureMigrationsTable :: "'d migrated \<Rightarrow> 'd migrated" where
  "ensureMigrationsTable st = (if mg_created st then st else st\<lparr>mg_created := True, mg_applied := []\<rparr>)"

definition getAppliedMigrations :: "'d migrated \<Rightarrow> string list" where
  "getAppliedMigrations st = mg_applied st"

text \<open>One migration: its SQL and its row in the table, in one transaction.\<close>

definition apply_migration ::
    "(string \<Rightarrow> 'd \<Rightarrow> 'e + 'd) \<Rightarrow> string \<Rightarrow> 'd migrated \<Rightarrow> 'e + 'd migrated" where
  "apply_migration sql name st =
     (case sql name (mg_data st) of
        Inl e \<Rightarrow> Inl e
      | Inr data \<Rightarrow> Inr (st\<lparr>mg_applied := mg_applied st @ [name], mg_data := data\<rparr>))"

text \<open>The loop: the names applied in this run and how it ends, \<open>Some\<close> the failing migration and its error.\<close>

fun migrate_all ::
    "(string \<Rightarrow> 'd \<Rightarrow> 'e + 'd) \<Rightarrow> string list \<Rightarrow> string list \<Rightarrow> 'd migrated \<Rightarrow>
     (string list \<times> (string \<times> 'e) option) \<times> 'd migrated" where
  "migrate_all sql applied [] st = (([], None), st)"
| "migrate_all sql applied (name # files) st =
     (if name \<in> set applied then migrate_all sql applied files st
      else case apply_migration sql name st of
          Inl e \<Rightarrow> (([], Some (name, e)), st)
        | Inr st' \<Rightarrow>
            (let ((newly, err), st'') = migrate_all sql applied files st' in ((name # newly, err), st'')))"

definition runMigrations ::
    "(string \<Rightarrow> 'd \<Rightarrow> 'e + 'd) \<Rightarrow> string list \<Rightarrow> 'd migrated \<Rightarrow>
     (string list \<times> (string \<times> 'e) option) \<times> 'd migrated" where
  "runMigrations sql directory st =
     (let st1 = ensureMigrationsTable st; applied = getAppliedMigrations st1
      in migrate_all sql applied (discoverMigrationFiles directory) st1)"

lemma string_cmp_sign: "string_cmp x y = - string_cmp y x"
  by (induction x y rule: string_cmp.induct) simp_all

lemma string_cmp_trans: "string_cmp x y \<le> 0 \<Longrightarrow> string_cmp y z \<le> 0 \<Longrightarrow> string_cmp x z \<le> 0"
proof (induction x y arbitrary: z rule: string_cmp.induct)
  case (2 y ys)
  then show ?case by (cases z) simp_all
next
  case (4 x xs y ys)
  show ?case
  proof (cases z)
    case Nil
    then show ?thesis using 4 by simp
  next
    case (Cons c zs)
    then show ?thesis using "4.prems" "4.IH" [of zs]
      by (cases "code_unit x < code_unit y"; cases "code_unit y < code_unit x";
          cases "code_unit y < code_unit c"; cases "code_unit c < code_unit y"; simp)
  qed
qed simp_all

interpretation names: comparator string_cmp
proof
  show "sgn (string_cmp x y) = - sgn (string_cmp y x)" for x y
    by (subst string_cmp_sign) (simp add: sgn_if)
qed (rule string_cmp_trans)

text \<open>A run applies the files it has not applied before, in order, up to the first that fails.\<close>

lemma migrate_all_spec:
  assumes "migrate_all sql applied files st = ((newly, err), st')"
  shows "mg_applied st' = mg_applied st @ newly \<and> mg_created st' = mg_created st \<and>
    (case err of None \<Rightarrow> newly = filter (\<lambda>f. f \<notin> set applied) files
     | Some (f, e) \<Rightarrow> \<exists>rest. filter (\<lambda>f. f \<notin> set applied) files = newly @ f # rest \<and> sql f (mg_data st') = Inl e)"
  using assms
proof (induction files arbitrary: st newly)
  case (Cons f files)
  show ?case
  proof (cases "f \<in> set applied")
    case True
    then show ?thesis using Cons.IH [of st newly] Cons.prems by (auto split: option.splits)
  next
    case False
    show ?thesis
    proof (cases "sql f (mg_data st)")
      case (Inl e)
      then show ?thesis using Cons.prems False by (auto simp: apply_migration_def)
    next
      case (Inr data)
      let ?st = "st\<lparr>mg_applied := mg_applied st @ [f], mg_data := data\<rparr>"
      obtain ns where "migrate_all sql applied files ?st = ((ns, err), st')" "newly = f # ns"
        using Cons.prems False Inr by (auto simp: apply_migration_def split: prod.splits)
      then show ?thesis using Cons.IH [of ?st ns] False by (auto split: option.splits)
    qed
  qed
qed simp

lemma discover_distinct: "distinct directory \<Longrightarrow> distinct (discoverMigrationFiles directory)"
  by (simp add: discoverMigrationFiles_def)

lemma migrate_nothing: "set files \<subseteq> set applied \<Longrightarrow> migrate_all sql applied files st = (([], None), st)"
  by (induction files) auto

subsection \<open>pool.ts and redis-client.ts\<close>

text \<open>The module variables; a connection is named by the number of those opened before it.\<close>

record connections =
  cn_pool :: "nat option"
  cn_client :: "nat option"
  cn_subscriber :: "nat option"
  cn_opened :: nat

definition getPool :: "connections \<Rightarrow> nat \<times> connections" where
  "getPool c = (case cn_pool c of
       Some p \<Rightarrow> (p, c)
     | None \<Rightarrow> (cn_opened c, c\<lparr>cn_pool := Some (cn_opened c), cn_opened := Suc (cn_opened c)\<rparr>))"

definition closePool :: "connections \<Rightarrow> connections" where
  "closePool c = (if cn_pool c \<noteq> None then c\<lparr>cn_pool := None\<rparr> else c)"

definition getRedisClient :: "connections \<Rightarrow> nat \<times> connections" where
  "getRedisClient c = (case cn_client c of
       Some p \<Rightarrow> (p, c)
     | None \<Rightarrow> (cn_opened c, c\<lparr>cn_client := Some (cn_opened c), cn_opened := Suc (cn_opened c)\<rparr>))"

definition getRedisSubscriber :: "connections \<Rightarrow> nat \<times> connections" where
  "getRedisSubscriber c = (case cn_subscriber c of
       Some p \<Rightarrow> (p, c)
     | None \<Rightarrow> (cn_opened c, c\<lparr>cn_subscriber := Some (cn_opened c), cn_opened := Suc (cn_opened c)\<rparr>))"

definition closeRedis :: "connections \<Rightarrow> connections" where
  "closeRedis c =
     (let c1 = (if cn_client c \<noteq> None then c\<lparr>cn_client := None\<rparr> else c)
      in if cn_subscriber c1 \<noteq> None then c1\<lparr>cn_subscriber := None\<rparr> else c1)"

definition retryStrategy :: "int \<Rightarrow> int" where
  "retryStrategy attempt = min (attempt * 200) 2000"

lemma connection_kept:
  "getPool (snd (getPool c)) = (fst (getPool c), snd (getPool c))"
  "getRedisClient (snd (getRedisClient c)) = (fst (getRedisClient c), snd (getRedisClient c))"
  "getRedisSubscriber (snd (getRedisSubscriber c)) = (fst (getRedisSubscriber c), snd (getRedisSubscriber c))"
  by (simp_all add: getPool_def getRedisClient_def getRedisSubscriber_def split: option.split)

subsection \<open>Properties\<close>



end
