(* ===== verification/Pollers.thy ===== *)
theory Pollers
  imports SlaMonitor
begin

section \<open>The periodic jobs (the \<open>start\<close> and \<open>stop\<close> of five classes)\<close>

text \<open>
  \<open>ScheduleEvaluator\<close> and \<open>OrphanDetector\<close> of the scheduler, \<open>SLAChecker\<close>, \<open>MetricsAggregator\<close> and
  \<open>ExecutorHealthTracker\<close> of the monitor each own the handle of an interval of Node.  The intervals of a
  process are the state \<open>intervals\<close>: \<open>setInterval\<close> adds one under a new handle, \<open>clearInterval\<close> removes
  it.  The aggregator and the tracker also run their job once when they start: their \<open>start\<close> returns the
  jobs run at once beside the state.

  What the five have in common is the locale \<open>poller\<close>; its lemma counts the intervals after any history
  of starts and stops.
\<close>

datatype job = EvaluateSchedules | DetectOrphans | CheckSlas | AggregateMetrics | RefreshHealth

record intervals =
  iv_next :: nat
  iv_active :: "(nat \<times> job \<times> int) list"

definition no_intervals :: intervals where
  "no_intervals = \<lparr>iv_next = 0, iv_active = []\<rparr>"

definition set_interval :: "job \<Rightarrow> int \<Rightarrow> intervals \<Rightarrow> nat \<times> intervals" where
  "set_interval j ms t = (iv_next t, \<lparr>iv_next = Suc (iv_next t), iv_active = iv_active t @ [(iv_next t, j, ms)]\<rparr>)"

definition clear_interval :: "nat \<Rightarrow> intervals \<Rightarrow> intervals" where
  "clear_interval h t = t\<lparr>iv_active := filter (\<lambda>i. fst i \<noteq> h) (iv_active t)\<rparr>"

subsection \<open>The five classes\<close>

definition evaluator_start :: "nat option \<times> intervals \<Rightarrow> nat option \<times> intervals" where
  "evaluator_start st = (let (h, t) = set_interval EvaluateSchedules 5000 (snd st) in (Some h, t))"

definition evaluator_stop :: "nat option \<times> intervals \<Rightarrow> nat option \<times> intervals" where
  "evaluator_stop st = (case fst st of Some h \<Rightarrow> (None, clear_interval h (snd st)) | None \<Rightarrow> st)"

definition detector_start :: "nat option \<times> intervals \<Rightarrow> nat option \<times> intervals" where
  "detector_start st = (let (h, t) = set_interval DetectOrphans 60000 (snd st) in (Some h, t))"

definition detector_stop :: "nat option \<times> intervals \<Rightarrow> nat option \<times> intervals" where
  "detector_stop st = (case fst st of Some h \<Rightarrow> (None, clear_interval h (snd st)) | None \<Rightarrow> st)"

record sla_checker =
  ck_intervalHandle :: "nat option"
  ck_alerted :: alert_memory

definition new_checker :: sla_checker where
  "new_checker = \<lparr>ck_intervalHandle = None, ck_alerted = []\<rparr>"

definition checker_start :: "sla_checker \<times> intervals \<Rightarrow> sla_checker \<times> intervals" where
  "checker_start st = (let (h, t) = set_interval CheckSlas 5000 (snd st) in ((fst st)\<lparr>ck_intervalHandle := Some h\<rparr>, t))"

definition checker_stop :: "sla_checker \<times> intervals \<Rightarrow> sla_checker \<times> intervals" where
  "checker_stop st =
     (let (c, t) = (case ck_intervalHandle (fst st) of
           Some h \<Rightarrow> ((fst st)\<lparr>ck_intervalHandle := None\<rparr>, clear_interval h (snd st)) | None \<Rightarrow> st)
      in (c\<lparr>ck_alerted := []\<rparr>, t))"

definition aggregator_start :: "nat option \<times> intervals \<Rightarrow> job list \<times> (nat option \<times> intervals)" where
  "aggregator_start st = (let (h, t) = set_interval AggregateMetrics 10000 (snd st) in ([AggregateMetrics], (Some h, t)))"

definition aggregator_stop :: "nat option \<times> intervals \<Rightarrow> nat option \<times> intervals" where
  "aggregator_stop st = (case fst st of Some h \<Rightarrow> (None, clear_interval h (snd st)) | None \<Rightarrow> st)"

definition tracker_start :: "nat option \<times> intervals \<Rightarrow> job list \<times> (nat option \<times> intervals)" where
  "tracker_start st = (let (h, t) = set_interval RefreshHealth 10000 (snd st) in ([RefreshHealth], (Some h, t)))"

definition tracker_stop :: "nat option \<times> intervals \<Rightarrow> nat option \<times> intervals" where
  "tracker_stop st = (case fst st of Some h \<Rightarrow> (None, clear_interval h (snd st)) | None \<Rightarrow> st)"

subsection \<open>Histories\<close>

datatype poll_op = StartPolling | StopPolling

fun polled :: "('p \<times> intervals \<Rightarrow> 'p \<times> intervals) \<Rightarrow> ('p \<times> intervals \<Rightarrow> 'p \<times> intervals) \<Rightarrow> poll_op list \<Rightarrow>
    'p \<times> intervals \<Rightarrow> 'p \<times> intervals" where
  "polled start stop [] st = st"
| "polled start stop (StartPolling # ops) st = polled start stop ops (start st)"
| "polled start stop (StopPolling # ops) st = polled start stop ops (stop st)"

text \<open>The starts that find the poller already started.\<close>

fun restarts :: "bool \<Rightarrow> poll_op list \<Rightarrow> nat" where
  "restarts on [] = 0"
| "restarts on (StartPolling # ops) = of_bool on + restarts True ops"
| "restarts on (StopPolling # ops) = restarts False ops"

fun polling :: "bool \<Rightarrow> poll_op list \<Rightarrow> bool" where
  "polling on [] = on"
| "polling on (StartPolling # ops) = polling True ops"
| "polling on (StopPolling # ops) = polling False ops"

locale poller =
  fixes start stop :: "'p \<times> intervals \<Rightarrow> 'p \<times> intervals" and handle :: "'p \<Rightarrow> nat option" and j :: job and ms :: int
  assumes start_sets: "handle (fst (start st)) = Some (fst (set_interval j ms (snd st))) \<and>
      snd (start st) = snd (set_interval j ms (snd st))"
    and stop_clears: "handle (fst (stop st)) = None \<and>
      snd (stop st) = (case handle (fst st) of Some h \<Rightarrow> clear_interval h (snd st) | None \<Rightarrow> snd st)"
begin

text \<open>The handles in use are old ones and different, and the poller's own is one of them.\<close>

definition owned :: "'p \<times> intervals \<Rightarrow> bool" where
  "owned st \<longleftrightarrow> distinct (map fst (iv_active (snd st))) \<and> list_all (\<lambda>i. fst i < iv_next (snd st)) (iv_active (snd st)) \<and>
     (case handle (fst st) of None \<Rightarrow> True | Some h \<Rightarrow> (h, j, ms) \<in> set (iv_active (snd st)))"

lemma start_effect:
  assumes "owned st"
  shows "owned (start st)" "iv_active (snd (start st)) = iv_active (snd st) @ [(iv_next (snd st), j, ms)]"
  using assms start_sets [of st] by (auto simp: owned_def set_interval_def list_all_iff less_Suc_eq)

lemma filter_key: "distinct (map fst xs) \<Longrightarrow> (h, y) \<in> set xs \<Longrightarrow> Suc (length (filter (\<lambda>i. fst i \<noteq> h) xs)) = length xs"
proof (induction xs)
  case (Cons a xs)
  then show ?case
    by (cases "fst a = h") (auto simp: rev_image_eqI intro!: arg_cong [of _ _ length] filter_True)
qed simp

lemma stop_effect:
  assumes "owned st"
  shows "owned (stop st)"
    "length (iv_active (snd (stop st))) + of_bool (handle (fst st) \<noteq> None) = length (iv_active (snd st))"
    "set (iv_active (snd (stop st))) \<subseteq> set (iv_active (snd st))"
  using assms stop_clears [of st] filter_key
  by (auto simp: owned_def clear_interval_def list_all_iff distinct_map_filter split: option.splits)

text \<open>The intervals after a history: those there before, one for each start that found the poller
  started, and the one of the last start.\<close>

lemma history:
  assumes "owned st"
  shows "length (iv_active (snd (polled start stop ops st))) + of_bool (handle (fst st) \<noteq> None) =
      length (iv_active (snd st)) + restarts (handle (fst st) \<noteq> None) ops + of_bool (polling (handle (fst st) \<noteq> None) ops)"
    "owned (polled start stop ops st)" "handle (fst (polled start stop ops st)) \<noteq> None \<longleftrightarrow> polling (handle (fst st) \<noteq> None) ops"
  using assms
proof (induction ops arbitrary: st rule: list.induct)
  case (Cons p ops)
  {
    case 1
    show ?case
      using "1" Cons.IH(1) [of "start st"] Cons.IH(1) [of "stop st"] start_effect [of st] stop_effect [of st]
        start_sets [of st] stop_clears [of st] by (cases p) auto
  next
    case 2
    then show ?case using Cons.IH(2) start_effect(1) stop_effect(1) by (cases p) auto
  next
    case 3
    then show ?case
      using Cons.IH(3) [of "start st"] Cons.IH(3) [of "stop st"] start_effect(1) [of st] stop_effect(1) [of st]
        start_sets [of st] stop_clears [of st] by (cases p) auto
  }
qed auto

lemma fresh_history:
  assumes "handle p = None"
  shows "length (iv_active (snd (polled start stop ops (p, no_intervals)))) = restarts False ops + of_bool (polling False ops)"
  using history(1) [of "(p, no_intervals)" ops] assms by (simp add: owned_def no_intervals_def)

end

interpretation evaluator_poller: poller evaluator_start evaluator_stop id EvaluateSchedules 5000
  by unfold_locales (auto simp: evaluator_start_def evaluator_stop_def case_prod_unfold Let_def split: option.split)

interpretation detector_poller: poller detector_start detector_stop id DetectOrphans 60000
  by unfold_locales (auto simp: detector_start_def detector_stop_def case_prod_unfold Let_def split: option.split)

interpretation checker_poller: poller checker_start checker_stop ck_intervalHandle CheckSlas 5000
  by unfold_locales (auto simp: checker_start_def checker_stop_def case_prod_unfold Let_def split: option.split)

interpretation aggregator_poller: poller "\<lambda>st. snd (aggregator_start st)" aggregator_stop id AggregateMetrics 10000
  by unfold_locales (auto simp: aggregator_start_def aggregator_stop_def case_prod_unfold Let_def split: option.split)

interpretation tracker_poller: poller "\<lambda>st. snd (tracker_start st)" tracker_stop id RefreshHealth 10000
  by unfold_locales (auto simp: tracker_start_def tracker_stop_def case_prod_unfold Let_def split: option.split)

subsection \<open>Properties\<close>

text \<open>
  Each of the five pollers runs its job in one interval while it is started and in none after it is
  stopped, provided it is never started twice in a row: every start that finds it started leaves one more
  interval behind, which no stop ends.
\<close>

theorem poller_intervals:
  "length (iv_active (snd (polled evaluator_start evaluator_stop ops (None, no_intervals)))) =
     restarts False ops + of_bool (polling False ops) \<and>
   length (iv_active (snd (polled detector_start detector_stop ops (None, no_intervals)))) =
     restarts False ops + of_bool (polling False ops) \<and>
   length (iv_active (snd (polled checker_start checker_stop ops (new_checker, no_intervals)))) =
     restarts False ops + of_bool (polling False ops) \<and>
   length (iv_active (snd (polled (\<lambda>st. snd (aggregator_start st)) aggregator_stop ops (None, no_intervals)))) =
     restarts False ops + of_bool (polling False ops) \<and>
   length (iv_active (snd (polled (\<lambda>st. snd (tracker_start st)) tracker_stop ops (None, no_intervals)))) =
     restarts False ops + of_bool (polling False ops)"
  by (simp add: evaluator_poller.fresh_history detector_poller.fresh_history checker_poller.fresh_history
      aggregator_poller.fresh_history tracker_poller.fresh_history new_checker_def)

end
