(* ===== verification/TaskLife.thy ===== *)
theory TaskLife
  imports TaskRunner
begin

section \<open>A task from the queue to its end (task-claimer.ts, task-runner.ts and retry-handler.ts together)\<close>

text \<open>
  \<open>attempt\<close> is one turn of an executor that runs what it claims: a pass of the claimer and, if it has
  claimed a task, a run of the row with that id.  When nobody else takes the lock or touches the task
  while the executor waits (\<open>exclusive\<close>), what a run keeps and frees makes the next turn possible, and
  the task ends after at most ten attempts.
\<close>

definition attempt :: "task_env \<Rightarrow> 's executor_env \<Rightarrow> TaskDefinition \<Rightarrow> 's world \<Rightarrow> (outcome \<times> 's world) option" where
  "attempt T E td w =
     (let (result, (c, s)) = claim_pass (xe_redis E) (wd_claimer w, wd_redis w);
          w1 = w\<lparr>wd_claimer := c, wd_redis := s\<rparr>
      in case result of
           Claimed i \<Rightarrow> (case find_state i (wd_db w1) of Some ts \<Rightarrow> run T E ts td w1 | None \<Rightarrow> Some (Finished, w1))
         | _ \<Rightarrow> Some (Finished, w1))"

fun attempts :: "task_env \<Rightarrow> 's executor_env \<Rightarrow> TaskDefinition \<Rightarrow> nat \<Rightarrow> 's world \<Rightarrow> 's world option" where
  "attempts T E td 0 w = Some w"
| "attempts T E td (Suc n) w =
     (case attempt T E td w of Some (Finished, w') \<Rightarrow> attempts T E td n w' | _ \<Rightarrow> None)"

definition exclusive :: "'s executor_env \<Rightarrow> ('s \<Rightarrow> string \<Rightarrow> string list) \<Rightarrow> ('s \<Rightarrow> string \<Rightarrow> string option) \<Rightarrow> bool" where
  "exclusive E ls lv \<longleftrightarrow> undisturbed E ls \<and> advances E \<and>
     (\<forall>n w k. lv (wd_redis (xe_sleep E n w)) k \<in> {None, lv (wd_redis w) k})"

text \<open>The keys of a task state that no update changes.\<close>

definition state_keys :: "db \<Rightarrow> (string \<times> string \<times> string) list" where
  "state_keys d = map (\<lambda>r. (ts_id r, ts_executionId r, ts_taskDefinitionId r)) (db_states d)"

lemma state_keys_update:
  "(\<And>r. ts_id (f r) = ts_id r \<and> ts_executionId (f r) = ts_executionId r \<and> ts_taskDefinitionId (f r) = ts_taskDefinitionId r) \<Longrightarrow>
     state_keys (wd_db (write_state i f w)) = state_keys (wd_db w)"
  by (simp add: state_keys_def write_state_def set_state_def map_update_rows)

lemma write_state_frame [simp]:
  "wd_claimer (write_state i f w) = wd_claimer w" "wd_redis (write_state i f w) = wd_redis w"
  "wd_now (write_state i f w) = wd_now w" "db_executions (wd_db (write_state i f w)) = db_executions (wd_db w)"
  by (simp_all add: write_state_def set_state_def)

lemma life_step_next:
  assumes "life_step p (Waiting n) l" "case p of None \<Rightarrow> True | Some q \<Rightarrow> valid_policy q" "0 \<le> n"
  shows "case l of Waiting m \<Rightarrow> m = n + 1 \<and> m < 10 | Done st \<Rightarrow> st \<in> {Completed, Failed, TimedOut}"
  using assms(1)
proof cases
  case again
  then obtain q where "p = Some q" "shouldRetry q (n + 1)" by (auto simp: retries_def split: option.splits)
  then show ?thesis using again retry_attempts_bound [of q "n + 1"] assms(2,3) by simp
qed auto

context redis_server
begin

text \<open>While the executor holds the task, and when it has let go of it.\<close>

definition holding :: "string \<Rightarrow> string \<Rightarrow> 's world \<Rightarrow> 's world \<Rightarrow> bool" where
  "holding e i w u \<longleftrightarrow> wd_claimer u = wd_claimer w \<and> owner (wd_redis u) i \<in> {None, Some e} \<and>
     db_executions (wd_db u) = db_executions (wd_db w) \<and> state_keys (wd_db u) = state_keys (wd_db w)"

definition let_go :: "string \<Rightarrow> 's world \<Rightarrow> 's world \<Rightarrow> bool" where
  "let_go i w u \<longleftrightarrow> wd_claimer u = (wd_claimer w)\<lparr>cl_currentTask := None\<rparr> \<and> owner (wd_redis u) i = None \<and>
     db_executions (wd_db u) = db_executions (wd_db w) \<and> state_keys (wd_db u) = state_keys (wd_db w)"

lemma holding_write:
  assumes "holding e i w u"
    and "\<And>r. ts_id (f r) = ts_id r \<and> ts_executionId (f r) = ts_executionId r \<and> ts_taskDefinitionId (f r) = ts_taskDefinitionId r"
  shows "holding e i w (write_state k f u)"
  using assms(1) state_keys_update [of f k u] assms(2) by (simp add: holding_def)

lemma holding_update: "holding e i w u \<Longrightarrow> holding e i w (updateTaskState k st out err u)"
  unfolding updateTaskState_def by (erule holding_write) (simp add: set_clauses_def)

lemma holding_sleep:
  assumes "holding e i w u" "exclusive E lists (live keys now)"
  shows "holding e i w (xe_sleep E n u)"
proof -
  have "wd_db (xe_sleep E n u) = wd_db u \<and> wd_claimer (xe_sleep E n u) = wd_claimer u"
    using assms(2) by (simp add: exclusive_def undisturbed_def)
  moreover have "owner (wd_redis (xe_sleep E n u)) i \<in> {None, owner (wd_redis u) i}"
    using assms(2) by (simp add: exclusive_def)
  ultimately show ?thesis using assms(1) by (auto simp: holding_def)
qed

lemma holding_renew:
  assumes "holding e i w u"
  shows "holding e i w (u\<lparr>wd_redis := snd (renew R i e DEFAULT_TTL_MS (wd_redis u))\<rparr>)"
proof (cases "owner (wd_redis u) i = Some e")
  case True
  have "0 < DEFAULT_TTL_MS" by (simp add: DEFAULT_TTL_MS_def)
  then show ?thesis using assms renew_owner [OF True, of DEFAULT_TTL_MS] by (simp add: holding_def live_def)
next
  case False
  then show ?thesis using assms renew_other [OF False] by (simp add: holding_def)
qed

lemma holding_wait:
  assumes "holding e i w u" "exclusive E lists (live keys now)" "xe_redis E = R" "xe_executorId E = e"
    and "waitWithLockRenewal E i d u = Some u'"
  shows "holding e i w u'"
  using assms(5) unfolding waitWithLockRenewal_def
  by (rule wait_loop_invariant [where P = "holding e i w"])
    (use assms(1-4) holding_sleep holding_renew in auto)

lemma holding_dead_letter:
  assumes "holding e i w u" "insertIntoDLQ E ts err n u = Inr u'"
  shows "holding e i w u'"
  using assms by (auto simp: insertIntoDLQ_def insert_dead_letter_def bindE_Inr holding_def state_keys_def Let_def
      split: if_splits)

lemma released_let_go:
  assumes "holding e i w u" "xe_redis E = R" "cl_currentTask (wd_claimer w) = Some t" "ct_taskStateId t = i"
    and "cl_executorId (wd_claimer w) = e"
  shows "let_go i w (release_current E u)"
proof -
  have c: "cl_currentTask (wd_claimer u) = Some t" "cl_executorId (wd_claimer u) = e"
    using assms(1,3,5) by (simp_all add: holding_def)
  have rc: "release_current E u = u\<lparr>wd_claimer := (wd_claimer u)\<lparr>cl_currentTask := None\<rparr>,
      wd_redis := removeFromProcessing R i (snd (release R i e (wd_redis u)))\<rparr>"
    using c assms(2,4) by (simp add: release_current_def releaseCurrentTask_def case_prod_unfold Let_def)
  have "owner (snd (release R i e (wd_redis u))) i = None"
  proof (cases "owner (wd_redis u) i = Some e")
    case True
    then show ?thesis using release_owner [OF True] by (simp add: live_def)
  next
    case False
    then show ?thesis using assms(1) release_other [OF False] by (simp add: holding_def)
  qed
  then have "owner (removeFromProcessing R i (snd (release R i e (wd_redis u)))) i = None"
    using owner_same [OF queue_keys(5,6)] by simp
  then show ?thesis using assms(1) unfolding let_go_def holding_def rc by simp
qed

lemma retried_let_go:
  assumes "holding e i w u" "xe_redis E = R" "cl_currentTask (wd_claimer w) = Some t" "ct_taskStateId t = i"
    and "cl_executorId (wd_claimer w) = e"
  shows "let_go i w (retry_now E ts err u)"
proof -
  have "holding e i w (write_state (ts_id ts) (\<lambda>r. r\<lparr>ts_status := Pending, ts_error := err\<rparr>) u)"
    by (rule holding_write [OF assms(1)]) simp
  from released_let_go [OF this assms(2-5)]
  show ?thesis using owner_same [OF queue_keys(1,2)] by (simp add: let_go_def retry_now_def Let_def assms(2))
qed

lemma holding_failed: "holding e i w u \<Longrightarrow> holding e i w (transitionToFailed ts err u)"
  by (auto simp: transitionToFailed_def mark_failed_def intro: holding_write)

lemma failure_lets_go:
  assumes "holding e i w u" "exclusive E lists (live keys now)" "xe_redis E = R" "xe_executorId E = e"
    and "cl_currentTask (wd_claimer w) = Some t" "ct_taskStateId t = i" "\<not> ct_aborted t" "cl_executorId (wd_claimer w) = e"
    and "ts_id ts = i" "handleFailure E ts td err u = Some (Finished, w')"
  shows "let_go i w w'"
proof (cases "td_retryPolicy td")
  case None
  then show ?thesis using assms(10) released_let_go [OF holding_failed [OF assms(1)] assms(3,5,6,8)]
    by (auto simp: handleFailure_def)
next
  case (Some p)
  let ?k = "ts_attemptCount ts + 1"
  let ?u = "write_state i (\<lambda>r. r\<lparr>ts_attemptCount := ?k\<rparr>) u"
  have 1: "holding e i w ?u" by (rule holding_write [OF assms(1)]) simp
  show ?thesis
  proof (cases "shouldRetry p ?k")
    case True
    obtain u2 where u2: "waitWithLockRenewal E i (calculateRetryDelay p ?k) ?u = Some u2"
      using assms(9,10) Some True by (auto simp: handleFailure_def Let_def split: option.splits)
    have 2: "holding e i w u2" using holding_wait [OF 1 assms(2-4) u2] .
    then have "\<not> aborted u2" using assms(5,7) by (simp add: holding_def aborted_def isCurrentTaskAborted_def)
    then show ?thesis using assms(9,10) Some True u2 retried_let_go [OF 2 assms(3,5,6,8)]
      by (auto simp: handleFailure_def Let_def)
  next
    case False
    then obtain u2 where u2: "insertIntoDLQ E ts err ?k ?u = Inr u2" "w' = release_current E (transitionToFailed ts err u2)"
      using assms(9,10) Some by (auto simp: handleFailure_def Let_def split: sum.splits)
    then show ?thesis
      using released_let_go [OF holding_failed [OF holding_dead_letter [OF 1 u2(1)]] assms(3,5,6,8)] by simp
  qed
qed

lemma run_lets_go:
  assumes "exclusive E lists (live keys now)" "xe_redis E = R" "xe_executorId E = e"
    and "cl_currentTask (wd_claimer w) = Some t" "ct_taskStateId t = i" "\<not> ct_aborted t" "cl_executorId (wd_claimer w) = e"
    and "owner (wd_redis w) i = Some e" "ts_id ts = i" "ts_status ts = Pending" "run T E ts td w = Some (Finished, w')"
  shows "let_go i w w'"
proof -
  let ?w1 = "updateTaskState i Running None None w"
  have 0: "holding e i w w" using assms(8) by (simp add: holding_def)
  have 1: "holding e i w ?w1" by (rule holding_update [OF 0])
  obtain result d where ex: "executeWithTimeout T (wd_now w) td (timeout_of td) = (result, d)"
    by (cases "executeWithTimeout T (wd_now w) td (timeout_of td)")
  let ?w2 = "xe_sleep E (Fin (of_int d)) ?w1"
  have 2: "holding e i w ?w2" by (rule holding_sleep [OF 1 assms(1)])
  have quiet: "\<not> aborted w" "\<not> aborted ?w2"
    using assms(4,6) 2 by (simp_all add: holding_def aborted_def isCurrentTaskAborted_def)
  have r: "run T E ts td w = (case result of None \<Rightarrow> Some (Finished, handleTimeout E ts ?w2)
      | Some res \<Rightarrow> if tk_success res then Some (Finished, handleSuccess E ts (tk_output res) ?w2)
          else handleFailure E ts td (tk_error res) ?w2)"
    using quiet assms(9,10) by (simp add: run_def ex Let_def split: option.split)
  note go = released_let_go [OF holding_update [OF 2] assms(2,4,5,7)]
  show ?thesis
    using r assms(11) go failure_lets_go [OF 2 assms(1-7) assms(9), of td]
    by (cases result) (auto simp: handleTimeout_def handleSuccess_def assms(9) split: if_splits)
qed

text \<open>What a turn needs, and what it leads to.\<close>

definition ready_for :: "'s executor_env \<Rightarrow> string \<Rightarrow> 's world \<Rightarrow> TaskState \<Rightarrow> bool" where
  "ready_for E i w ts \<longleftrightarrow> find_state i (wd_db w) = Some ts \<and> ts_status ts = Pending \<and> 0 \<le> ts_attemptCount ts \<and>
     ts_executionId ts \<in> ex_id ` set (db_executions (wd_db w)) \<and> cl_currentTask (wd_claimer w) = None \<and>
     0 < cl_lockTtlMs (wd_claimer w) \<and> cl_executorId (wd_claimer w) = xe_executorId E \<and>
     waiting (wd_redis w) = [i] \<and> owner (wd_redis w) i = None"

lemma find_keys:
  "find_state i d = Some r \<Longrightarrow> map_of (state_keys d) i = Some (ts_executionId r, ts_taskDefinitionId r)"
proof -
  have "find (\<lambda>r. ts_id r = i) rows = Some r \<Longrightarrow>
      map_of (map (\<lambda>r. (ts_id r, ts_executionId r, ts_taskDefinitionId r)) rows) i = Some (ts_executionId r, ts_taskDefinitionId r)" for rows
    by (induction rows) (auto split: if_splits)
  then show "find_state i d = Some r \<Longrightarrow> map_of (state_keys d) i = Some (ts_executionId r, ts_taskDefinitionId r)"
    by (simp add: find_state_def state_keys_def)
qed

lemma one_attempt:
  assumes "ready_for E i w ts" "xe_redis E = R" "exclusive E lists (live keys now)" "i \<noteq> []"
    and "case td_retryPolicy td of None \<Rightarrow> True | Some p \<Rightarrow> valid_policy p"
  shows "\<exists>w' ts'. attempt T E td w = Some (Finished, w') \<and> find_state i (wd_db w') = Some ts' \<and>
    life_step (td_retryPolicy td) (life_of ts) (life_of ts') \<and> owner (wd_redis w') i = None \<and>
    (if ts_status ts' = Pending then ready_for E i w' ts' else waiting (wd_redis w') = [])"
proof -
  note ready = assms(1) [unfolded ready_for_def]
  let ?t = "\<lparr>ct_taskStateId = i, ct_renewing = True, ct_aborted = False\<rparr>"
  let ?c = "(wd_claimer w)\<lparr>cl_currentTask := Some ?t\<rparr>"
  obtain s where cl: "claim_pass R (wd_claimer w, wd_redis w) = (Claimed i, (?c, s))" "waiting s = []"
      "keys s = (keys (wd_redis w))(lock_key i \<mapsto> (xe_executorId E, now (wd_redis w) + cl_lockTtlMs (wd_claimer w)))"
      "now s = now (wd_redis w)"
    using claim_pass_next [of "wd_claimer w" "wd_redis w" i "[]"] ready assms(4) by auto
  let ?w = "w\<lparr>wd_claimer := ?c, wd_redis := s\<rparr>"
  have own: "owner (wd_redis ?w) i = Some (xe_executorId E)" using cl(3,4) ready by (simp add: live_def)
  have at: "attempt T E td w = run T E ts td ?w" using ready by (simp add: attempt_def assms(2) cl(1))
  have w: "cl_currentTask (wd_claimer ?w) = Some ?t" "find_state i (wd_db ?w) = Some ts"
      "ts_executionId ts \<in> ex_id ` set (db_executions (wd_db ?w))" "cl_executorId (wd_claimer ?w) = xe_executorId E"
    using ready by simp_all
  have quiet: "undisturbed E lists" "advances E" using assms(3) by (simp_all add: exclusive_def)
  have "\<exists>w' ts'. run T E ts td ?w = Some (Finished, w') \<and> find_state i (wd_db w') = Some ts' \<and>
      life_step (td_retryPolicy td) (life_of ts) (life_of ts') \<and>
      waiting (wd_redis w') = (if ts_status ts' = Pending then [i] else [])"
  proof -
    have p: "ct_taskStateId ?t = i" "\<not> ct_aborted ?t" "ts_status ts = Pending" "0 \<le> ts_attemptCount ts" "waiting (wd_redis ?w) = []"
      using ready cl(2) by simp_all
    show ?thesis using run_life [OF assms(2) w(1) p(1,2) quiet w(2) p(3) w(3) assms(5) p(4), of T]
      unfolding p(5) append_Nil by blast
  qed
  then obtain w' ts' where r: "run T E ts td ?w = Some (Finished, w')" "find_state i (wd_db w') = Some ts'"
      "life_step (td_retryPolicy td) (life_of ts) (life_of ts')"
      "waiting (wd_redis w') = (if ts_status ts' = Pending then [i] else [])"
    by blast
  have "ts_id ts = i" using find_state_in [OF w(2)] by simp
  then have go: "let_go i ?w w'"
    using run_lets_go [OF assms(3,2) refl w(1) _ _ w(4) own _ _ r(1)] ready by simp
  have "0 \<le> ts_attemptCount ts'" if "ts_status ts' = Pending"
    using r(3) ready that by (auto simp: life_of_def elim: life_stepE)
  moreover have "ts_executionId ts' = ts_executionId ts"
    using go find_keys [OF r(2)] find_keys [OF w(2)] by (simp add: let_go_def)
  ultimately have "ready_for E i w' ts'" if "ts_status ts' = Pending"
    using r go ready that by (simp add: ready_for_def let_go_def)
  then show ?thesis using at r go by (auto simp: let_go_def)
qed

lemma all_attempts:
  assumes "xe_redis E = R" "exclusive E lists (live keys now)" "i \<noteq> []"
    and "case td_retryPolicy td of None \<Rightarrow> True | Some p \<Rightarrow> valid_policy p"
  shows "ready_for E i w ts \<Longrightarrow> ts_attemptCount ts < 10 \<Longrightarrow>
    \<exists>n w' ts'. n \<le> nat (10 - ts_attemptCount ts) \<and> attempts T E td n w = Some w' \<and> find_state i (wd_db w') = Some ts' \<and>
      ts_status ts' \<in> {Completed, Failed, TimedOut} \<and> owner (wd_redis w') i = None \<and> waiting (wd_redis w') = []"
proof (induction "nat (10 - ts_attemptCount ts)" arbitrary: w ts)
  case 0
  then show ?case by simp
next
  case (Suc k)
  have ts: "ts_status ts = Pending" "0 \<le> ts_attemptCount ts" using Suc.prems(1) by (simp_all add: ready_for_def)
  obtain w' ts' where a: "attempt T E td w = Some (Finished, w')" "find_state i (wd_db w') = Some ts'"
      "life_step (td_retryPolicy td) (life_of ts) (life_of ts')" "owner (wd_redis w') i = None"
      "if ts_status ts' = Pending then ready_for E i w' ts' else waiting (wd_redis w') = []"
    using one_attempt [OF Suc.prems(1) assms] by blast
  have "life_of ts = Waiting (ts_attemptCount ts)" by (simp add: life_of_def ts)
  note nxt = life_step_next [OF a(3) [unfolded this] assms(4) ts(2)]
  show ?case
  proof (cases "ts_status ts' = Pending")
    case True
    have count: "ts_attemptCount ts' = ts_attemptCount ts + 1" "ts_attemptCount ts' < 10"
      using nxt ts True by (simp_all add: life_of_def)
    have "k = nat (10 - ts_attemptCount ts')" using Suc.hyps(2) count by simp
    from Suc.hyps(1) [OF this, of w'] a(5) True count obtain n w2 ts2 where
      "n \<le> nat (10 - ts_attemptCount ts')" "attempts T E td n w' = Some w2" "find_state i (wd_db w2) = Some ts2"
      "ts_status ts2 \<in> {Completed, Failed, TimedOut}" "owner (wd_redis w2) i = None" "waiting (wd_redis w2) = []"
      by auto
    then show ?thesis using a(1) count(1) Suc.prems(2)
      by (intro exI [of _ "Suc n"] exI [of _ w2] exI [of _ ts2]) simp
  next
    case False
    then have "ts_status ts' \<in> {Completed, Failed, TimedOut}" using nxt ts by (simp add: life_of_def)
    then show ?thesis using a False Suc.prems(2)
      by (intro exI [of _ 1] exI [of _ w'] exI [of _ ts']) simp
  qed
qed

end

subsection \<open>Properties\<close>


definition queued_world :: "mem_server world" where
  "queued_world = \<lparr>wd_db = wd_db (sample_world (failing_state Pending 0)), wd_redis = enqueue mem_redis ''t'' empty_server,
     wd_claimer = new_claimer ''e1'' None, wd_now = 100\<rparr>"


end
