(* ===== verification/Platform.thy ===== *)
theory Platform
  imports TaskRunner WorkflowController SchedulerServices MetricsService
begin

section \<open>The services on one database\<close>

text \<open>
  The services share the database and interleave at its statements and transactions, which are atomic;
  \<open>db_statement\<close> is one of them.  Handlers and executors change the tables by such statements only, so
  what every statement keeps holds at every moment, whatever the services do at the same time.
\<close>

inductive db_statement :: "(nat \<Rightarrow> string) \<Rightarrow> db \<Rightarrow> db \<Rightarrow> bool" for gen :: "nat \<Rightarrow> string" where
  st_workflow_create: "workflow_create gen now w d = Inr (r, d') \<Longrightarrow> db_statement gen d d'"
| st_workflow_update: "workflow_update gen now i w d = Inr (r, d') \<Longrightarrow> db_statement gen d d'"
| st_workflow_delete: "workflow_delete i d = Inr (r, d') \<Longrightarrow> db_statement gen d d'"
| st_execution: "insert_execution row d = Inr (r, d') \<Longrightarrow> ex_id row = next_id gen d \<Longrightarrow> db_statement gen d d'"
| st_execution_update: "(\<And>r. ex_id (f r) = ex_id r \<and> ex_workflowId (f r) = ex_workflowId r) \<Longrightarrow>
    db_statement gen d (d\<lparr>db_executions := update_rows p f (db_executions d)\<rparr>)"
| st_state: "insert_state gen e t d = Inr (r, d') \<Longrightarrow> db_statement gen d d'"
| st_state_update: "(\<And>r. ts_id (g r) = ts_id r \<and> ts_executionId (g r) = ts_executionId r \<and>
      ts_taskDefinitionId (g r) = ts_taskDefinitionId r) \<Longrightarrow> db_statement gen d (set_state i g d)"
| st_audit: "createAuditEntry gen now i a b d = Inr d' \<Longrightarrow> db_statement gen d d'"
| st_dead_letter: "insert_dead_letter gen now i x err n d = Inr (q, d') \<Longrightarrow> db_statement gen d d'"
| st_schedule: "schedule_create gen now s d = Inr (c, d') \<Longrightarrow> db_statement gen d d'"
| st_schedule_update: "(\<And>r. sc_id (h r) = sc_id r \<and> sc_workflowId (h r) = sc_workflowId r \<and>
      sc_cronExpr (h r) = sc_cronExpr r \<and> sc_intervalMs (h r) = sc_intervalMs r) \<Longrightarrow>
    db_statement gen d (set_schedules p' h d)"
| st_webhook: "webhook_create gen now i secret active d = Inr (v, d') \<Longrightarrow> db_statement gen d d'"
| st_webhook_update: "db_statement gen d (d\<lparr>db_webhooks := update_rows p'' (\<lambda>r. r\<lparr>wh_active := active\<rparr>) (db_webhooks d)\<rparr>)"
| st_webhook_delete: "db_statement gen d (snd (webhook_delete i d))"
| st_sla: "sla_create gen i a' b' d = Inr (l, d') \<Longrightarrow> db_statement gen d d'"
| st_alert: "createAlert gen now al d = Inr (q', d') \<Longrightarrow> db_statement gen d d'"
| st_resolve: "db_statement gen d (resolve now i d)"

abbreviation db_run :: "(nat \<Rightarrow> string) \<Rightarrow> db \<Rightarrow> db \<Rightarrow> bool" where
  "db_run gen \<equiv> (db_statement gen)\<^sup>*\<^sup>*"

lemma db_run_one [intro]: "db_statement gen d d' \<Longrightarrow> db_run gen d d'"
  by (rule r_into_rtranclp)

lemma db_run_then: "db_run gen d d1 \<Longrightarrow> db_statement gen d1 d2 \<Longrightarrow> db_run gen d d2"
  by (rule rtranclp.rtrancl_into_rtrancl)

subsection \<open>Every statement keeps the schema\<close>

lemma executions_update_schema:
  assumes "schema_ok gen d" "\<And>r. ex_id (f r) = ex_id r \<and> ex_workflowId (f r) = ex_workflowId r"
  shows "schema_ok gen (d\<lparr>db_executions := update_rows p f (db_executions d)\<rparr>)"
  by (rule schema_update [OF assms(1)])
    (use assms(2) schema_checks [OF assms(1)] in \<open>simp_all add: table_defs map_update_rows\<close>)

lemma webhooks_update_schema:
  assumes "schema_ok gen d"
  shows "schema_ok gen (d\<lparr>db_webhooks := update_rows p (\<lambda>r. r\<lparr>wh_active := active\<rparr>) (db_webhooks d)\<rparr>)"
  by (rule schema_update [OF assms])
    (use schema_checks [OF assms] in \<open>simp_all add: table_defs map_update_rows\<close>)

lemma statement_schema:
  assumes "inj gen" "schema_ok gen d" "db_statement gen d d'"
  shows "schema_ok gen d'"
  using assms(3)
proof cases
  case (st_schedule_update h p')
  then show ?thesis using set_schedules_schema [OF assms(2), of h p'] by (simp add: schedule_ok_def)
qed (use assms(2) in \<open>auto intro: workflow_create_schema [OF assms(1)] workflow_update_schema [OF assms(1)]
  workflow_delete_schema insert_execution_schema [OF assms(1)] executions_update_schema
  insert_state_schema [OF assms(1)] set_state_schema createAuditEntry_schema [OF assms(1)]
  insert_dead_letter_schema [OF assms(1)] schedule_create_schema [OF assms(1)]
  webhook_create_schema [OF assms(1)] webhooks_update_schema webhook_delete_schema
  sla_create_schema [OF assms(1)] createAlert_schema [OF assms(1)] resolve_schema\<close>)

lemma run_schema: "db_run gen d d' \<Longrightarrow> inj gen \<Longrightarrow> schema_ok gen d \<Longrightarrow> schema_ok gen d'"
  by (induction rule: rtranclp_induct) (auto intro: statement_schema)

subsection \<open>Handlers act by statements\<close>

lemma createWorkflow_run: "db_run gen d (snd (createWorkflow pg_text gen now body d))"
  by (auto simp: createWorkflow_def split: sum.split prod.split intro: st_workflow_create)

lemma updateWorkflow_run: "db_run gen d (snd (updateWorkflow pg_text gen now i body d))"
  by (auto simp: updateWorkflow_def split: sum.split prod.split option.split intro: st_workflow_update)

lemma deleteWorkflow_run: "db_run gen d (snd (deleteWorkflow i d))"
  by (auto simp: deleteWorkflow_def split: sum.split prod.split intro: st_workflow_delete)

lemma set_execution_statement:
  "(\<And>r. ex_id (f r) = ex_id r \<and> ex_workflowId (f r) = ex_workflowId r) \<Longrightarrow> db_statement gen d (set_execution i f d)"
  unfolding set_execution_def by (rule st_execution_update)

lemma execution_updateStatus_statement: "db_statement gen d (snd (execution_updateStatus now i s t d))"
  by (auto simp: execution_updateStatus_def Let_def intro!: set_execution_statement)

lemma state_updateStatus_statement: "db_statement gen d (snd (state_updateStatus now i s out err d))"
  by (auto simp: state_updateStatus_def Let_def intro!: st_state_update)

lemma each_run:
  assumes "each f xs d = Inr (rs, d')" "\<And>x d r d'. f x d = Inr (r, d') \<Longrightarrow> db_run gen d d'"
  shows "db_run gen d d'"
  using each_invariant [OF assms(1), of "db_run gen d"] assms(2) by (meson rtranclp.rtrancl_refl rtranclp_trans)

lemma createBatch_run: "createBatch gen e ts d = Inr (rs, d') \<Longrightarrow> db_run gen d d'"
  unfolding createBatch_def by (erule each_run) (auto intro: st_state)

lemma execution_create_statement:
  "execution_create gen now i input d = Inr (r, d') \<Longrightarrow> db_statement gen d d'"
  by (auto simp: execution_create_def bindE_Inr intro: st_execution)

lemma execute_run: "db_run gen d (fst (snd (execute gen now R i input (d, s))))"
proof (cases "workflow_findById i d")
  case (Some wk)
  show ?thesis
  proof (cases "execution_create gen now i input d")
    case (Inr x)
    obtain ex d1 where x: "x = (ex, d1)" by (cases x)
    have 1: "db_run gen d d1" using execution_create_statement Inr x by blast
    show ?thesis
    proof (cases "createBatch gen (ex_id ex) (wf_taskDefinitions wk) d1")
      case Inl
      then show ?thesis using Some Inr x 1 by (simp add: execute_def)
    next
      case b: (Inr y)
      obtain tss d2 where y: "y = (tss, d2)" by (cases y)
      have "db_run gen d d2" using 1 createBatch_run b y by (meson rtranclp_trans)
      then have "db_run gen d (snd (execution_updateStatus now (ex_id ex) ExRunning (Some now) d2))"
        using execution_updateStatus_statement db_run_then by blast
      then show ?thesis using Some Inr x b y by (simp add: execute_def Let_def case_prod_unfold)
    qed
  qed (simp add: execute_def Some)
qed (simp add: execute_def)

lemma cancel_pending_run: "db_run gen d (cancel_pending now tss d)"
proof (induction tss arbitrary: d)
  case (Cons ts tss)
  let ?d = "if ts_status ts = Pending then snd (state_updateStatus now (ts_id ts) Cancelled None None d) else d"
  have "db_run gen d ?d" by (auto intro: state_updateStatus_statement)
  moreover have "cancel_pending now (ts # tss) d = cancel_pending now tss ?d" by (simp add: cancel_pending_def)
  ultimately show ?case using Cons.IH [of ?d] by simp
qed (simp add: cancel_pending_def)

lemma cancel_run: "db_run gen d (snd (cancel now i d))"
proof -
  have "db_run gen d (cancel_pending now tss (snd (execution_updateStatus now i ExCancelled (Some now) d)))" for tss
    using execution_updateStatus_statement cancel_pending_run by (meson converse_rtranclp_into_rtranclp)
  then show ?thesis by (auto simp: cancel_def Let_def split: option.split prod.split)
qed

lemma createSchedule_run: "db_run gen d (snd (createSchedule gen tz now req d))"
  by (auto simp: createSchedule_def split: sum.split prod.split option.split intro: st_schedule)

lemma toggleSchedule_run: "db_run gen d (snd (toggleSchedule i active d))"
  by (auto simp: toggleSchedule_def setActive_def Let_def split: option.split intro!: st_schedule_update)

lemma start_tasks_run: "db_run gen (fst st) (fst (snd (start_tasks gen R e ts st)))"
proof (induction ts arbitrary: st)
  case (Cons t ts)
  show ?case
  proof (cases "insert_state gen e t (fst st)")
    case (Inr x)
    obtain row d where x: "x = (row, d)" by (cases x)
    have "db_statement gen (fst st) d" using Inr x by (auto intro: st_state)
    then show ?thesis using Cons.IH [of "(d, enqueue R (ts_id row) (snd st))"] Inr x
      by (simp add: converse_rtranclp_into_rtranclp)
  qed simp
qed simp

lemma fire_schedule_run: "db_run gen (fst st) (fst (fire_schedule gen tz now hostNow R r st))"
proof -
  obtain d s where st: "st = (d, s)" by (cases st)
  show ?thesis
  proof (cases "insert_execution
      \<lparr>ex_id = next_id gen d, ex_workflowId = sc_workflowId r, ex_status = ExPending, ex_input = None,
       ex_startedAt = Some now, ex_completedAt = None, ex_createdAt = now\<rparr> d")
    case (Inr x)
    obtain ex d1 where x: "x = (ex, d1)" by (cases x)
    have "db_statement gen d d1" using st_execution [OF Inr [unfolded x]] by simp
    then have 2: "db_run gen d (fst (snd (start_tasks gen R (ex_id ex)
        (map tr_id (filter (\<lambda>q. tr_workflowId q = sc_workflowId r) (db_tasks d1))) (d1, s))))"
      using start_tasks_run [of gen "(d1, s)"] by (metis converse_rtranclp_into_rtranclp fst_conv)
    have 3: "db_run gen d (set_execution i (\<lambda>q. q\<lparr>ex_status := ExRunning\<rparr>) d2)" if "db_run gen d d2" for i d2
      using that by (rule db_run_then) (rule set_execution_statement, simp)
    have 4: "db_run gen d (set_schedules p (\<lambda>q. q\<lparr>sc_lastRunAt := a, sc_nextRunAt := b\<rparr>) d2)" if "db_run gen d d2" for p a b d2
      using that by (rule db_run_then) (rule st_schedule_update, simp)
    show ?thesis using 2 by (auto simp: fire_schedule_def st Inr x Let_def intro!: 3 4 split: option.split prod.split sum.split)
  qed (simp add: fire_schedule_def st)
qed

lemma evaluate_run: "db_run gen (fst st) (fst (evaluate gen tz now hostNow R st))"
proof -
  have "db_run gen (fst st) (fst (fold (fire_schedule gen tz now hostNow R) rs st))" for rs
  proof (induction rs arbitrary: st)
    case (Cons r rs)
    then show ?case using fire_schedule_run [of gen st tz now hostNow R r] by (simp add: rtranclp_trans)
  qed simp
  then show ?thesis by (simp add: evaluate_def)
qed

lemma removeTrigger_run: "db_run gen d (removeTrigger w d)"
proof -
  have "db_run gen d (d\<lparr>db_webhooks := update_rows (\<lambda>r. wh_workflowId r = w) (\<lambda>r. r\<lparr>wh_active := False\<rparr>) (db_webhooks d)\<rparr>)"
    by (rule db_run_one) (rule st_webhook_update)
  then show ?thesis unfolding removeTrigger_def Let_def by (rule db_run_then) (rule st_schedule_update, simp)
qed

lemma completion_run: "db_run gen d (checkExecutionCompletion now i d)"
  by (auto simp: checkExecutionCompletion_def Let_def intro!: st_execution_update)

lemma check_rows_run:
  assumes "check_rows (check_row gen now hostNow m) rows st = (r, st')"
  shows "db_run gen (snd st) (snd st')"
proof (rule check_rows_invariant [OF assms, of "\<lambda>s. db_run gen (snd st) (snd s)"])
  fix row s s'
  assume run: "db_run gen (snd st) (snd s)" and row: "check_row gen now hostNow m row s = Inr s'"
  have "db_run gen (snd s) (snd s')" using row
    by (cases row) (auto simp: check_row_def raise_alert_def bindE_Inr Let_def split: option.splits if_splits dest!: st_alert)
  then show "db_run gen (snd st) (snd s')" using run by simp
qed simp

lemma sla_check_run: "db_run gen (snd st) (snd (snd (sla_check gen now hostNow st)))"
proof -
  obtain r st' where c: "check_rows (check_row gen now hostNow (sla_map (sla_findAll (snd st))))
      (monitored (sla_map (sla_findAll (snd st))) (snd st)) st = (r, st')" by (metis surj_pair)
  show ?thesis using check_rows_run [OF c] c by (auto simp: sla_check_def Let_def split: option.split prod.split)
qed

lemma detect_run: "fst (snd (detect claimed_at now R (d, s))) = d"
  by (auto simp: detect_def orphan_statements_fail Let_def split: prod.split)

lemma updateTaskState_statement: "db_statement gen (wd_db w) (wd_db (updateTaskState i st out err w))"
  by (auto simp: updateTaskState_def write_state_def set_clauses_def intro!: st_state_update)

lemma mark_failed_statement: "db_statement gen (wd_db w) (wd_db (mark_failed i st err w))"
  by (auto simp: mark_failed_def write_state_def intro!: st_state_update)

lemma insertIntoDLQ_statement:
  "insertIntoDLQ E ts err n w = Inr w' \<Longrightarrow> db_statement (xe_gen E) (wd_db w) (wd_db w')"
  by (auto simp: insertIntoDLQ_def bindE_Inr intro: st_dead_letter)

lemma retry_now_statement: "db_statement gen (wd_db w) (wd_db (retry_now E ts err w))"
  by (auto simp: retry_now_def Let_def) (auto simp: write_state_def intro!: st_state_update)

lemma write_attempt_statement:
  "db_statement gen (wd_db w) (wd_db (write_state i (\<lambda>r. r\<lparr>ts_attemptCount := n\<rparr>) w))"
  by (auto simp: write_state_def intro!: st_state_update)

subsection \<open>Executors act by statements, whatever happens while they wait\<close>

definition orderly :: "'s executor_env \<Rightarrow> bool" where
  "orderly E \<longleftrightarrow> (\<forall>n w. db_run (xe_gen E) (wd_db w) (wd_db (xe_sleep E n w)))"

lemma wait_run:
  assumes "orderly E" "waitWithLockRenewal E i d w = Some w'"
  shows "db_run (xe_gen E) (wd_db w) (wd_db w')"
  using assms(2) unfolding waitWithLockRenewal_def
proof (rule wait_loop_invariant [where P = "\<lambda>u. db_run (xe_gen E) (wd_db w) (wd_db u)"])
  fix n and u :: "'a world"
  assume "db_run (xe_gen E) (wd_db w) (wd_db u)"
  then show "db_run (xe_gen E) (wd_db w) (wd_db (xe_sleep E n u))"
    using assms(1) by (simp add: orderly_def rtranclp_trans)
qed simp_all

lemma transitionToFailed_run: "db_run gen (wd_db w) (wd_db (transitionToFailed ts err w))"
  by (auto simp: transitionToFailed_def intro: mark_failed_statement)

lemma handleFailure_run:
  assumes "orderly E" "handleFailure E ts td err w = Some (out, w')"
  shows "db_run (xe_gen E) (wd_db w) (wd_db w')"
proof (cases "td_retryPolicy td")
  case None
  then show ?thesis using assms(2) transitionToFailed_run by (auto simp: handleFailure_def)
next
  case (Some p)
  let ?k = "ts_attemptCount ts + 1"
  let ?w1 = "write_state (ts_id ts) (\<lambda>r. r\<lparr>ts_attemptCount := ?k\<rparr>) w"
  have 1: "db_run (xe_gen E) (wd_db w) (wd_db ?w1)" using write_attempt_statement by blast
  show ?thesis
  proof (cases "shouldRetry p ?k")
    case True
    obtain w2 where w2: "waitWithLockRenewal E (ts_id ts) (calculateRetryDelay p ?k) ?w1 = Some w2"
      using assms(2) Some True by (auto simp: handleFailure_def Let_def split: option.splits)
    have 2: "db_run (xe_gen E) (wd_db w) (wd_db w2)" using 1 wait_run [OF assms(1) w2] by simp
    have "wd_db w' = wd_db w2 \<or> wd_db w' = wd_db (retry_now E ts err w2)"
      using assms(2) Some True w2 by (auto simp: handleFailure_def Let_def clear_current_def split: if_splits)
    then show ?thesis using 2 retry_now_statement db_run_then by metis
  next
    case False
    show ?thesis
    proof (cases "insertIntoDLQ E ts err ?k ?w1")
      case Inl
      then show ?thesis using assms(2) Some False 1 by (auto simp: handleFailure_def Let_def)
    next
      case (Inr w2)
      have "db_run (xe_gen E) (wd_db w) (wd_db w2)" using 1 insertIntoDLQ_statement [OF Inr] by (rule db_run_then)
      then have "db_run (xe_gen E) (wd_db w) (wd_db (transitionToFailed ts err w2))"
        using transitionToFailed_run by (rule rtranclp_trans)
      then show ?thesis using assms(2) Some False Inr by (auto simp: handleFailure_def Let_def)
    qed
  qed
qed

lemma run_run:
  assumes "orderly E" "run T E ts td w = Some (out, w')"
  shows "db_run (xe_gen E) (wd_db w) (wd_db w')"
proof -
  let ?w1 = "updateTaskState (ts_id ts) Running None None w"
  obtain result t where ex: "executeWithTimeout T (wd_now ?w1) td (timeout_of td) = (result, t)"
    by (cases "executeWithTimeout T (wd_now ?w1) td (timeout_of td)")
  let ?w2 = "xe_sleep E (Fin (of_int t)) ?w1"
  have 1: "db_run (xe_gen E) (wd_db w) (wd_db ?w1)" using updateTaskState_statement by blast
  have 2: "db_run (xe_gen E) (wd_db w) (wd_db ?w2)"
    using 1 assms(1) unfolding orderly_def by (meson rtranclp_trans)
  have 3: "db_run (xe_gen E) (wd_db w) (wd_db (updateTaskState i st out' err ?w2))" for i st out' err
    using 2 updateTaskState_statement by (rule db_run_then)
  have 4: "db_run (xe_gen E) (wd_db w) (wd_db w')" if "handleFailure E ts td err ?w2 = Some (out, w')" for err
    using 2 handleFailure_run [OF assms(1) that] by (rule rtranclp_trans)
  show ?thesis
  proof (cases "ts_status ts = Pending")
    case True
    show ?thesis
    proof (cases "aborted ?w1")
      case a: True
      then show ?thesis using assms(2) True 1 by (auto simp: run_def Let_def clear_current_def)
    next
      case a: False
      show ?thesis
      proof (cases result)
        case None
        then show ?thesis using assms(2) True a ex 3 by (auto simp: run_def Let_def handleTimeout_def)
      next
        case (Some res)
        then show ?thesis using assms(2) True a ex 2 3 4
          by (auto simp: run_def Let_def handleSuccess_def clear_current_def split: if_splits)
      qed
    qed
  next
    case False
    then obtain e where "transition (wd_now w) (ts_status ts) Running (ts_id ts) = TransitionError e"
      using other_to_running by blast
    then show ?thesis using assms(2) by (auto simp: run_def Let_def)
  qed
qed

subsection \<open>From a request to the first attempt\<close>

lemma filter_rows_nonempty:
  assumes "map f rows = map g xs" "x \<in> set xs" "P (g x)"
  shows "filter (\<lambda>r. P (f r)) rows \<noteq> []"
proof -
  have "g x \<in> f ` set rows" using assms(1,2) by (metis image_eqI list.set_map)
  then show ?thesis using assms(3) by (auto simp: filter_empty_conv)
qed

lemma find_key: "distinct (map f xs) \<Longrightarrow> x \<in> set xs \<Longrightarrow> find (\<lambda>y. f y = f x) xs = Some x"
  by (induction xs) auto

lemma find_state_unique:
  assumes "schema_ok gen d" "r \<in> set (db_states d)"
  shows "find_state (ts_id r) d = Some r"
proof -
  have "distinct (map ts_id (db_states d))" using assms(1) by (simp add: schema_ok_def ids_of_def)
  then show ?thesis using assms(2)
    unfolding find_state_def using find_key by fastforce
qed

lemma state_id_drawn: "schema_ok gen d \<Longrightarrow> r \<in> set (db_states d) \<Longrightarrow> ts_id r \<in> range gen"
  by (auto simp: schema_ok_def ids_of_def)

context redis_server
begin

lemma enqueued_keys:
  "keys (fold (\<lambda>x. enqueue R (f x)) xs s) = keys s" "now (fold (\<lambda>x. enqueue R (f x)) xs s) = now s"
  by (induction xs arbitrary: s) (simp_all add: queue_keys)

text \<open>The next id of the queue, free, is claimed by an idle executor, and its run is one step of its life.\<close>

lemma claimed_then_run:
  assumes "xe_redis E = R" "undisturbed E lists" "advances E"
    and "cl_currentTask c = None" "0 < cl_lockTtlMs c" "waiting s = i # is" "i \<noteq> []" "owner s i = None"
    and "find_state i d = Some ts" "ts_status ts = Pending" "0 \<le> ts_attemptCount ts"
    and "ts_executionId ts \<in> ex_id ` set (db_executions d)"
    and "case td_retryPolicy td of None \<Rightarrow> True | Some p \<Rightarrow> valid_policy p"
  shows "\<exists>c' s' w' ts'. claim_pass R (c, s) = (Claimed i, (c', s')) \<and>
    run T E ts td \<lparr>wd_db = d, wd_redis = s', wd_claimer = c', wd_now = n\<rparr> = Some (Finished, w') \<and>
    find_state i (wd_db w') = Some ts' \<and> life_step (td_retryPolicy td) (life_of ts) (life_of ts') \<and>
    cl_currentTask (wd_claimer w') = None \<and> processing (wd_redis w') = processing s \<and>
    waiting (wd_redis w') = is @ (if ts_status ts' = Pending then [i] else [])"
proof -
  obtain c' s' where cl: "claim_pass R (c, s) = (Claimed i, (c', s'))"
      "c' = c\<lparr>cl_currentTask := Some \<lparr>ct_taskStateId = i, ct_renewing = True, ct_aborted = False\<rparr>\<rparr>"
      "waiting s' = is" "processing s' = i # processing s"
    using claim_pass_next [OF assms(4,6,7,5)] assms(8) by auto
  let ?w = "\<lparr>wd_db = d, wd_redis = s', wd_claimer = c', wd_now = n\<rparr>"
  have "cl_currentTask (wd_claimer ?w) = Some \<lparr>ct_taskStateId = i, ct_renewing = True, ct_aborted = False\<rparr>"
    by (simp add: cl(2))
  from run_life [OF assms(1) this _ _ assms(2,3), of i ts td T] assms(9-13) cl show ?thesis by auto
qed

end

lemma first_root_queued:
  assumes "redis_server R ls ks nw" "inj gen" "schema_ok gen d" "workflow_findById i d = Some wk"
    and "x \<in> set (wf_taskDefinitions wk)" "tr_id x \<notin> targetTaskId ` set (wf_edges wk)" "ls s TASK_QUEUE_KEY = []"
    and "execute gen now R i input (d, s) = (r, (d1, s1))"
  shows "\<exists>ts (rest :: TaskState list). find_state (ts_id ts) d1 = Some ts \<and> ts_id ts \<in> range gen \<and>
    ts_executionId ts \<in> ex_id ` set (db_executions d1) \<and> ts_status ts = Pending \<and> ts_attemptCount ts = 0 \<and>
    ts_taskDefinitionId ts \<in> tr_id ` set (wf_taskDefinitions wk) - targetTaskId ` set (wf_edges wk) \<and>
    rev (ls s1 TASK_QUEUE_KEY) = ts_id ts # map ts_id rest \<and> ts_id ts \<notin> set (map ts_id rest) \<and>
    live ks nw s1 = live ks nw s"
proof -
  let ?root = "\<lambda>k. k \<notin> targetTaskId ` set (wf_edges wk)"
  from execute_effect [OF assms(2-4), of now input R s] assms(8) obtain ex rows where
    d1: "d1 = d\<lparr>db_executions := db_executions d @ [ex], db_states := db_states d @ rows,
        db_drawn := Suc (db_drawn d) + length (wf_taskDefinitions wk)\<rparr>"
    and s1: "s1 = fold (\<lambda>r. enqueue R (ts_id r)) (filter (\<lambda>r. ?root (ts_taskDefinitionId r)) rows) s"
    and rows: "map ts_taskDefinitionId rows = map tr_id (wf_taskDefinitions wk)"
      "\<forall>r \<in> set rows. ts_executionId r = ex_id ex \<and> ts_status r = Pending \<and> ts_attemptCount r = 0"
    by auto
  obtain ts rest where roots: "filter (\<lambda>r. ?root (ts_taskDefinitionId r)) rows = ts # rest"
    using filter_rows_nonempty [OF rows(1) assms(5), of ?root] assms(6) by (meson neq_Nil_conv)
  then have "ts \<in> set (filter (\<lambda>r. ?root (ts_taskDefinitionId r)) rows)" by simp
  then have ts: "ts \<in> set rows" "?root (ts_taskDefinitionId ts)" by simp_all
  have ok: "schema_ok gen d1" using execute_schema [OF assms(2,3,8)] .
  have in1: "ts \<in> set (db_states d1)" using ts(1) by (simp add: d1)
  have "distinct (map ts_id (filter (\<lambda>r. ?root (ts_taskDefinitionId r)) rows))"
    using ok by (simp add: schema_ok_def ids_of_def d1 distinct_map_filter)
  then have "ts_id ts \<notin> set (map ts_id rest)" by (simp add: roots)
  moreover have "ts_taskDefinitionId ts \<in> tr_id ` set (wf_taskDefinitions wk) - targetTaskId ` set (wf_edges wk)"
    using ts rows(1) by (metis Diff_iff image_eqI list.set_map)
  moreover have "rev (ls s1 TASK_QUEUE_KEY) = ts_id ts # map ts_id rest"
    using redis_lists.enqueue_all [OF redis_server.axioms(1) [OF assms(1)], of ts_id "ts # rest" s] assms(7)
    by (simp add: s1 roots del: fold_simps)
  moreover have "live ks nw s1 = live ks nw s"
    unfolding live_def s1 redis_server.enqueued_keys [OF assms(1)] ..
  moreover have "ts_executionId ts \<in> ex_id ` set (db_executions d1) \<and> ts_status ts = Pending \<and> ts_attemptCount ts = 0"
    using rows(2) ts(1) by (simp add: d1)
  ultimately show ?thesis
    using find_state_unique [OF ok in1] state_id_drawn [OF ok in1] by blast
qed

subsection \<open>Properties\<close>






definition named_gen :: "nat \<Rightarrow> string" where
  "named_gen n = sample_gen (Suc n)"

definition two_tasks_db :: db where
  "two_tasks_db = snd (createWorkflow (\<lambda>_. []) named_gen 5 (sample_body [''a'', ''b''] []) empty_db)"

lemma named_gen_facts: "inj named_gen" "[] \<notin> range named_gen" "schema_ok named_gen two_tasks_db"
proof -
  show i: "inj named_gen" using inj_sample_gen by (auto simp: named_gen_def intro!: injI dest: injD)
  show "[] \<notin> range named_gen" by (auto simp: named_gen_def sample_gen_def)
  show "schema_ok named_gen two_tasks_db"
    unfolding two_tasks_db_def by (rule run_schema [OF createWorkflow_run i schema_ok_empty])
qed


end
