(* ===== verification/WorkflowRun.thy ===== *)
theory WorkflowRun
  imports TaskLife FanOutFanIn DagReachability SchedulerServices
begin

section \<open>The tasks of a workflow on many executors\<close>

text \<open>
  Any number of executors work on the tasks of one execution, in any order.  A configuration holds the
  task states, the definitions of completed tasks whose successors have not been looked at yet, and the
  server.  The steps are those of the sources: a pass of the claimer takes the next id under its lock, or
  puts it back when somebody else processes it (\<open>task-claimer.ts\<close>); the runner marks the task
  running, or lets go of one that is not pending, and ends it with a step of its life
  (\<open>task-runner.ts\<close>, \<open>retry-handler.ts\<close>, see \<open>run_steps\<close>); after a completion
  \<open>evaluateDownstream\<close> adds what has become ready (\<open>fan-out-fan-in.ts\<close>).  The executors keep their
  locks, so the id of a task that is processed stands for its lock, and an attempt ends in one step.
  Nothing in the sources calls \<open>evaluateDownstream\<close>: that each completion is followed by a call, at any
  later time, is assumed here about the missing wiring.
\<close>

record 's wf_config =
  wc_rows :: "TaskState list"
  wc_due :: "string list"
  wc_server :: 's

definition same_task :: "TaskState \<Rightarrow> TaskState \<Rightarrow> bool" where
  "same_task r r' \<longleftrightarrow> ts_id r' = ts_id r \<and> ts_executionId r' = ts_executionId r \<and>
     ts_taskDefinitionId r' = ts_taskDefinitionId r"

definition set_row :: "TaskState \<Rightarrow> TaskState list \<Rightarrow> TaskState list" where
  "set_row r' rows = update_rows (\<lambda>q. ts_id q = ts_id r') (\<lambda>_. r') rows"

inductive wf_work :: "'s redis \<Rightarrow> (string \<Rightarrow> jsval \<Rightarrow> bool option) \<Rightarrow> Edge list \<Rightarrow> (string \<Rightarrow> RetryPolicy option) \<Rightarrow>
    's wf_config \<Rightarrow> 's wf_config \<Rightarrow> bool"
  for R js_eval edges pol where
  take_task: "claim R s = (Some i, s') \<Longrightarrow> i \<notin> set (getProcessingList R s) \<Longrightarrow>
     wf_work R js_eval edges pol \<lparr>wc_rows = rows, wc_due = due, wc_server = s\<rparr>
       \<lparr>wc_rows = rows, wc_due = due, wc_server = s'\<rparr>"
| begin_task: "ts_id r \<in> set (getProcessingList R s) \<Longrightarrow> r \<in> set rows \<Longrightarrow> ts_status r = Pending \<Longrightarrow>
     same_task r r' \<Longrightarrow> ts_status r' = Running \<Longrightarrow> ts_attemptCount r' = ts_attemptCount r \<Longrightarrow>
     wf_work R js_eval edges pol \<lparr>wc_rows = rows, wc_due = due, wc_server = s\<rparr>
       \<lparr>wc_rows = set_row r' rows, wc_due = due, wc_server = s\<rparr>"
| refuse_task: "ts_id r \<in> set (getProcessingList R s) \<Longrightarrow> r \<in> set rows \<Longrightarrow> ts_status r \<notin> {Pending, Running} \<Longrightarrow>
     wf_work R js_eval edges pol \<lparr>wc_rows = rows, wc_due = due, wc_server = s\<rparr>
       \<lparr>wc_rows = rows, wc_due = due, wc_server = removeFromProcessing R (ts_id r) s\<rparr>"
| finish_task: "ts_id r \<in> set (getProcessingList R s) \<Longrightarrow> r \<in> set rows \<Longrightarrow> ts_status r = Running \<Longrightarrow>
     same_task r r' \<Longrightarrow> life_step (pol (ts_taskDefinitionId r)) (Waiting (ts_attemptCount r)) (life_of r') \<Longrightarrow>
     wf_work R js_eval edges pol \<lparr>wc_rows = rows, wc_due = due, wc_server = s\<rparr>
       \<lparr>wc_rows = set_row r' rows,
        wc_due = (if ts_status r' = Completed then ts_taskDefinitionId r # due else due),
        wc_server = (if ts_status r' = Pending then enqueue R (ts_id r) (removeFromProcessing R (ts_id r) s)
                     else removeFromProcessing R (ts_id r) s)\<rparr>"
| look_downstream: "r \<in> set rows \<Longrightarrow> ts_taskDefinitionId r \<in> set due \<Longrightarrow>
     wf_work R js_eval edges pol \<lparr>wc_rows = rows, wc_due = due, wc_server = s\<rparr>
       \<lparr>wc_rows = rows, wc_due = remove1 (ts_taskDefinitionId r) due,
        wc_server = fan_store (evaluateDownstream R js_eval n (ts_id r) (ts_taskDefinitionId r) (ts_executionId r) edges rows s)\<rparr>"

inductive_cases wf_workE: "wf_work R js_eval edges pol c c'"

text \<open>A pass that meets a locked task gives it back.\<close>

inductive wf_bounce :: "'s redis \<Rightarrow> 's wf_config \<Rightarrow> 's wf_config \<Rightarrow> bool" for R where
  bounce: "claim R s = (Some i, s') \<Longrightarrow> i \<in> set (getProcessingList R s) \<Longrightarrow>
     wf_bounce R \<lparr>wc_rows = rows, wc_due = due, wc_server = s\<rparr>
       \<lparr>wc_rows = rows, wc_due = due, wc_server = requeue R i s'\<rparr>"

inductive_cases wf_bounceE: "wf_bounce R c c'"

text \<open>A run with its number of working steps.\<close>

inductive wf_run :: "'s redis \<Rightarrow> (string \<Rightarrow> jsval \<Rightarrow> bool option) \<Rightarrow> Edge list \<Rightarrow> (string \<Rightarrow> RetryPolicy option) \<Rightarrow>
    nat \<Rightarrow> 's wf_config \<Rightarrow> 's wf_config \<Rightarrow> bool"
  for R js_eval edges pol where
  run_none: "wf_run R js_eval edges pol 0 c c"
| run_work: "wf_run R js_eval edges pol n c c1 \<Longrightarrow> wf_work R js_eval edges pol c1 c2 \<Longrightarrow> wf_run R js_eval edges pol (Suc n) c c2"
| run_bounce: "wf_run R js_eval edges pol n c c1 \<Longrightarrow> wf_bounce R c1 c2 \<Longrightarrow> wf_run R js_eval edges pol n c c2"

text \<open>What has to be done before a task, and the configurations an execution can be in.\<close>

definition completed_def :: "TaskState list \<Rightarrow> string \<Rightarrow> bool" where
  "completed_def rows d \<longleftrightarrow> (\<exists>r \<in> set rows. ts_taskDefinitionId r = d \<and> ts_status r = Completed)"

definition upstream_done :: "Edge list \<Rightarrow> TaskState list \<Rightarrow> string \<Rightarrow> bool" where
  "upstream_done edges rows d \<longleftrightarrow> (\<forall>u. (u, d) \<in> edge_rel edges \<longrightarrow> completed_def rows u)"

definition rows_ok :: "Edge list \<Rightarrow> TaskState list \<Rightarrow> bool" where
  "rows_ok edges rows \<longleftrightarrow> distinct (map ts_id rows) \<and> distinct (map ts_taskDefinitionId rows) \<and>
     edge_rel edges \<subseteq> (ts_taskDefinitionId ` set rows) \<times> (ts_taskDefinitionId ` set rows) \<and>
     (\<forall>r \<in> set rows. ts_status r \<in> {Pending, Running, Completed, Failed, TimedOut} \<and>
        (ts_status r \<in> {Pending, Running} \<longrightarrow> 0 \<le> ts_attemptCount r \<and> ts_attemptCount r < 10) \<and>
        (ts_status r \<noteq> Pending \<longrightarrow> upstream_done edges rows (ts_taskDefinitionId r)))"

definition work_ok :: "Edge list \<Rightarrow> TaskState list \<Rightarrow> string list \<Rightarrow> string set \<Rightarrow> string set \<Rightarrow> bool" where
  "work_ok edges rows due waiting taken \<longleftrightarrow>
     (\<forall>d \<in> set due. completed_def rows d) \<and> waiting \<union> taken \<subseteq> ts_id ` set rows \<and>
     (\<forall>r \<in> set rows. (ts_id r \<in> waiting \<union> taken \<longrightarrow> upstream_done edges rows (ts_taskDefinitionId r)) \<and>
        (ts_status r = Running \<longrightarrow> ts_id r \<in> taken) \<and>
        (ts_status r = Pending \<longrightarrow> upstream_done edges rows (ts_taskDefinitionId r) \<longrightarrow>
           ts_id r \<in> waiting \<union> taken \<or> (\<exists>u \<in> set due. (u, ts_taskDefinitionId r) \<in> edge_rel edges)))"

lemma work_okI:
  assumes "\<And>d. d \<in> set due \<Longrightarrow> completed_def rows d" "waiting \<union> taken \<subseteq> ts_id ` set rows"
    and "\<And>r. r \<in> set rows \<Longrightarrow> ts_id r \<in> waiting \<union> taken \<Longrightarrow> upstream_done edges rows (ts_taskDefinitionId r)"
    and "\<And>r. r \<in> set rows \<Longrightarrow> ts_status r = Running \<Longrightarrow> ts_id r \<in> taken"
    and "\<And>r. r \<in> set rows \<Longrightarrow> ts_status r = Pending \<Longrightarrow> upstream_done edges rows (ts_taskDefinitionId r) \<Longrightarrow>
      ts_id r \<in> waiting \<union> taken \<or> (\<exists>u \<in> set due. (u, ts_taskDefinitionId r) \<in> edge_rel edges)"
  shows "work_ok edges rows due waiting taken"
  using assms by (simp add: work_ok_def)

subsection \<open>One row changes\<close>

lemma set_row_other: "q \<in> set rows \<Longrightarrow> ts_id q \<noteq> ts_id r' \<Longrightarrow> q \<in> set (set_row r' rows)"
  by (simp add: set_row_def set_update_rows)

lemma in_set_row: "q \<in> set (set_row r' rows) \<longleftrightarrow>
    q = r' \<and> ts_id r' \<in> ts_id ` set rows \<or> q \<in> set rows \<and> ts_id q \<noteq> ts_id r'"
proof -
  have "q \<in> (\<lambda>_. r') ` {p \<in> set rows. ts_id p = ts_id r'} \<longleftrightarrow> q = r' \<and> (\<exists>p \<in> set rows. ts_id p = ts_id r')" by blast
  also have "\<dots> \<longleftrightarrow> q = r' \<and> ts_id r' \<in> ts_id ` set rows" by (metis image_iff)
  finally show ?thesis by (simp add: set_row_def set_update_rows)
qed

lemma set_row_maps:
  assumes "distinct (map ts_id rows)" "r \<in> set rows" "same_task r r'"
  shows "map ts_id (set_row r' rows) = map ts_id rows"
    "map ts_taskDefinitionId (set_row r' rows) = map ts_taskDefinitionId rows"
    "map ts_executionId (set_row r' rows) = map ts_executionId rows"
  using key_unique [OF assms(1) _ assms(2)] assms(3) unfolding set_row_def update_rows_def same_task_def by auto

lemma set_row_sum:
  fixes f :: "TaskState \<Rightarrow> nat"
  assumes "distinct (map ts_id rows)" "r \<in> set rows" "ts_id r' = ts_id r"
  shows "sum_list (map f (set_row r' rows)) + f r = sum_list (map f rows) + f r'"
  using assms
proof (induction rows)
  case (Cons q rows)
  show ?case
  proof (cases "q = r")
    case True
    then have "x \<in> set rows \<Longrightarrow> ts_id x \<noteq> ts_id r" for x
      using Cons.prems(1) True by (metis distinct.simps(2) image_eqI list.set_map list.simps(9))
    then have "set_row r' (q # rows) = r' # rows"
      using Cons.prems(3) True by (auto simp: set_row_def update_rows_def intro!: map_idI)
    then show ?thesis using True by simp
  next
    case False
    then have "set_row r' (q # rows) = q # set_row r' rows"
      using Cons.prems by (auto simp: set_row_def update_rows_def)
    then show ?thesis using Cons False by auto
  qed
qed simp

lemma completed_set_row:
  assumes "distinct (map ts_id rows)" "r \<in> set rows" "same_task r r'" "ts_status r \<noteq> Completed"
  shows "completed_def (set_row r' rows) d \<longleftrightarrow>
    completed_def rows d \<or> d = ts_taskDefinitionId r \<and> ts_status r' = Completed"
  using key_unique [OF assms(1) _ assms(2)] assms(2-4) unfolding completed_def_def Bex_def in_set_row same_task_def
  by (auto simp: image_iff)

lemma upstream_grows:
  "(\<And>d. completed_def rows d \<Longrightarrow> completed_def rows' d) \<Longrightarrow> upstream_done edges rows d \<Longrightarrow> upstream_done edges rows' d"
  by (auto simp: upstream_done_def)

lemma rows_ok_set_row:
  assumes "rows_ok edges rows" "r \<in> set rows" "same_task r r'" "ts_status r \<in> {Pending, Running}"
    and "ts_status r' \<in> {Pending, Running, Completed, Failed, TimedOut}"
    and "ts_status r' \<in> {Pending, Running} \<Longrightarrow> 0 \<le> ts_attemptCount r' \<and> ts_attemptCount r' < 10"
    and "upstream_done edges rows (ts_taskDefinitionId r)"
  shows "rows_ok edges (set_row r' rows)"
proof -
  note ok = assms(1) [unfolded rows_ok_def]
  have dist: "distinct (map ts_id rows)" using ok by blast
  note maps = set_row_maps [OF dist assms(2,3)]
  have grows: "completed_def (set_row r' rows) d" if "completed_def rows d" for d
    using completed_set_row [OF dist assms(2,3)] assms(4) that by auto
  have row: "ts_status q \<in> {Pending, Running, Completed, Failed, TimedOut} \<and>
      (ts_status q \<in> {Pending, Running} \<longrightarrow> 0 \<le> ts_attemptCount q \<and> ts_attemptCount q < 10) \<and>
      (ts_status q \<noteq> Pending \<longrightarrow> upstream_done edges (set_row r' rows) (ts_taskDefinitionId q))"
    if "q \<in> set (set_row r' rows)" for q
  proof (cases "q = r'")
    case True
    then show ?thesis using assms(3,5,6) upstream_grows [OF grows assms(7)] by (simp add: same_task_def)
  next
    case False
    then show ?thesis using that ok upstream_grows [OF grows] by (auto simp: in_set_row)
  qed
  have "ts_taskDefinitionId ` set (set_row r' rows) = ts_taskDefinitionId ` set rows"
    using maps(2) by (metis list.set_map)
  then show ?thesis using ok row unfolding rows_ok_def maps by blast
qed

lemma work_ok_set_row:
  assumes "rows_ok edges rows" "work_ok edges rows due waiting taken" "r \<in> set rows" "same_task r r'"
    and "ts_status r \<in> {Pending, Running}" "ts_id r \<in> taken"
    and "waiting' \<union> taken' \<subseteq> waiting \<union> taken" "waiting \<union> taken - {ts_id r} \<subseteq> waiting' \<union> taken'" "taken - {ts_id r} \<subseteq> taken'"
    and "ts_status r' = Pending \<Longrightarrow> ts_id r \<in> waiting'" "ts_status r' = Running \<Longrightarrow> ts_id r \<in> taken'"
    and "due' = (if ts_status r' = Completed then ts_taskDefinitionId r # due else due)"
  shows "work_ok edges (set_row r' rows) due' waiting' taken'"
proof (rule work_okI)
  note ok = assms(2) [unfolded work_ok_def]
  have dist: "distinct (map ts_id rows)" using assms(1) by (simp add: rows_ok_def)
  note maps = set_row_maps [OF dist assms(3,4)]
  note done_iff = completed_set_row [OF dist assms(3,4)]
  have ids: "ts_id r' = ts_id r" "ts_taskDefinitionId r' = ts_taskDefinitionId r" using assms(4) by (simp_all add: same_task_def)
  have grows: "completed_def (set_row r' rows) d" if "completed_def rows d" for d using done_iff assms(5) that by auto
  show "completed_def (set_row r' rows) d" if "d \<in> set due'" for d
    using that ok assms(12) done_iff assms(5) by (auto split: if_splits)
  have "ts_id ` set (set_row r' rows) = ts_id ` set rows" using maps(1) by (metis list.set_map)
  then show "waiting' \<union> taken' \<subseteq> ts_id ` set (set_row r' rows)" using ok assms(7) by auto
  fix q assume q: "q \<in> set (set_row r' rows)"
  obtain p where p: "p \<in> set rows" "ts_id q = ts_id p" "ts_taskDefinitionId q = ts_taskDefinitionId p" "q = p \<or> p = r \<and> q = r'"
    using q ids assms(3) by (auto simp: in_set_row)
  show "upstream_done edges (set_row r' rows) (ts_taskDefinitionId q)" if "ts_id q \<in> waiting' \<union> taken'"
    using that p ok assms(7) upstream_grows [OF grows] by auto
  show "ts_id q \<in> taken'" if "ts_status q = Running"
    using that q ok assms(9,11) ids by (auto simp: in_set_row)
  show "ts_id q \<in> waiting' \<union> taken' \<or> (\<exists>u \<in> set due'. (u, ts_taskDefinitionId q) \<in> edge_rel edges)"
    if pending: "ts_status q = Pending" "upstream_done edges (set_row r' rows) (ts_taskDefinitionId q)"
  proof (cases "q = r'")
    case True
    then show ?thesis using assms(10) pending ids by auto
  next
    case False
    then have old: "q \<in> set rows" "ts_id q \<noteq> ts_id r" using q ids by (simp_all add: in_set_row)
    show ?thesis
    proof (cases "upstream_done edges rows (ts_taskDefinitionId q)")
      case True
      then show ?thesis using ok old pending(1) assms(8,12) by auto
    next
      case False
      then obtain u where u: "(u, ts_taskDefinitionId q) \<in> edge_rel edges" "\<not> completed_def rows u"
        by (auto simp: upstream_done_def)
      then have "completed_def (set_row r' rows) u" using pending(2) by (auto simp: upstream_done_def)
      then show ?thesis using u done_iff assms(5,12) by auto
    qed
  qed
qed

lemma work_ok_server:
  assumes "work_ok edges rows due waiting taken" "waiting' \<union> taken' \<subseteq> waiting \<union> taken"
    and "\<And>r. r \<in> set rows \<Longrightarrow> ts_status r = Pending \<Longrightarrow> ts_id r \<in> waiting \<union> taken \<Longrightarrow> ts_id r \<in> waiting' \<union> taken'"
    and "\<And>r. r \<in> set rows \<Longrightarrow> ts_status r = Running \<Longrightarrow> ts_id r \<in> taken \<Longrightarrow> ts_id r \<in> taken'"
  shows "work_ok edges rows due waiting' taken'"
proof (rule work_okI)
  note ok = assms(1) [unfolded work_ok_def]
  show "waiting' \<union> taken' \<subseteq> ts_id ` set rows" using ok assms(2) by blast
  fix r assume r: "r \<in> set rows"
  show "upstream_done edges rows (ts_taskDefinitionId r)" if "ts_id r \<in> waiting' \<union> taken'"
    using that r ok assms(2) by blast
  show "ts_id r \<in> taken'" if "ts_status r = Running" using that r ok assms(4) by blast
  show "ts_id r \<in> waiting' \<union> taken' \<or> (\<exists>u \<in> set due. (u, ts_taskDefinitionId r) \<in> edge_rel edges)"
    if "ts_status r = Pending" "upstream_done edges rows (ts_taskDefinitionId r)"
    using that r ok assms(3) by blast
qed (use assms(1) in \<open>simp add: work_ok_def\<close>)

subsection \<open>Successors are looked at\<close>

lemma state_map_lookup:
  "distinct (map ts_taskDefinitionId rows) \<Longrightarrow>
     map_of (state_map rows) d = find (\<lambda>r. ts_taskDefinitionId r = d) rows"
proof -
  have "map_of (fold (\<lambda>ts. AList.update (ts_taskDefinitionId ts) ts) rows m) d =
      (case find (\<lambda>r. ts_taskDefinitionId r = d) rows of Some r \<Rightarrow> Some r | None \<Rightarrow> map_of m d)"
    if "distinct (map ts_taskDefinitionId rows)" for m :: state_map
    using that
  proof (induction rows arbitrary: m)
    case (Cons q rows)
    have "find (\<lambda>r. ts_taskDefinitionId r = ts_taskDefinitionId q) rows = None"
      using Cons.prems by (auto simp: find_None_iff) (metis image_eqI)
    then show ?case using Cons by (auto simp: update_conv' split: option.split)
  qed simp
  then show "distinct (map ts_taskDefinitionId rows) \<Longrightarrow>
     map_of (state_map rows) d = find (\<lambda>r. ts_taskDefinitionId r = d) rows"
    by (simp add: state_map_def split: option.split)
qed

lemma find_def:
  assumes "distinct (map ts_taskDefinitionId rows)" "r \<in> set rows"
  shows "find (\<lambda>q. ts_taskDefinitionId q = ts_taskDefinitionId r) rows = Some r"
  using assms by (induction rows) (auto simp: image_iff)

lemma status_in_rows:
  assumes "distinct (map ts_taskDefinitionId rows)"
  shows "status_in sts (state_map rows) d \<longleftrightarrow> (\<exists>r \<in> set rows. ts_taskDefinitionId r = d \<and> ts_status r \<in> set sts)"
proof (cases "find (\<lambda>r. ts_taskDefinitionId r = d) rows")
  case None
  then have "\<forall>r \<in> set rows. ts_taskDefinitionId r \<noteq> d" by (auto simp: find_None_iff)
  then show ?thesis by (simp add: status_in_def state_map_lookup [OF assms] None)
next
  case (Some q)
  then have q: "q \<in> set rows" "ts_taskDefinitionId q = d" by (auto simp: find_Some_iff)
  have "r = q" if "r \<in> set rows" "ts_taskDefinitionId r = d" for r
    using key_unique [OF assms that(1) q(1)] that(2) q(2) by simp
  moreover have "status_in sts (state_map rows) d \<longleftrightarrow> ts_status q \<in> set sts"
    by (simp add: status_in_def state_map_lookup [OF assms] Some)
  ultimately show ?thesis using q by blast
qed

lemma ready_upstream:
  assumes "rows_ok edges rows" "(t, d) \<in> edge_rel edges"
  shows "ready edges (state_map rows) d \<longleftrightarrow> upstream_done edges rows d"
proof -
  have dist: "distinct (map ts_taskDefinitionId rows)" using assms(1) by (simp add: rows_ok_def)
  have "status_in [Completed, Skipped] (state_map rows) u \<longleftrightarrow> completed_def rows u"
    "status_in [Completed] (state_map rows) u \<longleftrightarrow> completed_def rows u" for u
    using assms(1) by (auto simp: status_in_rows [OF dist] completed_def_def rows_ok_def)
  then have "ready edges (state_map rows) d \<longleftrightarrow>
      (\<forall>e \<in> set edges. targetTaskId e = d \<longrightarrow> completed_def rows (sourceTaskId e)) \<and>
      (\<exists>e \<in> set edges. targetTaskId e = d \<and> completed_def rows (sourceTaskId e))"
    by (auto simp: ready_def allSatisfied_def atLeastOneCompleted_def list_all_iff list_ex_iff incoming_def)
  also have "(\<forall>e \<in> set edges. targetTaskId e = d \<longrightarrow> completed_def rows (sourceTaskId e)) \<longleftrightarrow> upstream_done edges rows d"
    by (auto simp: upstream_done_def edge_rel_def)
  finally show ?thesis using assms(2) by (auto simp: upstream_done_def edge_rel_def)
qed

definition unconditional :: "Edge list \<Rightarrow> bool" where
  "unconditional edges \<longleftrightarrow> list_all (\<lambda>e. \<not> truthy_str (conditionExpr e)) edges"

definition fan_ids :: "Edge list \<Rightarrow> TaskState list \<Rightarrow> string \<Rightarrow> string list" where
  "fan_ids edges rows t = concat (map (\<lambda>e. case map_of (state_map rows) (targetTaskId e) of
      Some ts \<Rightarrow> if ts_status ts = Pending \<and> ready edges (state_map rows) (targetTaskId e) then [ts_id ts] else []
    | None \<Rightarrow> []) (outgoing edges t))"

lemma fan_ids_length: "length (fan_ids edges rows t) \<le> length (outgoing edges t)"
proof -
  have "length (concat (map f es)) \<le> length es" if "\<And>e. length (f e) \<le> 1" for f :: "Edge \<Rightarrow> string list" and es
  proof (induction es)
    case (Cons e es)
    then show ?case using that [of e] by simp
  qed simp
  then show ?thesis unfolding fan_ids_def by (simp split: option.split)
qed

lemma fan_ids_set:
  assumes "rows_ok edges rows"
  shows "i \<in> set (fan_ids edges rows t) \<longleftrightarrow> (\<exists>r \<in> set rows. ts_id r = i \<and> ts_status r = Pending \<and>
    (t, ts_taskDefinitionId r) \<in> edge_rel edges \<and> upstream_done edges rows (ts_taskDefinitionId r))"
proof
  have dist: "distinct (map ts_taskDefinitionId rows)" using assms by (simp add: rows_ok_def)
  { assume "i \<in> set (fan_ids edges rows t)"
    then obtain e where "e \<in> set edges" "sourceTaskId e = t" and x: "i \<in> set (case map_of (state_map rows) (targetTaskId e) of
      Some ts \<Rightarrow> if ts_status ts = Pending \<and> ready edges (state_map rows) (targetTaskId e) then [ts_id ts] else []
    | None \<Rightarrow> [])"
      by (auto simp: fan_ids_def outgoing_def)
    moreover from x obtain ts where "find (\<lambda>r. ts_taskDefinitionId r = targetTaskId e) rows = Some ts"
      "ts_status ts = Pending" "ready edges (state_map rows) (targetTaskId e)" "ts_id ts = i"
      unfolding state_map_lookup [OF dist]
      by (cases "find (\<lambda>r. ts_taskDefinitionId r = targetTaskId e) rows") (auto split: if_splits)
    ultimately obtain e ts where e: "e \<in> set edges" "sourceTaskId e = t" "find (\<lambda>r. ts_taskDefinitionId r = targetTaskId e) rows = Some ts"
      "ts_status ts = Pending" "ready edges (state_map rows) (targetTaskId e)" "ts_id ts = i"
      by blast
    then have "ts \<in> set rows" "ts_taskDefinitionId ts = targetTaskId e" by (auto simp: find_Some_iff)
    moreover have "(t, targetTaskId e) \<in> edge_rel edges" using e(1,2) by (auto simp: edge_rel_def)
    ultimately show "\<exists>r \<in> set rows. ts_id r = i \<and> ts_status r = Pending \<and>
        (t, ts_taskDefinitionId r) \<in> edge_rel edges \<and> upstream_done edges rows (ts_taskDefinitionId r)"
      using e ready_upstream [OF assms] by auto }
  assume "\<exists>r \<in> set rows. ts_id r = i \<and> ts_status r = Pending \<and>
    (t, ts_taskDefinitionId r) \<in> edge_rel edges \<and> upstream_done edges rows (ts_taskDefinitionId r)"
  then obtain r e where r: "r \<in> set rows" "ts_id r = i" "ts_status r = Pending" "upstream_done edges rows (ts_taskDefinitionId r)"
    "e \<in> set edges" "sourceTaskId e = t" "targetTaskId e = ts_taskDefinitionId r" by (auto simp: edge_rel_def)
  moreover have "ready edges (state_map rows) (targetTaskId e)"
    using r ready_upstream [OF assms, of t "targetTaskId e"] by (force simp: edge_rel_def)
  ultimately show "i \<in> set (fan_ids edges rows t)"
    using find_def [OF dist r(1)] unfolding fan_ids_def
    by (auto simp: outgoing_def state_map_lookup [OF dist] intro!: bexI [of _ e])
qed

lemma work_ok_look:
  assumes "rows_ok edges rows" "work_ok edges rows due waiting taken"
  shows "work_ok edges rows (remove1 t due) (waiting \<union> set (fan_ids edges rows t)) taken"
proof (rule work_okI)
  note ok = assms(2) [unfolded work_ok_def]
  note fan = fan_ids_set [OF assms(1), of _ t]
  show "completed_def rows d" if "d \<in> set (remove1 t due)" for d
    using that ok notin_set_remove1 [of d due t] by blast
  show "waiting \<union> set (fan_ids edges rows t) \<union> taken \<subseteq> ts_id ` set rows" using ok fan by auto
  fix r assume r: "r \<in> set rows"
  have dist: "distinct (map ts_id rows)" using assms(1) by (simp add: rows_ok_def)
  show "upstream_done edges rows (ts_taskDefinitionId r)" if "ts_id r \<in> waiting \<union> set (fan_ids edges rows t) \<union> taken"
  proof (cases "ts_id r \<in> set (fan_ids edges rows t)")
    case True
    then obtain q where "q \<in> set rows" "ts_id q = ts_id r" "upstream_done edges rows (ts_taskDefinitionId q)"
      using fan by blast
    then show ?thesis using key_unique [OF dist _ r, of q] by simp
  qed (use that r ok in blast)
  show "ts_id r \<in> taken" if "ts_status r = Running" using that r ok by blast
  show "ts_id r \<in> waiting \<union> set (fan_ids edges rows t) \<union> taken \<or>
      (\<exists>u \<in> set (remove1 t due). (u, ts_taskDefinitionId r) \<in> edge_rel edges)"
    if p: "ts_status r = Pending" "upstream_done edges rows (ts_taskDefinitionId r)"
  proof (cases "(t, ts_taskDefinitionId r) \<in> edge_rel edges")
    case True
    then show ?thesis using p r fan by blast
  next
    case False
    then show ?thesis using p r ok by (metis UnCI UnE in_set_remove1)
  qed
qed

subsection \<open>The steps on the server\<close>

definition policies_ok :: "(string \<Rightarrow> RetryPolicy option) \<Rightarrow> bool" where
  "policies_ok pol \<longleftrightarrow> (\<forall>d. case pol d of None \<Rightarrow> True | Some q \<Rightarrow> valid_policy q)"

definition task_cost :: "Edge list \<Rightarrow> TaskState \<Rightarrow> nat" where
  "task_cost edges r =
     (let end_cost = 1 + 2 * length (outgoing edges (ts_taskDefinitionId r)) + 3 * nat (9 - ts_attemptCount r)
      in case ts_status r of Pending \<Rightarrow> end_cost + 1 | Running \<Rightarrow> end_cost | _ \<Rightarrow> 0)"

definition due_cost :: "Edge list \<Rightarrow> string list \<Rightarrow> nat" where
  "due_cost edges due = sum_list (map (\<lambda>t. 1 + 2 * length (outgoing edges t)) due)"

lemma due_cost_remove: "t \<in> set due \<Longrightarrow>
    due_cost edges (remove1 t due) + (1 + 2 * length (outgoing edges t)) = due_cost edges due"
  by (induction due) (auto simp: due_cost_def)

lemma remove1_keeps: "y \<in> set xs \<Longrightarrow> y \<notin> set (remove1 x xs) \<Longrightarrow> y = x"
  by (metis in_set_remove1)

context redis_lists
begin

definition queued :: "'s \<Rightarrow> string list" where "queued s = rev (lists s TASK_QUEUE_KEY)"
definition taken :: "'s \<Rightarrow> string list" where "taken s = lists s TASK_PROCESSING_KEY"

lemma claim_some:
  assumes "claim R s = (Some i, s')"
  shows "queued s = i # queued s'" "taken s' = i # taken s"
proof -
  obtain j rest where "rev (lists s TASK_QUEUE_KEY) = j # rest"
    using wq.take_none [of s] assms by (cases "rev (lists s TASK_QUEUE_KEY)") auto
  then show "queued s = i # queued s'" "taken s' = i # taken s"
    using wq.take_first [of s j rest] assms by (simp_all add: queued_def taken_def)
qed

lemma server_steps [simp]:
  "queued (enqueue R i s) = queued s @ [i]" "taken (enqueue R i s) = taken s"
  "queued (requeue R i s) = queued s @ [i]" "taken (requeue R i s) = remove1 i (taken s)"
  "queued (removeFromProcessing R i s) = queued s" "taken (removeFromProcessing R i s) = remove1 i (taken s)"
  "getProcessingList R s = taken s"
  using wq.put_last [of i s] wq.give_back_last [of i s] wq.finish_taken [of i s] lrange_all [of TASK_PROCESSING_KEY s]
  by (simp_all add: queued_def taken_def getProcessingList_def)

lemma look_store:
  assumes "unconditional edges"
  shows "queued (fan_store (evaluateDownstream R js_eval n i t e edges rows s)) = queued s @ fan_ids edges rows t"
    "taken (fan_store (evaluateDownstream R js_eval n i t e edges rows s)) = taken s"
proof -
  have "list_all (\<lambda>e. \<not> truthy_str (conditionExpr e)) (outgoing edges t)"
    using assms by (auto simp: unconditional_def outgoing_def list_all_iff)
  then have "fan_store (evaluateDownstream R js_eval n i t e edges rows s) = enqueueBatch R (fan_ids edges rows t) s"
    by (simp add: evaluateDownstream_def fan_loop_unconditional fan_ids_def [symmetric]) (simp add: enqueueBatch_def)
  then show "queued (fan_store (evaluateDownstream R js_eval n i t e edges rows s)) = queued s @ fan_ids edges rows t"
    "taken (fan_store (evaluateDownstream R js_eval n i t e edges rows s)) = taken s"
    using wq.put_all [of "fan_ids edges rows t" s] by (simp_all add: queued_def taken_def enqueueBatch_fold)
qed

definition wf_inv :: "Edge list \<Rightarrow> 's wf_config \<Rightarrow> bool" where
  "wf_inv edges c \<longleftrightarrow> rows_ok edges (wc_rows c) \<and>
     work_ok edges (wc_rows c) (wc_due c) (set (queued (wc_server c))) (set (taken (wc_server c)))"

definition wf_cost :: "Edge list \<Rightarrow> 's wf_config \<Rightarrow> nat" where
  "wf_cost edges c = sum_list (map (task_cost edges) (wc_rows c)) + 2 * length (queued (wc_server c)) +
     length (taken (wc_server c)) + due_cost edges (wc_due c)"

lemma finish_facts:
  assumes "wf_inv edges \<lparr>wc_rows = rows, wc_due = due, wc_server = s\<rparr>" "r \<in> set rows" "ts_status r = Running"
    and "life_step (pol (ts_taskDefinitionId r)) (Waiting (ts_attemptCount r)) (life_of r')" "policies_ok pol"
  shows "if ts_status r' = Pending then ts_attemptCount r' = ts_attemptCount r + 1 \<and> 0 \<le> ts_attemptCount r' \<and> ts_attemptCount r' < 10
    else ts_status r' \<in> {Completed, Failed, TimedOut}"
proof -
  have "0 \<le> ts_attemptCount r" using assms(1-3) by (auto simp: wf_inv_def rows_ok_def)
  with life_step_next [OF assms(4) _ this] assms(5) show ?thesis
    by (auto simp: policies_ok_def life_of_def split: if_splits)
qed

lemma taken_upstream:
  "wf_inv edges c \<Longrightarrow> r \<in> set (wc_rows c) \<Longrightarrow> ts_id r \<in> set (taken (wc_server c)) \<Longrightarrow>
     upstream_done edges (wc_rows c) (ts_taskDefinitionId r)"
  by (auto simp: wf_inv_def work_ok_def)

lemma work_inv:
  assumes "wf_work R js_eval edges pol c c'" "wf_inv edges c" "unconditional edges" "policies_ok pol"
  shows "wf_inv edges c'"
  using assms(1)
proof cases
  case (take_task s i s' rows due)
  show ?thesis using assms(2) claim_some [OF take_task(3)] unfolding take_task
    by (auto simp: wf_inv_def elim!: work_ok_server)
next
  case (begin_task r s rows r' due)
  note up = taken_upstream [OF assms(2), of r]
  have ok: "rows_ok edges rows" "work_ok edges rows due (set (queued s)) (set (taken s))"
    using assms(2) begin_task by (simp_all add: wf_inv_def)
  have "rows_ok edges (set_row r' rows)"
    by (rule rows_ok_set_row [OF ok(1)]) (use begin_task up ok(1) in \<open>auto simp: rows_ok_def\<close>)
  moreover have "work_ok edges (set_row r' rows) due (set (queued s)) (set (taken s))"
    by (rule work_ok_set_row [OF ok]) (use begin_task in auto)
  ultimately show ?thesis using begin_task by (simp add: wf_inv_def)
next
  case (refuse_task r s rows due)
  then have ok: "rows_ok edges rows" "work_ok edges rows due (set (queued s)) (set (taken s))"
    using assms(2) by (simp_all add: wf_inv_def)
  have "q = r" if "q \<in> set rows" "ts_id q = ts_id r" for q
    using ok(1) key_unique [OF _ that(1) refuse_task(4) that(2)] by (simp add: rows_ok_def)
  then have keep: "ts_id q \<in> set (remove1 (ts_id r) (taken s))"
    if "q \<in> set rows" "ts_status q \<in> {Pending, Running}" "ts_id q \<in> set (taken s)" for q
    using that refuse_task(5) by (metis in_set_remove1)
  have "work_ok edges rows due (set (queued s)) (set (remove1 (ts_id r) (taken s)))"
    by (rule work_ok_server [OF ok(2)]) (use keep set_remove1_subset [of "ts_id r" "taken s"] in auto)
  then show ?thesis using ok(1) refuse_task by (simp add: wf_inv_def)
next
  case (finish_task r s rows r' due)
  then have ok: "rows_ok edges rows" "work_ok edges rows due (set (queued s)) (set (taken s))"
    using assms(2) by (simp_all add: wf_inv_def)
  note up = taken_upstream [OF assms(2), of r]
  have facts: "if ts_status r' = Pending then ts_attemptCount r' = ts_attemptCount r + 1 \<and> 0 \<le> ts_attemptCount r' \<and> ts_attemptCount r' < 10
      else ts_status r' \<in> {Completed, Failed, TimedOut}"
    by (rule finish_facts [OF _ finish_task(4,5,7) assms(4)]) (use assms(2) finish_task in simp)
  have "rows_ok edges (set_row r' rows)"
    by (rule rows_ok_set_row [OF ok(1)]) (use finish_task up facts in \<open>auto split: if_splits\<close>)
  moreover have "work_ok edges (set_row r' rows) (if ts_status r' = Completed then ts_taskDefinitionId r # due else due)
      (set (queued s) \<union> (if ts_status r' = Pending then {ts_id r} else {})) (set (remove1 (ts_id r) (taken s)))"
    by (rule work_ok_set_row [OF ok finish_task(4,6)])
      (use finish_task facts set_remove1_subset [of "ts_id r" "taken s"] in \<open>auto dest: remove1_keeps split: if_splits\<close>)
  ultimately show ?thesis unfolding finish_task by (auto simp: wf_inv_def split: if_splits)
next
  case (look_downstream r rows due s n)
  then show ?thesis
    using assms(2) work_ok_look [of edges rows due "set (queued s)" "set (taken s)" "ts_taskDefinitionId r"]
    by (simp add: wf_inv_def look_store [OF assms(3)])
qed

lemma bounce_same:
  assumes "wf_bounce R c c'"
  shows "wc_rows c' = wc_rows c" "wc_due c' = wc_due c"
    "mset (queued (wc_server c')) = mset (queued (wc_server c))" "taken (wc_server c') = taken (wc_server c)"
  using assms by (auto elim!: wf_bounceE dest: claim_some)

lemma bounce_inv: "wf_bounce R c c' \<Longrightarrow> wf_inv edges c \<Longrightarrow> wf_inv edges c'"
  using bounce_same [of c c'] mset_eq_setD [of "queued (wc_server c')" "queued (wc_server c)"] by (simp add: wf_inv_def)

lemma bounce_cost: "wf_bounce R c c' \<Longrightarrow> wf_cost edges c' = wf_cost edges c"
  using bounce_same [of c c'] mset_eq_length [of "queued (wc_server c')" "queued (wc_server c)"] by (simp add: wf_cost_def)

lemma remove1_shorter: "i \<in> set (taken s) \<Longrightarrow> length (taken s) = Suc (length (remove1 i (taken s)))"
  by (simp add: length_remove1) (metis Suc_pred length_pos_if_in_set)

lemma work_cost:
  assumes "wf_work R js_eval edges pol c c'" "wf_inv edges c" "unconditional edges" "policies_ok pol"
  shows "wf_cost edges c' < wf_cost edges c"
  using assms(1)
proof cases
  case (take_task s i s' rows due)
  then show ?thesis using claim_some [OF take_task(3)] by (simp add: wf_cost_def)
next
  case (begin_task r s rows r' due)
  have "distinct (map ts_id rows)" using assms(2) begin_task by (simp add: wf_inv_def rows_ok_def)
  from set_row_sum [OF this begin_task(4), of r' "task_cost edges"] begin_task show ?thesis
    by (simp add: wf_cost_def task_cost_def same_task_def Let_def)
next
  case (refuse_task r s rows due)
  then show ?thesis using remove1_shorter by (simp add: wf_cost_def)
next
  case (finish_task r s rows r' due)
  have "distinct (map ts_id rows)" using assms(2) finish_task by (simp add: wf_inv_def rows_ok_def)
  note total = set_row_sum [OF this finish_task(4), of r' "task_cost edges"]
  have facts: "if ts_status r' = Pending then ts_attemptCount r' = ts_attemptCount r + 1 \<and> 0 \<le> ts_attemptCount r' \<and> ts_attemptCount r' < 10
      else ts_status r' \<in> {Completed, Failed, TimedOut}"
    by (rule finish_facts [OF _ finish_task(4,5,7) assms(4)]) (use assms(2) finish_task in simp)
  have "task_cost edges r' + (if ts_status r' = Completed then 1 + 2 * length (outgoing edges (ts_taskDefinitionId r)) else 0) +
      (if ts_status r' = Pending then 2 else 0) \<le> task_cost edges r"
    using facts finish_task(5,6) by (auto simp: task_cost_def Let_def same_task_def split: if_splits)
  then show ?thesis using total finish_task(6) remove1_shorter [OF finish_task(3) [simplified]] unfolding finish_task
    by (auto simp: wf_cost_def due_cost_def same_task_def split: if_splits)
next
  case (look_downstream r rows due s n)
  then show ?thesis
    using due_cost_remove [OF look_downstream(4), of edges] fan_ids_length [of edges rows "ts_taskDefinitionId r"]
    by (simp add: wf_cost_def look_store [OF assms(3)])
qed

lemma run_inv:
  "wf_run R js_eval edges pol n c c' \<Longrightarrow> unconditional edges \<Longrightarrow> policies_ok pol \<Longrightarrow> wf_inv edges c \<Longrightarrow>
     wf_inv edges c' \<and> n + wf_cost edges c' \<le> wf_cost edges c"
proof (induction rule: wf_run.induct)
  case (run_work n c c1 c2)
  then show ?case using work_inv [of js_eval edges pol c1 c2] work_cost [of js_eval edges pol c1 c2] by simp
next
  case (run_bounce n c c1 c2)
  then show ?case using bounce_inv [of c1 c2 edges] bounce_cost [of c1 c2 edges] by simp
qed simp

text \<open>When no step but giving tasks back is possible, nothing is left to do.\<close>

lemma quiet_empty:
  assumes "wf_inv edges c" "\<nexists>c'. wf_work R js_eval edges pol c c'"
  shows "wc_due c = []" "taken (wc_server c) = []" "queued (wc_server c) = []"
proof -
  obtain rows due s where c: "c = \<lparr>wc_rows = rows, wc_due = due, wc_server = s\<rparr>" by (cases c)
  have ok: "work_ok edges rows due (set (queued s)) (set (taken s))" using assms(1) by (simp add: c wf_inv_def)
  have no_work: "\<not> wf_work R js_eval edges pol \<lparr>wc_rows = rows, wc_due = due, wc_server = s\<rparr> c'" for c'
    using assms(2) c by blast
  show "wc_due c = []"
  proof (rule ccontr)
    assume "wc_due c \<noteq> []"
    then have d: "hd due \<in> set due" by (simp add: c)
    then obtain r where "r \<in> set rows" "ts_taskDefinitionId r = hd due" using ok by (auto simp: work_ok_def completed_def_def)
    then show False using no_work wf_work.look_downstream [of r rows due] d by metis
  qed
  show idle: "taken (wc_server c) = []"
  proof (rule ccontr)
    assume "taken (wc_server c) \<noteq> []"
    then have i: "hd (taken s) \<in> set (taken s)" by (simp add: c)
    then obtain r where r: "r \<in> set rows" "ts_id r = hd (taken s)" using ok unfolding work_ok_def by (metis UnCI image_iff subsetD)
    have p: "ts_id r \<in> set (getProcessingList R s)" using i r(2) by simp
    show False
    proof (cases "ts_status r")
      case Pending
      show False by (rule notE [OF no_work wf_work.begin_task [OF p r(1) Pending, of "r\<lparr>ts_status := Running\<rparr>"]])
        (simp_all add: same_task_def)
    next
      case Running
      show False by (rule notE [OF no_work wf_work.finish_task [OF p r(1) Running, of "r\<lparr>ts_status := Completed\<rparr>"]])
        (simp_all add: same_task_def life_of_def life_step.success)
    qed (rule notE [OF no_work wf_work.refuse_task [OF p r(1)]], simp)+
  qed
  show "queued (wc_server c) = []"
  proof (rule ccontr)
    assume "queued (wc_server c) \<noteq> []"
    then have "rev (lists s TASK_QUEUE_KEY) = hd (queued s) # tl (queued s)" by (simp add: c queued_def)
    from wq.take_first [OF this] obtain i s' where cl: "claim R s = (Some i, s')" by (metis prod.collapse)
    show False by (rule notE [OF no_work wf_work.take_task [OF cl]]) (use idle in \<open>simp add: c\<close>)
  qed
qed

end

text \<open>
  The steps on the queue are those of the claimer: when exactly the tasks that are processed are locked, a
  pass of an idle claimer has the effect of \<open>take_task\<close> or of a bounce on the two lists.
\<close>

context redis_server
begin

lemma claim_pass_steps:
  assumes "cl_currentTask c = None" "0 < cl_lockTtlMs c" "queued s = i # rest" "i \<noteq> []"
    and "owner s i = None \<longleftrightarrow> i \<notin> set (taken s)" "claim_pass R (c, s) = (got, (c', s'))"
  shows "\<exists>c2. (if got = Claimed i then wf_work R js_eval edges pol \<lparr>wc_rows = rows, wc_due = due, wc_server = s\<rparr> c2
      else wf_bounce R \<lparr>wc_rows = rows, wc_due = due, wc_server = s\<rparr> c2) \<and>
    wc_rows c2 = rows \<and> wc_due c2 = due \<and> queued (wc_server c2) = queued s' \<and> taken (wc_server c2) = taken s'"
proof -
  obtain j s1 where cl: "claim R s = (Some j, s1)"
    using wq.take_first [of s i rest] assms(3) by (metis prod.collapse queued_def)
  note s1 = claim_some [OF cl] and pass = claim_pass_next [OF assms(1) _ assms(4,2), of s rest]
  have j: "j = i" "queued s1 = rest" using s1(1) assms(3) by simp_all
  show ?thesis
  proof (cases "i \<in> set (taken s)")
    case False
    then have "got = Claimed i" "queued s' = rest" "taken s' = i # taken s"
      using pass assms(3,5,6) by (auto simp: queued_def taken_def)
    then show ?thesis using wf_work.take_task [OF cl] False s1 j by (intro exI [of _ "\<lparr>wc_rows = rows, wc_due = due, wc_server = s1\<rparr>"]) simp
  next
    case True
    then have "got = Requeued i" "queued s' = rest @ [i]" "taken s' = taken s"
      using pass assms(3,5,6) by (auto simp: queued_def taken_def)
    then show ?thesis using wf_bounce.bounce [OF cl] True s1 j
      by (intro exI [of _ "\<lparr>wc_rows = rows, wc_due = due, wc_server = requeue R i s1\<rparr>"]) simp
  qed
qed

text \<open>
  A run of a claimed task by the runner is \<open>begin_task\<close> and then \<open>finish_task\<close>: the row that it leaves in the
  database and its effect on the two lists are those of the two steps.
\<close>

lemma run_steps:
  assumes "xe_redis E = R" "xe_executorId E = e" "exclusive E lists (live keys now)" "advances E"
    and "cl_currentTask (wd_claimer w) = Some t" "ct_taskStateId t = i" "\<not> ct_aborted t" "cl_executorId (wd_claimer w) = e"
    and "owner (wd_redis w) i = Some e" "find_state i (wd_db w) = Some ts" "ts_status ts = Pending" "0 \<le> ts_attemptCount ts"
    and "ts_executionId ts \<in> ex_id ` set (db_executions (wd_db w))"
    and "case td_retryPolicy td of None \<Rightarrow> True | Some p \<Rightarrow> valid_policy p"
    and "ts \<in> set rows" "i \<in> set (taken (wd_redis w))" "pol (ts_taskDefinitionId ts) = td_retryPolicy td"
  shows "\<exists>w' ts' c1 c2. run T E ts td w = Some (Finished, w') \<and> find_state i (wd_db w') = Some ts' \<and>
    wf_work R js_eval edges pol \<lparr>wc_rows = rows, wc_due = due, wc_server = wd_redis w\<rparr> c1 \<and> wf_work R js_eval edges pol c1 c2 \<and>
    wc_rows c2 = set_row ts' rows \<and> queued (wc_server c2) = queued (wd_redis w') \<and> taken (wc_server c2) = taken (wd_redis w')"
proof -
  have quiet: "undisturbed E lists" using assms(3) by (simp add: exclusive_def)
  obtain w' ts' where r: "run T E ts td w = Some (Finished, w')" "find_state i (wd_db w') = Some ts'"
      "life_step (td_retryPolicy td) (life_of ts) (life_of ts')"
      "processing (wd_redis w') = remove1 i (processing (wd_redis w))"
      "waiting (wd_redis w') = waiting (wd_redis w) @ (if ts_status ts' = Pending then [i] else [])"
    using run_life [OF assms(1,5-7) quiet assms(4,10,11,13,14,12), of T] by blast
  have id: "ts_id ts = i" "ts_id ts' = i" using find_state_in [OF assms(10)] find_state_in [OF r(2)] by simp_all
  have "let_go i w w'" using run_lets_go [OF assms(3,1,2,5-9) id(1) assms(11) r(1)] .
  then have same: "same_task ts ts'"
    using find_keys [OF r(2)] find_keys [OF assms(10)] id by (simp add: same_task_def let_go_def)
  let ?b = "ts\<lparr>ts_status := Running\<rparr>"
  let ?c1 = "\<lparr>wc_rows = set_row ?b rows, wc_due = due, wc_server = wd_redis w\<rparr>"
  have p: "ts_id ?b \<in> set (getProcessingList R (wd_redis w))" using assms(16) id by simp
  have "wf_work R js_eval edges pol \<lparr>wc_rows = rows, wc_due = due, wc_server = wd_redis w\<rparr> ?c1"
    by (rule wf_work.begin_task [OF _ assms(15,11)]) (use p in \<open>simp_all add: same_task_def\<close>)
  moreover have "?b \<in> set (set_row ?b rows)" using assms(15) by (auto simp: in_set_row)
  from wf_work.finish_task [OF p this _ _, of ts' pol js_eval edges due] obtain c2 where
    "wf_work R js_eval edges pol ?c1 c2" "wc_rows c2 = set_row ts' (set_row ?b rows)"
    "wc_server c2 = (if ts_status ts' = Pending then enqueue R i (removeFromProcessing R i (wd_redis w)) else removeFromProcessing R i (wd_redis w))"
    using same r(3) assms(11,17) id by (fastforce simp: same_task_def life_of_def)
  moreover have "set_row ts' (set_row ?b rows) = set_row ts' rows"
    using id by (simp add: set_row_def update_rows_def comp_def)
  ultimately show ?thesis using r(1,2,4,5)
    by (intro exI [of _ w'] exI [of _ ts'] exI [of _ ?c1] exI [of _ c2]) (simp add: queued_def [symmetric] taken_def [symmetric])
qed

end

end
