(* ===== verification/WorkflowEnd.thy ===== *)
theory WorkflowEnd
  imports WorkflowRun
begin

section \<open>A whole workflow, from its start to its end\<close>

text \<open>
  What the steps of \<open>WorkflowRun\<close> make of an execution: in which order tasks are begun, how many steps there
  can be, what the tasks have become when nothing is left to do, and whether the completion check of the
  scheduler then ends the execution.  The start is the configuration that \<open>execute\<close> leaves for a stored
  workflow whose graph \<open>validateDAG\<close> accepts.
\<close>

subsection \<open>The order of tasks, and the end\<close>

lemma upstream_all:
  assumes "rows_ok edges rows"
  shows "(u, d) \<in> (edge_rel edges)\<^sup>+ \<Longrightarrow> upstream_done edges rows d \<Longrightarrow> completed_def rows u"
proof (induction rule: trancl_induct)
  case (base d)
  then show ?case by (auto simp: upstream_done_def)
next
  case (step y d)
  then have "completed_def rows y" by (auto simp: upstream_done_def)
  then have "upstream_done edges rows y" using assms by (auto simp: completed_def_def rows_ok_def)
  then show ?case by (rule step.IH)
qed

lemma end_rows:
  assumes "rows_ok edges rows" "work_ok edges rows [] {} {}" "acyclic (edge_rel edges)" "r \<in> set rows"
  shows "ts_status r \<in> {Pending, Completed, Failed, TimedOut}"
    "ts_status r = Pending \<longleftrightarrow>
      (\<exists>q \<in> set rows. ts_status q \<in> {Failed, TimedOut} \<and> (ts_taskDefinitionId q, ts_taskDefinitionId r) \<in> (edge_rel edges)\<^sup>+)"
proof -
  note ok = assms(1) [unfolded rows_ok_def] and work = assms(2) [unfolded work_ok_def]
  have dist: "distinct (map ts_taskDefinitionId rows)" using ok by blast
  have quiet: "ts_status q \<in> {Pending, Completed, Failed, TimedOut}" if "q \<in> set rows" for q using ok work that by blast
  then show "ts_status r \<in> {Pending, Completed, Failed, TimedOut}" using assms(4) .
  have "wf (edge_rel edges)" using assms(3) by (intro finite_acyclic_wf) (auto simp: edge_rel_def)
  then have blocked: "\<exists>q \<in> set rows. ts_status q \<in> {Failed, TimedOut} \<and> (ts_taskDefinitionId q, d) \<in> (edge_rel edges)\<^sup>+"
    if "p \<in> set rows" "ts_taskDefinitionId p = d" "ts_status p = Pending" for p d
    using that
  proof (induction d arbitrary: p rule: wf_induct_rule)
    case (less d)
    have "\<not> upstream_done edges rows d" using work less.prems by auto
    then obtain u where u: "(u, d) \<in> edge_rel edges" "\<not> completed_def rows u" by (auto simp: upstream_done_def)
    then obtain q where q: "q \<in> set rows" "ts_taskDefinitionId q = u" using ok by auto
    then have "ts_status q \<in> {Pending, Failed, TimedOut}" using quiet [OF q(1)] u(2) by (auto simp: completed_def_def)
    then show ?case using less.IH [OF u(1) q] q u(1) by (auto intro: trancl_into_trancl)
  qed
  show "ts_status r = Pending \<longleftrightarrow>
      (\<exists>q \<in> set rows. ts_status q \<in> {Failed, TimedOut} \<and> (ts_taskDefinitionId q, ts_taskDefinitionId r) \<in> (edge_rel edges)\<^sup>+)"
  proof
    assume "\<exists>q \<in> set rows. ts_status q \<in> {Failed, TimedOut} \<and> (ts_taskDefinitionId q, ts_taskDefinitionId r) \<in> (edge_rel edges)\<^sup>+"
    then obtain q where q: "q \<in> set rows" "ts_status q \<in> {Failed, TimedOut}"
      "(ts_taskDefinitionId q, ts_taskDefinitionId r) \<in> (edge_rel edges)\<^sup>+" by blast
    show "ts_status r = Pending"
    proof (rule ccontr)
      assume "ts_status r \<noteq> Pending"
      then have "completed_def rows (ts_taskDefinitionId q)"
        using upstream_all [OF assms(1) q(3)] ok assms(4) by blast
      then obtain p where "p \<in> set rows" "ts_taskDefinitionId p = ts_taskDefinitionId q" "ts_status p = Completed"
        by (auto simp: completed_def_def)
      then show False using q(2) key_unique [OF dist _ q(1), of p] by auto
    qed
  qed (use blocked assms(4) in blast)
qed

subsection \<open>The start\<close>

lemma edges_of_tasks: "distinct ds \<Longrightarrow> sum_list (map (\<lambda>d. length (outgoing edges d)) ds) \<le> length edges"
proof (induction edges)
  case Nil
  then show ?case by (simp add: outgoing_def sum_list_0)
next
  case (Cons e edges)
  have "sum_list (map (\<lambda>d. length (outgoing (e # edges) d)) ds) =
      sum_list (map (\<lambda>d. length (outgoing edges d)) ds) + length (filter (\<lambda>d. d = sourceTaskId e) ds)"
    by (induction ds) (auto simp: outgoing_def)
  moreover have "length (filter (\<lambda>d. d = sourceTaskId e) ds) \<le> 1"
    using Cons.prems by (induction ds) (auto simp: filter_empty_conv)
  ultimately show ?case using Cons by simp
qed

definition wf_start :: "string \<Rightarrow> db \<Rightarrow> 's \<Rightarrow> 's wf_config" where
  "wf_start x d s = \<lparr>wc_rows = findByExecutionId x d, wc_due = [], wc_server = s\<rparr>"

context redis_lists
begin

lemma fresh_inv:
  fixes rows :: "TaskState list"
  assumes "distinct (map ts_id rows)" "distinct (map ts_taskDefinitionId rows)"
    and "edge_rel edges \<subseteq> (ts_taskDefinitionId ` set rows) \<times> (ts_taskDefinitionId ` set rows)"
    and "\<And>r. r \<in> set rows \<Longrightarrow> ts_status r = Pending \<and> ts_attemptCount r = 0"
    and "queued s = map ts_id (filter (\<lambda>r. ts_taskDefinitionId r \<notin> targetTaskId ` set edges) rows)" "taken s = []"
  shows "wf_inv edges \<lparr>wc_rows = rows, wc_due = [], wc_server = s\<rparr>"
    "wf_cost edges \<lparr>wc_rows = rows, wc_due = [], wc_server = s\<rparr> \<le> 31 * length rows + 2 * length edges"
proof -
  have root: "upstream_done edges rows (ts_taskDefinitionId r) \<longleftrightarrow> ts_taskDefinitionId r \<notin> targetTaskId ` set edges"
    if "r \<in> set rows" for r
    using assms(4) by (auto simp: upstream_done_def completed_def_def edge_rel_def)
  have "rows_ok edges rows" using assms(1-4) by (simp add: rows_ok_def)
  moreover have "work_ok edges rows [] (set (queued s)) (set (taken s))"
  proof (rule work_okI)
    fix r assume r: "r \<in> set rows"
    have "q = r" if "q \<in> set rows" "ts_id q = ts_id r" for q using key_unique [OF assms(1) that(1) r that(2)] .
    then show "upstream_done edges rows (ts_taskDefinitionId r)" if "ts_id r \<in> set (queued s) \<union> set (taken s)"
      using that root [OF r] assms(5,6) by auto
  qed (use root assms(4-6) in auto)
  ultimately show "wf_inv edges \<lparr>wc_rows = rows, wc_due = [], wc_server = s\<rparr>" by (simp add: wf_inv_def)
  have costs: "map (task_cost edges) rows = map (\<lambda>r. 29 + 2 * length (outgoing edges (ts_taskDefinitionId r))) rows"
    using assms(4) by (intro map_cong) (simp_all add: task_cost_def)
  have total: "sum_list (map (\<lambda>r. 29 + 2 * length (outgoing edges (ts_taskDefinitionId r))) rows) =
      29 * length rows + 2 * sum_list (map (\<lambda>r. length (outgoing edges (ts_taskDefinitionId r))) rows)" for rows :: "TaskState list"
    by (induction rows) simp_all
  have "length (queued s) \<le> length rows" unfolding assms(5) by simp
  then show "wf_cost edges \<lparr>wc_rows = rows, wc_due = [], wc_server = s\<rparr> \<le> 31 * length rows + 2 * length edges"
    using edges_of_tasks [OF assms(2), of edges] assms(6) total [of rows]
    by (simp add: wf_cost_def due_cost_def costs comp_def)
qed

lemma start_inv:
  assumes "inj gen" "schema_ok gen d" "workflow_findById i d = Some wk"
    and "dv_valid (validateDAG tasks (wf_edges wk))" "map td_id tasks = map tr_id (wf_taskDefinitions wk)"
    and "lists s TASK_QUEUE_KEY = []" "lists s TASK_PROCESSING_KEY = []"
    and "execute gen now R i input (d, s) = (respond 202 (Accepted x ExRunning), (d', s'))"
  shows "wf_inv (wf_edges wk) (wf_start x d' s')"
    "wf_cost (wf_edges wk) (wf_start x d' s') \<le> 31 * length tasks + 2 * length (wf_edges wk)"
proof -
  let ?root = "\<lambda>k. k \<notin> targetTaskId ` set (wf_edges wk)"
  from execute_effect [OF assms(1-3), of now input R s] assms(8) obtain ex rows where
    x: "x = ex_id ex" "ex_id ex = gen (db_drawn d)"
    and d': "d' = d\<lparr>db_executions := db_executions d @ [ex], db_states := db_states d @ rows,
        db_drawn := Suc (db_drawn d) + length (wf_taskDefinitions wk)\<rparr>"
    and s': "s' = fold (\<lambda>r. enqueue R (ts_id r)) (filter (\<lambda>r. ?root (ts_taskDefinitionId r)) rows) s"
    and rows: "map ts_taskDefinitionId rows = map tr_id (wf_taskDefinitions wk)"
      "\<forall>r \<in> set rows. ts_executionId r = ex_id ex \<and> ts_status r = Pending \<and> ts_attemptCount r = 0"
    by (auto simp: respond_def)
  have "ts_executionId q \<noteq> x" if "q \<in> set (db_states d)" for q
  proof -
    have "ts_executionId q \<in> ex_id ` set (db_executions d)"
      using assms(2) that by (auto simp: schema_ok_def refs_ok_def refs_of_def)
    then show ?thesis using schema_fresh [OF assms(1,2), of "map ex_id (db_executions d)"] x by (auto simp: ids_of_def)
  qed
  then have start: "wf_start x d' s' = \<lparr>wc_rows = map state_object rows, wc_due = [], wc_server = s'\<rparr>"
    using rows(2) x(1) by (simp add: wf_start_def findByExecutionId_def select_states_def d' filter_empty_conv)
  have maps: "map ts_id (map state_object rows) = map ts_id rows"
    "map ts_taskDefinitionId (map state_object rows) = map td_id tasks" using rows(1) assms(5) by (simp_all add: comp_def)
  have ids: "distinct (map ts_id (map state_object rows))"
    unfolding maps using execute_schema [OF assms(1,2,8)] by (simp add: schema_ok_def ids_of_def d')
  have "distinct (map tr_id (db_tasks d))" using assms(2) by (simp add: schema_ok_def ids_of_def)
  then have defs: "distinct (map ts_taskDefinitionId (map state_object rows))"
    unfolding maps assms(5) workflow_found(2) [OF assms(3)]
    by (simp add: select_tasks_def task_object_def comp_def distinct_map_filter)
  have "ts_taskDefinitionId ` set (map state_object rows) = task_ids tasks"
    using maps(2) by (metis list.set_map task_ids_def)
  then have refs: "edge_rel (wf_edges wk) \<subseteq>
      (ts_taskDefinitionId ` set (map state_object rows)) \<times> (ts_taskDefinitionId ` set (map state_object rows))"
    using assms(4) by (simp only: validateDAG_accepts)
  have pending: "ts_status r = Pending \<and> ts_attemptCount r = 0" if "r \<in> set (map state_object rows)" for r
    using that rows(2) by auto
  have queue: "queued s' = map ts_id (filter (\<lambda>r. ?root (ts_taskDefinitionId r)) (map state_object rows))" "taken s' = []"
    using wq.put_all [of "map ts_id (filter (\<lambda>r. ?root (ts_taskDefinitionId r)) rows)" s] assms(6,7)
    by (simp_all add: s' queued_def taken_def fold_map comp_def filter_map)
  have "length (map state_object rows) = length tasks" using maps(2) by (metis length_map)
  then show "wf_inv (wf_edges wk) (wf_start x d' s')"
    "wf_cost (wf_edges wk) (wf_start x d' s') \<le> 31 * length tasks + 2 * length (wf_edges wk)"
    using fresh_inv [OF ids defs refs pending queue] by (simp_all only: start)
qed

lemma reach_quiet:
  assumes "unconditional edges" "policies_ok pol" "wf_inv edges c" "wf_run R js_eval edges pol n c0 c"
  shows "\<exists>m c'. wf_run R js_eval edges pol (n + m) c0 c' \<and> (\<nexists>c2. wf_work R js_eval edges pol c' c2)"
  using assms(3,4)
proof (induction "wf_cost edges c" arbitrary: c n rule: less_induct)
  case less
  show ?case
  proof (cases "\<exists>c2. wf_work R js_eval edges pol c c2")
    case True
    then obtain c2 where w: "wf_work R js_eval edges pol c c2" by blast
    from less.hyps [OF work_cost [OF w less.prems(1) assms(1,2)] work_inv [OF w less.prems(1) assms(1,2)] run_work [OF less.prems(2) w]]
    obtain m c' where "wf_run R js_eval edges pol (Suc n + m) c0 c'" "\<nexists>c2. wf_work R js_eval edges pol c' c2" by blast
    then show ?thesis by (intro exI [of _ "Suc m"] exI [of _ c']) simp
  next
    case False
    then show ?thesis using less.prems(2) by (intro exI [of _ 0] exI [of _ c]) simp
  qed
qed

end

lemma end_check:
  assumes "rows_ok edges rows" "work_ok edges rows [] {} {}" "acyclic (edge_rel edges)" "rows \<noteq> []"
    and "schema_ok gen d" "ex \<in> set (db_executions d)" "ex_status ex = ExRunning"
    and "{q \<in> set (db_states d). ts_executionId q = ex_id ex} = set rows"
  shows "checkExecutionCompletion t (ex_id ex) d =
    (if \<exists>q \<in> set rows. ts_status q \<in> {Failed, TimedOut} \<and> ts_taskDefinitionId q \<in> sourceTaskId ` set edges then d
     else d\<lparr>db_executions := map (\<lambda>x. if x = ex
       then x\<lparr>ex_status := (if \<exists>q \<in> set rows. ts_status q = Failed then ExFailed else ExCompleted), ex_completedAt := Some t\<rparr>
       else x) (db_executions d)\<rparr>)"
proof -
  note rows_end = end_rows [OF assms(1-3)]
  have open_iff: "Pending \<in> ts_status ` set rows \<longleftrightarrow>
      (\<exists>q \<in> set rows. ts_status q \<in> {Failed, TimedOut} \<and> ts_taskDefinitionId q \<in> sourceTaskId ` set edges)"
  proof
    assume "Pending \<in> ts_status ` set rows"
    then obtain r where "r \<in> set rows" "ts_status r = Pending" by force
    then obtain q where q: "q \<in> set rows" "ts_status q \<in> {Failed, TimedOut}"
      "(ts_taskDefinitionId q, ts_taskDefinitionId r) \<in> (edge_rel edges)\<^sup>+" using rows_end(2) by blast
    from tranclD [OF q(3)] have "ts_taskDefinitionId q \<in> sourceTaskId ` set edges" by (auto simp: edge_rel_def)
    then show "\<exists>q \<in> set rows. ts_status q \<in> {Failed, TimedOut} \<and> ts_taskDefinitionId q \<in> sourceTaskId ` set edges"
      using q by blast
  next
    assume "\<exists>q \<in> set rows. ts_status q \<in> {Failed, TimedOut} \<and> ts_taskDefinitionId q \<in> sourceTaskId ` set edges"
    then obtain q e where q: "q \<in> set rows" "ts_status q \<in> {Failed, TimedOut}" "e \<in> set edges" "ts_taskDefinitionId q = sourceTaskId e"
      by blast
    then have step: "(ts_taskDefinitionId q, targetTaskId e) \<in> edge_rel edges" by (force simp: edge_rel_def)
    then obtain r where "r \<in> set rows" "ts_taskDefinitionId r = targetTaskId e" using assms(1) unfolding rows_ok_def by force
    then have "ts_status r = Pending" using rows_end(2) [of r] q step by auto
    with \<open>r \<in> set rows\<close> show "Pending \<in> ts_status ` set rows" by force
  qed
  have terminal: "ts_status ` set rows \<subseteq> {Completed, Failed, Cancelled, TimedOut} \<longleftrightarrow> Pending \<notin> ts_status ` set rows"
    using rows_end(1) by (fastforce simp: image_iff)
  have fail: "Failed \<in> ts_status ` set rows \<longleftrightarrow> (\<exists>q \<in> set rows. ts_status q = Failed)" by force
  have some: "ts_status ` set rows \<noteq> {}" using assms(4) by simp
  show ?thesis
    unfolding completion_effect [OF assms(5,6) refl] assms(8) terminal fail open_iff [symmetric]
    using assms(7) some by (cases "Pending \<in> ts_status ` set rows") (simp_all only: simp_thms if_True if_False)
qed

subsection \<open>An example\<close>

text \<open>The workflow of \<open>sample_db\<close>: task 2 comes after task 1.\<close>

definition demo_workflow :: Workflow where
  "demo_workflow = the (workflow_findById (sample_gen 0) sample_db)"

definition demo_tasks :: "TaskDefinition list" where
  "demo_tasks = map (\<lambda>n. plain_task (sample_gen n)) [1, 2]"

definition demo_row :: "nat \<Rightarrow> TaskStatus \<Rightarrow> TaskState" where
  "demo_row n st = \<lparr>ts_id = sample_gen (4 + n), ts_executionId = sample_gen 4, ts_taskDefinitionId = sample_gen n,
     ts_status = st, ts_attemptCount = 0, ts_output = None, ts_error = None, ts_startedAt = None, ts_completedAt = None\<rparr>"

definition demo_db :: db where
  "demo_db = fst (snd (execute sample_gen 7 mem_redis (sample_gen 0) None (sample_db, empty_server)))"

definition demo_server :: mem_server where
  "demo_server = snd (snd (execute sample_gen 7 mem_redis (sample_gen 0) None (sample_db, empty_server)))"

definition demo_config :: "TaskStatus \<Rightarrow> TaskStatus \<Rightarrow> string list \<Rightarrow> mem_server \<Rightarrow> mem_server wf_config" where
  "demo_config a b due s = \<lparr>wc_rows = [demo_row 1 a, demo_row 2 b], wc_due = due, wc_server = s\<rparr>"

abbreviation demo_work :: "Edge list \<Rightarrow> mem_server wf_config \<Rightarrow> mem_server wf_config \<Rightarrow> bool" where
  "demo_work edges \<equiv> wf_work mem_redis always_false edges (\<lambda>_. None)"

lemma demo_facts:
  "workflow_findById (sample_gen 0) sample_db = Some demo_workflow"
  "dv_valid (validateDAG demo_tasks (wf_edges demo_workflow))"
  "map td_id demo_tasks = map tr_id (wf_taskDefinitions demo_workflow)"
  "unconditional (wf_edges demo_workflow)" "policies_ok (\<lambda>_. None)"
  "m_list empty_server TASK_QUEUE_KEY = []" "m_list empty_server TASK_PROCESSING_KEY = []"
  "execute sample_gen 7 mem_redis (sample_gen 0) None (sample_db, empty_server) =
     (respond 202 (Accepted (sample_gen 4) ExRunning), (demo_db, demo_server))"
  "wf_start (sample_gen 4) demo_db demo_server = demo_config Pending Pending [] demo_server"
  by (code_simp, code_simp, code_simp, code_simp, simp add: policies_ok_def, code_simp, code_simp, code_simp, code_simp)

text \<open>The server after task 1 has been claimed, let go of and looked at, and after task 2 has been claimed.\<close>

definition demo_claimed :: mem_server where
  "demo_claimed = snd (claim mem_redis demo_server)"

definition demo_freed :: mem_server where
  "demo_freed = removeFromProcessing mem_redis (sample_gen 5) demo_claimed"

definition demo_fanned :: mem_server where
  "demo_fanned = fan_store (evaluateDownstream mem_redis always_false 9 (sample_gen 5) (sample_gen 1) (sample_gen 4)
     (wf_edges demo_workflow) [demo_row 1 Completed, demo_row 2 Pending] demo_freed)"

definition demo_second :: mem_server where
  "demo_second = snd (claim mem_redis demo_fanned)"

lemma demo_rows:
  "n \<noteq> m \<Longrightarrow> set_row (demo_row n a') [demo_row n a, demo_row m b] = [demo_row n a', demo_row m b]"
  "n \<noteq> m \<Longrightarrow> set_row (demo_row m b') [demo_row n a, demo_row m b] = [demo_row n a, demo_row m b']"
  by (simp_all add: set_row_def update_rows_def demo_row_def inj_eq [OF inj_sample_gen])

lemma demo_row_facts:
  "ts_id (demo_row n a) = sample_gen (4 + n)" "ts_taskDefinitionId (demo_row n a) = sample_gen n"
  "ts_status (demo_row n a) = a" "ts_attemptCount (demo_row n a) = 0" "ts_executionId (demo_row n a) = sample_gen 4"
  "same_task (demo_row n a) (demo_row n b)"
  by (simp_all add: demo_row_def same_task_def)

lemma demo_take: "demo_work edges (demo_config Pending Pending [] demo_server) (demo_config Pending Pending [] demo_claimed)"
  unfolding demo_config_def by (rule wf_work.take_task [of _ _ "sample_gen 5"]) code_simp+

lemma demo_begin: "demo_work edges (demo_config Pending Pending [] demo_claimed) (demo_config Running Pending [] demo_claimed)"
proof -
  have "ts_id (demo_row 1 Pending) \<in> set (getProcessingList mem_redis demo_claimed)" by code_simp
  from wf_work.begin_task [OF this, of "[demo_row 1 Pending, demo_row 2 Pending]" "demo_row 1 Running"] show ?thesis
    by (simp add: demo_config_def demo_rows demo_row_facts)
qed

lemma demo_finish:
  "demo_work edges (demo_config Running Pending [] demo_claimed) (demo_config Completed Pending [sample_gen 1] demo_freed)"
  "demo_work edges (demo_config Running Pending [] demo_claimed) (demo_config Failed Pending [] demo_freed)"
proof -
  have p: "ts_id (demo_row 1 Running) \<in> set (getProcessingList mem_redis demo_claimed)" by code_simp
  have l: "life_step None (Waiting 0) (life_of (demo_row 1 Completed))" "life_step None (Waiting 0) (life_of (demo_row 1 Failed))"
    by (simp_all add: life_of_def demo_row_facts life_step.success) (rule life_step.failure, simp add: retries_def)
  note fin = wf_work.finish_task [OF p, of "[demo_row 1 Running, demo_row 2 Pending]"]
  show "demo_work edges (demo_config Running Pending [] demo_claimed) (demo_config Completed Pending [sample_gen 1] demo_freed)"
    using fin [of "demo_row 1 Completed" "\<lambda>_. None"] l(1) by (simp add: demo_config_def demo_rows demo_row_facts demo_freed_def)
  show "demo_work edges (demo_config Running Pending [] demo_claimed) (demo_config Failed Pending [] demo_freed)"
    using fin [of "demo_row 1 Failed" "\<lambda>_. None"] l(2) by (simp add: demo_config_def demo_rows demo_row_facts demo_freed_def)
qed

lemma demo_look: "demo_work (wf_edges demo_workflow) (demo_config Completed Pending [sample_gen 1] demo_freed) (demo_config Completed Pending [] demo_fanned)"
  using wf_work.look_downstream [of "demo_row 1 Completed" "[demo_row 1 Completed, demo_row 2 Pending]" "[sample_gen 1]"
      mem_redis always_false "wf_edges demo_workflow" "\<lambda>_. None" demo_freed 9]
  by (simp add: demo_config_def demo_row_facts demo_fanned_def)

lemma demo_next:
  "demo_work (wf_edges demo_workflow) (demo_config Completed Pending [] demo_fanned) (demo_config Completed Pending [] demo_second)"
  "demo_work (wf_edges demo_workflow) (demo_config Completed Pending [] demo_second) (demo_config Completed Running [] demo_second)"
proof -
  show "demo_work (wf_edges demo_workflow) (demo_config Completed Pending [] demo_fanned) (demo_config Completed Pending [] demo_second)"
    unfolding demo_config_def by (rule wf_work.take_task [of _ _ "sample_gen 6"]) code_simp+
  have "ts_id (demo_row 2 Pending) \<in> set (getProcessingList mem_redis demo_second)" by code_simp
  from wf_work.begin_task [OF this, of "[demo_row 1 Completed, demo_row 2 Pending]" "demo_row 2 Running"]
  show "demo_work (wf_edges demo_workflow) (demo_config Completed Pending [] demo_second) (demo_config Completed Running [] demo_second)"
    by (simp add: demo_config_def demo_rows demo_row_facts)
qed

abbreviation demo_run :: "nat \<Rightarrow> mem_server wf_config \<Rightarrow> bool" where
  "demo_run n \<equiv> wf_run mem_redis always_false (wf_edges demo_workflow) (\<lambda>_. None) n (wf_start (sample_gen 4) demo_db demo_server)"

lemma demo_runs:
  "demo_run 6 (demo_config Completed Running [] demo_second)" "demo_run 3 (demo_config Failed Pending [] demo_freed)"
proof -
  have 2: "demo_run (Suc (Suc 0)) (demo_config Running Pending [] demo_claimed)"
    unfolding demo_facts(9) by (rule run_work [OF run_work [OF run_none demo_take] demo_begin])
  show "demo_run 3 (demo_config Failed Pending [] demo_freed)"
    using run_work [OF 2 demo_finish(2)] by (simp add: numeral_eq_Suc)
  show "demo_run 6 (demo_config Completed Running [] demo_second)"
    using run_work [OF run_work [OF run_work [OF run_work [OF 2 demo_finish(1)] demo_look] demo_next(1)] demo_next(2)]
    by (simp add: numeral_eq_Suc)
qed

lemma demo_quiet: "\<nexists>c. demo_work edges (demo_config a b [] demo_freed) c"
proof -
  have "getProcessingList mem_redis demo_freed = []" "fst (claim mem_redis demo_freed) = None" by code_simp+
  then show ?thesis by (auto simp: demo_config_def elim!: wf_workE)
qed

subsection \<open>Properties\<close>







text \<open>
  With a condition that fails an execution need not end either: the task behind it is marked skipped in the
  objects given to \<open>evaluateDownstream\<close> and nowhere else, so in the database it stays pending, nothing is left
  to do, and the completion check never ends the execution.
\<close>

theorem skipped_task_stays_pending:
  "let edges = [cond_edge (sample_gen 1) (sample_gen 2)];
       start = demo_config Pending Pending [] demo_server;
       c = demo_config Completed Pending [] demo_freed;
       d = demo_db\<lparr>db_states := wc_rows c\<rparr>
   in wf_run mem_redis always_false edges (\<lambda>_. None) 4 start c \<and> (\<nexists>c2. demo_work edges c c2) \<and>
      checkExecutionCompletion 10 (sample_gen 4) d = d"
proof -
  let ?edges = "[cond_edge (sample_gen 1) (sample_gen 2)]"
  have "fan_store (evaluateDownstream mem_redis always_false 9 (sample_gen 5) (sample_gen 1) (sample_gen 4)
      ?edges [demo_row 1 Completed, demo_row 2 Pending] demo_freed) = demo_freed" by code_simp
  then have look: "demo_work ?edges (demo_config Completed Pending [sample_gen 1] demo_freed) (demo_config Completed Pending [] demo_freed)"
    using wf_work.look_downstream [of "demo_row 1 Completed" "[demo_row 1 Completed, demo_row 2 Pending]" "[sample_gen 1]"
        mem_redis always_false ?edges "\<lambda>_. None" demo_freed 9]
    by (simp add: demo_config_def demo_row_facts)
  have "wf_run mem_redis always_false ?edges (\<lambda>_. None) 4 (demo_config Pending Pending [] demo_server)
      (demo_config Completed Pending [] demo_freed)"
    using run_work [OF run_work [OF run_work [OF run_work [OF run_none demo_take] demo_begin] demo_finish(1)] look]
    by (simp add: numeral_eq_Suc)
  moreover have "checkExecutionCompletion 10 (sample_gen 4) (demo_db\<lparr>db_states := [demo_row 1 Completed, demo_row 2 Pending]\<rparr>) =
      demo_db\<lparr>db_states := [demo_row 1 Completed, demo_row 2 Pending]\<rparr>" by code_simp
  ultimately show ?thesis using demo_quiet by (simp add: Let_def demo_config_def)
qed

end
