(* ===== verification/Routes.thy ===== *)
theory Routes
  imports JsString
begin

section \<open>Routers and applications (routes and app.ts of the services)\<close>

text \<open>
  A router is the list of its routes: a method, a path pattern and the handler it calls.  An application is
  the list of all routes it can reach, in order, with the prefixes of \<open>app.use\<close>.  Whether a pattern matches a
  path is decided by Express: the parameter \<open>matching\<close>, which returns the values of the parameters in the
  path.  What is used of it is \<open>express_paths\<close>: on paths of lower-case letters, digits, hyphens and slashes, a
  pattern matches segment by segment, a segment \<open>:x\<close> matching any segment.  A request that no route matches
  is answered with 404.
\<close>

datatype http_method = GET | POST | PUT | PATCH | DELETE

datatype endpoint =
    Health
  | CreateWorkflow | ListWorkflows | GetWorkflow | UpdateWorkflow | DeleteWorkflow
  | ExecuteWorkflow | GetExecution | CancelExecution
  | CreateSchedule | ListSchedules | ToggleSchedule
  | IngestWebhook
  | ExecutionMetrics | ExecutorHealth | ListAlerts

type_synonym route = "http_method \<times> string \<times> endpoint"
type_synonym path_params = "(string \<times> string) list"
type_synonym matcher = "string \<Rightarrow> string \<Rightarrow> path_params option"

subsection \<open>The routers\<close>

definition workflow_routes :: "route list" where
  "workflow_routes =
     [(POST, ''/'', CreateWorkflow), (GET, ''/'', ListWorkflows), (GET, ''/:id'', GetWorkflow),
      (PUT, ''/:id'', UpdateWorkflow), (DELETE, ''/:id'', DeleteWorkflow)]"

definition createExecutionRoutes :: "route list" where
  "createExecutionRoutes =
     [(POST, ''/workflows/:id/execute'', ExecuteWorkflow), (GET, ''/executions/:id'', GetExecution),
      (POST, ''/executions/:id/cancel'', CancelExecution)]"

definition createScheduleRoutes :: "route list" where
  "createScheduleRoutes =
     [(POST, ''/schedules'', CreateSchedule), (GET, ''/schedules'', ListSchedules),
      (PATCH, ''/schedules/:id'', ToggleSchedule)]"

definition webhook_routes :: "route list" where
  "webhook_routes = [(POST, ''/webhooks/:id'', IngestWebhook)]"

definition createMonitorRoutes :: "route list" where
  "createMonitorRoutes =
     [(GET, ''/metrics'', ExecutionMetrics), (GET, ''/executors/health'', ExecutorHealth), (GET, ''/alerts'', ListAlerts)]"

subsection \<open>The applications\<close>

definition mount :: "string \<Rightarrow> route list \<Rightarrow> route list" where
  "mount prefix routes = map (\<lambda>(m, p, e). (m, prefix @ p, e)) routes"

definition health_route :: "route list" where
  "health_route = [(GET, ''/health'', Health)]"

definition gateway_app :: "route list" where
  "gateway_app = health_route @ mount ''/api/v1'' webhook_routes"

definition scheduler_app :: "route list" where "scheduler_app = health_route"
definition monitor_app :: "route list" where "monitor_app = health_route"
definition executor_app :: "route list" where "executor_app = health_route"

text \<open>The interface the README documents: the routers of the scheduler and the monitor below \<open>/api/v1\<close>.\<close>

definition documented_scheduler :: "route list" where
  "documented_scheduler = health_route @ mount ''/api/v1/workflows'' workflow_routes @
     mount ''/api/v1'' createExecutionRoutes @ mount ''/api/v1'' createScheduleRoutes"

definition documented_monitor :: "route list" where
  "documented_monitor = health_route @ mount ''/api/v1'' createMonitorRoutes"

subsection \<open>Requests\<close>

definition dispatch :: "matcher \<Rightarrow> route list \<Rightarrow> http_method \<Rightarrow> string \<Rightarrow> (endpoint \<times> path_params) option" where
  "dispatch matching routes meth path =
     (case filter (\<lambda>(m, p, e). m = meth \<and> matching p path \<noteq> None) routes of
        [] \<Rightarrow> None
      | (m, p, e) # _ \<Rightarrow> Some (e, the (matching p path)))"

definition segments :: "string \<Rightarrow> string list" where
  "segments s = filter (\<lambda>x. x \<noteq> []) (js_split (CHR ''/'') s)"

fun match_segments :: "string list \<Rightarrow> string list \<Rightarrow> path_params option" where
  "match_segments [] [] = Some []"
| "match_segments (p # ps) (s # ss) =
     (if take 1 p = '':'' then map_option (\<lambda>ms. (tl p, s) # ms) (match_segments ps ss)
      else if p = s then match_segments ps ss else None)"
| "match_segments _ _ = None"

definition plain_text :: "string \<Rightarrow> bool" where
  "plain_text s \<longleftrightarrow> list_all (\<lambda>c. 97 \<le> code_unit c \<and> code_unit c \<le> 122 \<or> is_digit c \<or> c = CHR ''-'') s"

definition plain_path :: "string \<Rightarrow> bool" where
  "plain_path s \<longleftrightarrow> plain_text (filter (\<lambda>c. c \<noteq> CHR ''/'') s)"

definition express_paths :: "matcher \<Rightarrow> bool" where
  "express_paths matching \<longleftrightarrow> (\<forall>p path. plain_path path \<longrightarrow> matching p path = match_segments (segments p) (segments path))"

definition segment_matcher :: matcher where
  "segment_matcher p path = match_segments (segments p) (segments path)"

lemma segment_matcher_express: "express_paths segment_matcher"
  by (simp add: express_paths_def segment_matcher_def)

text \<open>An id that is one segment.\<close>

definition plain_id :: "string \<Rightarrow> bool" where
  "plain_id i \<longleftrightarrow> i \<noteq> [] \<and> plain_text i"

lemma plain_no_slash: "plain_text i \<Longrightarrow> CHR ''/'' \<notin> set i"
  by (auto simp: plain_text_def list_all_iff is_digit_def code_unit_def)

lemma plain_path_append [simp]: "plain_path (s @ t) \<longleftrightarrow> plain_path s \<and> plain_path t"
  by (simp add: plain_path_def plain_text_def)

lemma plain_path_text: "plain_text i \<Longrightarrow> plain_path i"
  by (auto simp: plain_path_def plain_text_def list_all_iff)

lemma segments_empty [simp]: "segments [] = []"
  by (simp add: segments_def)

lemma segments_slash: "segments (CHR ''/'' # s) = segments s"
  by (simp add: segments_def)

lemma segments_word: "CHR ''/'' \<notin> set w \<Longrightarrow> w \<noteq> [] \<Longrightarrow> segments w = [w]"
  by (simp add: segments_def js_split_word)

lemma segments_Cons: "CHR ''/'' \<notin> set w \<Longrightarrow> w \<noteq> [] \<Longrightarrow> segments (w @ CHR ''/'' # s) = w # segments s"
  by (simp add: segments_def js_split_Cons)

lemma segments_concat: "(\<forall>w \<in> set ws. CHR ''/'' \<notin> set w \<and> w \<noteq> []) \<Longrightarrow>
    segments (concat (map (\<lambda>w. CHR ''/'' # w) ws)) = ws"
proof (induction ws)
  case (Cons w ws)
  show ?case
  proof (cases ws)
    case Nil
    then show ?thesis using Cons.prems by (simp add: segments_slash segments_word)
  next
    case (Cons v vs)
    then show ?thesis using Cons.IH Cons.prems by (simp add: segments_slash segments_Cons)
  qed
qed simp

definition path_of :: "string list \<Rightarrow> string" where
  "path_of ws = concat (map (\<lambda>w. CHR ''/'' # w) ws)"

lemma path_segments:
  assumes "express_paths matching" "list_all plain_id ws"
  shows "matching p (path_of ws) = match_segments (segments p) ws"
proof -
  have "plain_path (path_of ws)"
    using assms(2) by (auto simp: path_of_def plain_path_def plain_text_def plain_id_def list_all_iff)
  moreover have "segments (path_of ws) = ws"
    unfolding path_of_def using assms(2) plain_no_slash by (intro segments_concat) (auto simp: list_all_iff plain_id_def)
  ultimately show ?thesis using assms(1) by (simp add: express_paths_def)
qed

text \<open>A request on the segments of the patterns.\<close>

fun first_match :: "(http_method \<times> string list \<times> endpoint) list \<Rightarrow> http_method \<Rightarrow> string list \<Rightarrow> (endpoint \<times> path_params) option" where
  "first_match [] meth ws = None"
| "first_match ((m, p, e) # routes) meth ws =
     (case match_segments p ws of
        Some ps \<Rightarrow> if m = meth then Some (e, ps) else first_match routes meth ws
      | None \<Rightarrow> first_match routes meth ws)"

lemma dispatch_segments:
  assumes "express_paths matching" "list_all plain_id ws"
  shows "dispatch matching routes meth (path_of ws) = first_match (map (\<lambda>(m, p, e). (m, segments p, e)) routes) meth ws"
proof (induction routes)
  case (Cons r routes)
  obtain m p e where r: "r = (m, p, e)" by (rule prod_cases3)
  show ?case using Cons path_segments [OF assms, of p]
    by (auto simp: dispatch_def r split: option.split)
qed (simp add: dispatch_def)

lemma app_segments:
  "map (\<lambda>(m, p, e). (m, segments p, e)) scheduler_app = [(GET, [''health''], Health)]"
  "map (\<lambda>(m, p, e). (m, segments p, e)) documented_scheduler =
     [(GET, [''health''], Health),
      (POST, [''api'', ''v1'', ''workflows''], CreateWorkflow), (GET, [''api'', ''v1'', ''workflows''], ListWorkflows),
      (GET, [''api'', ''v1'', ''workflows'', '':id''], GetWorkflow), (PUT, [''api'', ''v1'', ''workflows'', '':id''], UpdateWorkflow),
      (DELETE, [''api'', ''v1'', ''workflows'', '':id''], DeleteWorkflow),
      (POST, [''api'', ''v1'', ''workflows'', '':id'', ''execute''], ExecuteWorkflow),
      (GET, [''api'', ''v1'', ''executions'', '':id''], GetExecution),
      (POST, [''api'', ''v1'', ''executions'', '':id'', ''cancel''], CancelExecution),
      (POST, [''api'', ''v1'', ''schedules''], CreateSchedule), (GET, [''api'', ''v1'', ''schedules''], ListSchedules),
      (PATCH, [''api'', ''v1'', ''schedules'', '':id''], ToggleSchedule)]"
  "map (\<lambda>(m, p, e). (m, segments p, e)) gateway_app =
     [(GET, [''health''], Health), (POST, [''api'', ''v1'', ''webhooks'', '':id''], IngestWebhook)]"
  "map (\<lambda>(m, p, e). (m, segments p, e)) monitor_app = [(GET, [''health''], Health)]"
  "map (\<lambda>(m, p, e). (m, segments p, e)) documented_monitor =
     [(GET, [''health''], Health), (GET, [''api'', ''v1'', ''metrics''], ExecutionMetrics),
      (GET, [''api'', ''v1'', ''executors'', ''health''], ExecutorHealth), (GET, [''api'', ''v1'', ''alerts''], ListAlerts)]"
  by code_simp+

lemma plain_words:
  "plain_id ''api''" "plain_id ''v1''" "plain_id ''workflows''" "plain_id ''executions''" "plain_id ''schedules''"
  "plain_id ''execute''" "plain_id ''cancel''" "plain_id ''webhooks''" "plain_id ''metrics''" "plain_id ''executors''"
  "plain_id ''health''" "plain_id ''alerts''"
  by code_simp+

subsection \<open>The documented interface\<close>

text \<open>The requests of the README's table with an id \<open>i\<close>, and the handlers they are for.\<close>

definition scheduler_interface :: "string \<Rightarrow> (http_method \<times> string list \<times> endpoint \<times> path_params) list" where
  "scheduler_interface i =
     [(POST, [''workflows''], CreateWorkflow, []), (GET, [''workflows''], ListWorkflows, []),
      (GET, [''workflows'', i], GetWorkflow, [(''id'', i)]), (PUT, [''workflows'', i], UpdateWorkflow, [(''id'', i)]),
      (DELETE, [''workflows'', i], DeleteWorkflow, [(''id'', i)]),
      (POST, [''workflows'', i, ''execute''], ExecuteWorkflow, [(''id'', i)]),
      (GET, [''executions'', i], GetExecution, [(''id'', i)]),
      (POST, [''executions'', i, ''cancel''], CancelExecution, [(''id'', i)]),
      (POST, [''schedules''], CreateSchedule, []), (GET, [''schedules''], ListSchedules, []),
      (PATCH, [''schedules'', i], ToggleSchedule, [(''id'', i)])]"

lemma scheduler_dispatch:
  assumes "express_paths matching" "plain_id i" "(meth, ws, e, ps) \<in> set (scheduler_interface i)"
  shows "dispatch matching documented_scheduler meth (path_of (''api'' # ''v1'' # ws)) = Some (e, ps)"
    "dispatch matching scheduler_app meth (path_of (''api'' # ''v1'' # ws)) = None"
proof -
  have ws: "list_all plain_id (''api'' # ''v1'' # ws)"
    using assms(2,3) by (auto simp: scheduler_interface_def plain_words)
  show "dispatch matching documented_scheduler meth (path_of (''api'' # ''v1'' # ws)) = Some (e, ps)"
    unfolding dispatch_segments [OF assms(1) ws] app_segments using assms(3)
    by (auto simp: scheduler_interface_def)
  show "dispatch matching scheduler_app meth (path_of (''api'' # ''v1'' # ws)) = None"
    unfolding dispatch_segments [OF assms(1) ws] app_segments using assms(3)
    by (auto simp: scheduler_interface_def)
qed

definition monitor_interface :: "(http_method \<times> string list \<times> endpoint \<times> path_params) list" where
  "monitor_interface =
     [(GET, [''metrics''], ExecutionMetrics, []), (GET, [''executors'', ''health''], ExecutorHealth, []),
      (GET, [''alerts''], ListAlerts, [])]"

lemma monitor_dispatch:
  assumes "express_paths matching" "(meth, ws, e, ps) \<in> set monitor_interface"
  shows "dispatch matching documented_monitor meth (path_of (''api'' # ''v1'' # ws)) = Some (e, ps)"
    "dispatch matching monitor_app meth (path_of (''api'' # ''v1'' # ws)) = None"
proof -
  have ws: "list_all plain_id (''api'' # ''v1'' # ws)" using assms(2) by (auto simp: monitor_interface_def plain_words)
  show "dispatch matching documented_monitor meth (path_of (''api'' # ''v1'' # ws)) = Some (e, ps)"
    "dispatch matching monitor_app meth (path_of (''api'' # ''v1'' # ws)) = None"
    unfolding dispatch_segments [OF assms(1) ws] app_segments using assms(2) by (auto simp: monitor_interface_def)
qed

lemma gateway_dispatch:
  assumes "express_paths matching" "plain_id i"
  shows "dispatch matching gateway_app POST (path_of [''api'', ''v1'', ''webhooks'', i]) = Some (IngestWebhook, [(''id'', i)])"
proof -
  have ws: "list_all plain_id [''api'', ''v1'', ''webhooks'', i]" using assms(2) by (simp add: plain_words)
  show ?thesis unfolding dispatch_segments [OF assms(1) ws] app_segments by simp
qed

definition answers_of :: "matcher \<Rightarrow> route list \<Rightarrow> (http_method \<times> string list \<times> endpoint \<times> path_params) list \<Rightarrow>
    (endpoint \<times> path_params) option list" where
  "answers_of matching routes requests =
     map (\<lambda>(meth, ws, _). dispatch matching routes meth (path_of (''api'' # ''v1'' # ws))) requests"

text \<open>
  Mounted as the README says, the routers of the scheduler and the monitor bring every documented request to its
  handler, with the id in the path as its parameter; the applications as they are written answer 404 to all of
  them.
\<close>

theorem services_serve_nothing:
  assumes "express_paths matching" "plain_id i"
  shows "answers_of matching documented_scheduler (scheduler_interface i) = map (\<lambda>(_, _, e, ps). Some (e, ps)) (scheduler_interface i) \<and>
    answers_of matching documented_monitor monitor_interface = map (\<lambda>(_, _, e, ps). Some (e, ps)) monitor_interface \<and>
    set (answers_of matching scheduler_app (scheduler_interface i)) = {None} \<and>
    set (answers_of matching monitor_app monitor_interface) = {None}"
proof (intro conjI)
  show "answers_of matching documented_scheduler (scheduler_interface i) = map (\<lambda>(_, _, e, ps). Some (e, ps)) (scheduler_interface i)"
    using scheduler_dispatch(1) [OF assms] unfolding answers_of_def by (intro map_cong) auto
  show "answers_of matching documented_monitor monitor_interface = map (\<lambda>(_, _, e, ps). Some (e, ps)) monitor_interface"
    using monitor_dispatch(1) [OF assms(1)] unfolding answers_of_def by (intro map_cong) auto
  have "answers_of matching scheduler_app (scheduler_interface i) = map (\<lambda>_. None) (scheduler_interface i)"
    using scheduler_dispatch(2) [OF assms] unfolding answers_of_def by (intro map_cong) auto
  then show "set (answers_of matching scheduler_app (scheduler_interface i)) = {None}" by (simp add: scheduler_interface_def)
  have "answers_of matching monitor_app monitor_interface = map (\<lambda>_. None) monitor_interface"
    using monitor_dispatch(2) [OF assms(1)] unfolding answers_of_def by (intro map_cong) auto
  then show "set (answers_of matching monitor_app monitor_interface) = {None}" by (simp add: monitor_interface_def)
qed

theorem services_serve_nothing_witness:
  "answers_of segment_matcher documented_monitor monitor_interface = [Some (ExecutionMetrics, []), Some (ExecutorHealth, []), Some (ListAlerts, [])] \<and>
   set (answers_of segment_matcher scheduler_app (scheduler_interface ''e-1'')) = {None}"
proof -
  have "plain_id ''e-1''" by code_simp
  from services_serve_nothing [OF segment_matcher_express this] show ?thesis by (simp add: monitor_interface_def)
qed

end
