(* ===== verification/WebhookRun.thy ===== *)
theory WebhookRun
  imports WebhookGateway ExecutionController Routes
begin

section \<open>From a webhook to an execution (webhook-gateway and scheduler-api together)\<close>

text \<open>
  The gateway sends \<open>POST /api/v1/workflows/:id/execute\<close> with the body \<open>{ input: payload }\<close>; here the
  scheduler's answer is not a parameter but what its routes make of this request: the answer of its handler
  \<open>execute\<close>, as Express sends it, or 404.  \<open>serve_webhook\<close> is a request to the gateway's application on
  this scheduler, with the state it leaves behind.  The scheduler's \<open>express.json()\<close> has no limit of its own, so
  the default of Express holds, 100 kB, and a longer body is answered with 413; \<open>json_size\<close>, a parameter, is the
  length in bytes of the JSON text of a value.
\<close>

text \<open>\<open>req.body?.input\<close>.\<close>

definition input_of :: "jsval \<Rightarrow> jsval option" where
  "input_of body = (case body of JObj ps \<Rightarrow> map_of ps ''input'' | _ \<Rightarrow> None)"

definition status_text :: "ExecutionStatus \<Rightarrow> string" where
  "status_text st = (case st of ExPending \<Rightarrow> ''pending'' | ExRunning \<Rightarrow> ''running'' | ExCompleted \<Rightarrow> ''completed''
     | ExFailed \<Rightarrow> ''failed'' | ExCancelled \<Rightarrow> ''cancelled'')"

text \<open>\<open>execute\<close> answers with an id and a status, or an error with its code; it never answers with an execution.\<close>

definition answer_json :: "execution_body response \<Rightarrow> jsval" where
  "answer_json r = (case rs_body r of
     Body (Accepted i st) \<Rightarrow> JObj [(''id'', JStr i), (''status'', JStr (status_text st))]
   | Body (Found _ _) \<Rightarrow> JUndefined
   | ErrorBody c \<Rightarrow> JObj [(''error'', JObj [(''code'', JStr c)])])"

definition execute_path :: "string \<Rightarrow> string" where
  "execute_path workflowId = ''/api/v1/workflows/'' @ workflowId @ ''/execute''"

definition JSON_LIMIT :: int where "JSON_LIMIT = 100 * 1024"

text \<open>No route but that of \<open>execute\<close> matches this path.\<close>

definition post_execute ::
    "(nat \<Rightarrow> string) \<Rightarrow> date \<Rightarrow> 's redis \<Rightarrow> matcher \<Rightarrow> (jsval \<Rightarrow> int) \<Rightarrow> route list \<Rightarrow> string \<Rightarrow> jsval \<Rightarrow> db \<times> 's \<Rightarrow>
     fetch_answer \<times> (db \<times> 's)" where
  "post_execute gen now R matching json_size routes workflowId body st =
     (if JSON_LIMIT < json_size body then (Answer 413 None, st)
      else case dispatch matching routes POST (execute_path workflowId) of
        Some (ExecuteWorkflow, params) \<Rightarrow>
          (let (r, st') = execute gen now R (the (map_of params ''id'')) (input_of body) st
           in (Answer (rs_status r) (Some (answer_json r)), st'))
      | _ \<Rightarrow> (Answer 404 None, st))"

definition serve_webhook ::
    "(bytes \<Rightarrow> string \<Rightarrow> bytes) \<Rightarrow> (nat \<Rightarrow> string) \<Rightarrow> date \<Rightarrow> 's redis \<Rightarrow> matcher \<Rightarrow> (jsval \<Rightarrow> int) \<Rightarrow> route list \<Rightarrow>
     webhook_request \<Rightarrow>
     db \<times> 's \<Rightarrow> webhook_response \<times> (db \<times> 's)" where
  "serve_webhook hmac gen now R matching json_size routes req st =
     (case dispatch matching gateway_app POST (path_of [''api'', ''v1'', ''webhooks'', wq_id req]) of
        Some (IngestWebhook, params) \<Rightarrow>
          (let (r, sent) = webhook_route hmac (\<lambda>w body. fst (post_execute gen now R matching json_size routes w body st))
                 (req\<lparr>wq_id := the (map_of params ''id'')\<rparr>) (fst st)
           in (r, fold (\<lambda>(w, payload) st'. snd (post_execute gen now R matching json_size routes w (JObj [(''input'', payload)]) st')) sent st))
      | _ \<Rightarrow> (Refused 404, st))"

lemma execute_dispatch:
  assumes "express_paths matching" "plain_id i"
  shows "dispatch matching documented_scheduler POST (execute_path i) = Some (ExecuteWorkflow, [(''id'', i)])"
    "dispatch matching scheduler_app POST (execute_path i) = None"
proof -
  have "(POST, [''workflows'', i, ''execute''], ExecuteWorkflow, [(''id'', i)]) \<in> set (scheduler_interface i)"
    by (simp add: scheduler_interface_def)
  from scheduler_dispatch [OF assms this]
  show "dispatch matching documented_scheduler POST (execute_path i) = Some (ExecuteWorkflow, [(''id'', i)])"
    "dispatch matching scheduler_app POST (execute_path i) = None"
    by (simp_all add: path_of_def execute_path_def)
qed

lemma serve_webhook_route:
  assumes "express_paths matching" "plain_id (wq_id req)"
  shows "serve_webhook hmac gen now R matching json_size routes req st =
     (let (r, sent) = webhook_route hmac (\<lambda>w body. fst (post_execute gen now R matching json_size routes w body st)) req (fst st)
      in (r, fold (\<lambda>(w, payload) st'. snd (post_execute gen now R matching json_size routes w (JObj [(''input'', payload)]) st')) sent st))"
  using gateway_dispatch [OF assms] by (simp add: serve_webhook_def)

text \<open>What a request must satisfy.\<close>

definition admitted :: "(bytes \<Rightarrow> string \<Rightarrow> bytes) \<Rightarrow> webhook_request \<Rightarrow> WebhookRegistration \<Rightarrow> bool" where
  "admitted hmac req w \<longleftrightarrow> wh_id w = wq_id req \<and> wh_active w \<and> payloadValidator req = None \<and>
     \<not> signature_refused hmac (wh_secret w) req"

lemma registered_once:
  assumes "distinct (map wh_id hooks)" "w \<in> set hooks"
  shows "filter (\<lambda>q. wh_id q = wh_id w) hooks = [w]"
  using assms
proof (induction hooks)
  case (Cons q hooks)
  then have "filter (\<lambda>p. wh_id p = wh_id w) hooks = [] \<and> q = w \<or>
      filter (\<lambda>p. wh_id p = wh_id w) hooks = [w] \<and> wh_id q \<noteq> wh_id w"
    by (auto simp: filter_empty_conv) (metis image_eqI)+
  then show ?case by auto
qed simp

lemma route_admitted:
  assumes "distinct (map wh_id (db_webhooks d))" "w \<in> set (db_webhooks d)" "admitted hmac req w"
    and "fetch (wh_workflowId w) (JObj [(''input'', wq_body req)]) =
      Answer 202 (Some (JObj ((''id'', v) # ps)))"
  shows "webhook_route hmac fetch req d = (AcceptedWebhook v, [(wh_workflowId w, wq_body req)])"
  using assms(3,4) registered_once [OF assms(1,2)]
  by (simp add: admitted_def webhook_route_def handleWebhook_def forwardToScheduler_def Let_def)

lemma route_rejected:
  assumes "distinct (map wh_id (db_webhooks d))" "w \<in> set (db_webhooks d)" "admitted hmac req w"
    and "fetch (wh_workflowId w) (JObj [(''input'', wq_body req)]) = Answer n b" "300 \<le> n"
  shows "webhook_route hmac fetch req d = (Refused n, [(wh_workflowId w, wq_body req)])"
  using assms(3-5) registered_once [OF assms(1,2)]
  by (simp add: admitted_def webhook_route_def handleWebhook_def forwardToScheduler_def Let_def)

lemma payload_refused: "payloadValidator req \<in> {None, Some (Refused 400)}"
  by (simp add: payloadValidator_def Let_def)

lemma route_refused:
  assumes "\<not> (\<exists>w \<in> set (db_webhooks d). admitted hmac req w)"
  shows "\<exists>n. webhook_route hmac fetch req d = (Refused n, [])"
proof (cases "filter (\<lambda>w. wh_id w = wq_id req) (db_webhooks d)")
  case Nil
  then show ?thesis using payload_refused [of req] by (auto simp: webhook_route_def handleWebhook_def)
next
  case (Cons w ws)
  then have "w \<in> set (filter (\<lambda>w. wh_id w = wq_id req) (db_webhooks d))" by simp
  then have "\<not> admitted hmac req w" "wh_id w = wq_id req" using assms by auto
  then show ?thesis using Cons payload_refused [of req] by (auto simp: webhook_route_def handleWebhook_def admitted_def)
qed

lemma workflow_exists: "i \<in> w_id ` set (db_workflows d) \<Longrightarrow> \<exists>wk. workflow_findById i d = Some wk"
  by (auto simp: workflow_findById_def filter_empty_conv split: list.split)

lemma admitted_object: "admitted hmac req w \<Longrightarrow> json_or_undefined (Some (wq_body req)) = Some (wq_body req)"
  by (auto simp: admitted_def payloadValidator_def json_or_undefined_def Let_def split: if_splits jsval.splits)

lemma webhook_references:
  assumes "schema_ok gen d" "w \<in> set (db_webhooks d)"
  shows "distinct (map wh_id (db_webhooks d))" "wh_workflowId w \<in> range gen"
    "\<exists>wk. workflow_findById (wh_workflowId w) d = Some wk"
proof -
  show "distinct (map wh_id (db_webhooks d))" using assms(1) by (simp add: schema_ok_def ids_of_def)
  have "wh_workflowId w \<in> w_id ` set (db_workflows d)"
    using assms by (auto simp: schema_ok_def refs_ok_def refs_of_def)
  then show "\<exists>wk. workflow_findById (wh_workflowId w) d = Some wk" "wh_workflowId w \<in> range gen"
    using workflow_exists assms(1) by (auto simp: schema_ok_def ids_of_def)
qed

subsection \<open>Properties\<close>


definition letter_gen :: "nat \<Rightarrow> string" where
  "letter_gen n = replicate (Suc n) (CHR ''u'')"

definition hooked_db :: db where
  "hooked_db = empty_db\<lparr>
     db_workflows := [\<lparr>w_id = letter_gen 0, w_name = ''w'', w_description = None, w_triggerConfig = JObj [],
       w_createdAt = 0, w_updatedAt = 0\<rparr>],
     db_tasks := map (\<lambda>i. \<lparr>tr_id = letter_gen i, tr_workflowId = letter_gen 0, tr_name = ''t'', tr_type = ''delay'',
       tr_config = JObj [], tr_timeoutMs = 1000, tr_retryPolicy = None\<rparr>) [1, 2],
     db_webhooks := [\<lparr>wh_id = letter_gen 3, wh_workflowId = letter_gen 0, wh_secret = Some ''key'', wh_active = True, wh_createdAt = 0\<rparr>],
     db_drawn := 4\<rparr>"

lemma hooked_db_facts: "inj letter_gen" "\<forall>n. plain_id (letter_gen n)" "schema_ok letter_gen hooked_db"
proof -
  show "inj letter_gen" by (simp add: letter_gen_def inj_def)
  show "\<forall>n. plain_id (letter_gen n)" by (simp add: letter_gen_def plain_id_def plain_text_def list_all_iff code_unit_def)
  show "schema_ok letter_gen hooked_db" by code_simp
qed


text \<open>
  The scheduler's application mounts no router, so as the services are written no webhook starts anything: the
  request is answered with 404, or 413 when it is too long, and the gateway refuses every webhook.
\<close>

theorem webhook_starts_nothing:
  assumes "\<forall>n. plain_id (gen n)" "schema_ok gen d" "express_paths matching" "plain_id (wq_id req)"
    and "serve_webhook hmac gen now R matching json_size scheduler_app req (d, s) = (r, st)"
  shows "(\<exists>n. r = Refused n) \<and> st = (d, s)"
proof (cases "\<exists>w \<in> set (db_webhooks d). admitted hmac req w")
  case True
  then obtain w where w: "w \<in> set (db_webhooks d)" "admitted hmac req w" by blast
  note hook = webhook_references [OF assms(2) w(1)]
  have "plain_id (wh_workflowId w)" using hook(2) assms(1) by auto
  then have post: "post_execute gen now R matching json_size scheduler_app (wh_workflowId w) body st =
      (Answer (if JSON_LIMIT < json_size body then 413 else 404) None, st)" for body and st :: "db \<times> 'a"
    using execute_dispatch(2) [OF assms(3)] by (simp add: post_execute_def)
  let ?n = "if JSON_LIMIT < json_size (JObj [(''input'', wq_body req)]) then 413 else (404 :: int)"
  from route_rejected [OF hook(1) w, of "\<lambda>w body. fst (post_execute gen now R matching json_size scheduler_app w body (d, s))" ?n]
  have "webhook_route hmac (\<lambda>w body. fst (post_execute gen now R matching json_size scheduler_app w body (d, s))) req d =
      (Refused ?n, [(wh_workflowId w, wq_body req)])" by (simp add: post)
  then show ?thesis using assms(5) post by (auto simp: serve_webhook_route [OF assms(3,4)])
next
  case False
  from route_refused [OF this] obtain n where
    "webhook_route hmac (\<lambda>w body. fst (post_execute gen now R matching json_size scheduler_app w body (d, s))) req d = (Refused n, [])"
    by blast
  then show ?thesis using assms(5) by (auto simp: serve_webhook_route [OF assms(3,4)])
qed

theorem webhook_starts_nothing_witness:
  "snd (serve_webhook toy_hmac letter_gen 7 mem_redis segment_matcher (\<lambda>_. 30) scheduler_app
     \<lparr>wq_id = letter_gen 3, wq_contentLength = None, wq_signature = Some ''sha256=0607'', wq_rawBody = Some [1, 2], wq_body = JObj []\<rparr>
     (hooked_db, empty_server)) = (hooked_db, empty_server)"
proof -
  let ?req = "\<lparr>wq_id = letter_gen 3, wq_contentLength = None, wq_signature = Some ''sha256=0607'', wq_rawBody = Some [1, 2], wq_body = JObj []\<rparr>"
  obtain r st where e: "serve_webhook toy_hmac letter_gen 7 mem_redis segment_matcher (\<lambda>_. 30) scheduler_app ?req (hooked_db, empty_server) = (r, st)"
    by (rule prod.exhaust)
  have i: "plain_id (wq_id ?req)" using hooked_db_facts(2) by simp
  from webhook_starts_nothing [OF hooked_db_facts(2,3) segment_matcher_express i e] show ?thesis by (simp add: e)
qed

end
