(* ===== verification/Spec2Isabelle.thy ===== *)
theory Spec2Isabelle
  imports DagReachability DagSerializer StateMachine RetryEngine CronNextRun
    EventBus FanOutFanIn TaskRunner WorkflowController ExecutionController
    SchedulerServices MetricsService Setup Pollers TaskLife Platform
    WorkflowEnd WebhookRun
begin

section \<open>A verified model of the task orchestrator engine\<close>

text \<open>
  \<^bold>\<open>The program.\<close>  The repository holds a workflow engine of four services over a shared package.
  The scheduler API stores workflows (graphs of tasks), starts and cancels their executions and polls
  schedules; executors claim task states from a queue in Redis under a lock, run them, retry failures and
  enqueue what becomes ready; the monitor checks service level agreements, aggregates metrics and tracks
  the heartbeats of executors; the webhook gateway checks signatures and forwards requests to the
  scheduler.  They share a PostgreSQL database and a Redis server and have no other state in common.

  \<^bold>\<open>Theories and sources\<close> (below \<open>packages/shared/src\<close> unless a service is named).

  \<^item> Foundations: \<open>Prelude\<close> (lists, association lists as JavaScript maps and sets, reachability),
    \<open>JsNumber\<close> and \<open>JsMath\<close> (doubles as rounded rationals with infinities and NaN, \<open>Math.min\<close>,
    \<open>Math.round\<close>), \<open>JsString\<close> (split, trim, \<open>parseInt\<close>, \<open>Number\<close>), \<open>JsSort\<close> (\<open>Array.sort\<close> as a stable
    insertion sort, the locale \<open>comparator\<close>), \<open>Types\<close> (\<open>types.ts\<close>).
  \<^item> Graphs: \<open>DagValidator\<close>, \<open>DagSearch\<close> and \<open>DagReachability\<close> (\<open>dag/dag-validator.ts\<close>: its functions, the
    correctness of the search, the whole validation), \<open>TopologicalSorter\<close>, \<open>DagSerializer\<close>.
  \<^item> State machine and retries: \<open>StateMachine\<close>, \<open>RetryEngine\<close>.
  \<^item> Scheduling: \<open>CronParser\<close>, \<open>Calendar\<close> (\<open>Date\<close> in UTC), \<open>CronEvaluator\<close> and \<open>CronNextRun\<close>
    (\<open>scheduling/cron-evaluator.ts\<close>: parsing, the search for the next run, its correctness).
  \<^item> Redis: \<open>Redis\<close> (the commands, as locales), \<open>TaskQueue\<close>, \<open>LockManager\<close>, \<open>EventBus\<close>; \<open>Heartbeats\<close>
    (\<open>heartbeat-store.ts\<close>, the executor's emitter, the monitor's health tracker); the metrics cache is in
    \<open>MetricsService\<close>.
  \<^item> Database: \<open>Database\<close> (the tables of \<open>db/migrations/*.sql\<close> as lists of rows, with keys, references and
    checks), \<open>WorkflowRepository\<close> and \<open>WorkflowFacts\<close>, \<open>ExecutionRepository\<close> (executions, task states, dead
    letters), \<open>ScheduleRepository\<close> (schedules, webhooks); \<open>Setup\<close> (migrations, lazily opened connections).
  \<^item> Scheduler API (\<open>services/scheduler-api/src\<close>): \<open>Http\<close>, \<open>WorkflowController\<close>, \<open>ExecutionController\<close>,
    \<open>ScheduleController\<close>, \<open>ScheduleEvaluator\<close>, \<open>SchedulerServices\<close> (trigger manager, execution manager,
    orphan detector).
  \<^item> Executor (\<open>services/executor-service/src\<close>): \<open>TaskClaimer\<close>, \<open>TaskRunner\<close>, \<open>RetryHandler\<close>, \<open>FanOutFanIn\<close>.
  \<^item> Monitor (\<open>services/monitor-service/src\<close>): \<open>SlaMonitor\<close> (SLA checker, alerts, repositories),
    \<open>MetricsService\<close>.
  \<^item> Gateway (\<open>services/webhook-gateway/src\<close>): \<open>WebhookGateway\<close>.
  \<^item> Across components: \<open>TaskLife\<close> (an executor's turns on a task, from the queue to its end),
    \<open>Pollers\<close> (\<open>start\<close> and \<open>stop\<close> of the five periodic jobs), \<open>Platform\<close> (the statements of all services
    on one database, and the way of a task from a request to its first attempt); \<open>WorkflowRun\<close> and
    \<open>WorkflowEnd\<close> (all tasks of an execution on any number of executors, as a step relation: its invariant, its
    measure, the order of tasks and the end); \<open>Routes\<close> (the route tables and \<open>app.ts\<close> of the services) and
    \<open>WebhookRun\<close> (a webhook from the gateway through the scheduler's routes to an execution).

  Definitions have the names of the source, with a prefix or suffix where a name clashes.  A class is a
  record of its fields; an operation takes the state it reads and returns it changed; an exception or a
  failed statement is a value of a sum type, and what was written before it stays in the returned state.

  \<^bold>\<open>What is shown.\<close>
  The graph checks accept exactly the acyclic workflows on existing tasks, and sorting agrees with them.
  A task has a bounded history; delays of accepted policies are bounded and monotone; a run refines one
  step of an abstract life of a task, and an executor left alone with a queued task ends it within ten
  turns.  An execution of a checked workflow without conditions, on executors that keep their locks and look
  downstream of what they complete, begins no task before those upstream of it have completed and comes to an
  end within 31 working steps per task and two per edge; tasks behind a failure stay pending, and then the
  completion check never ends the execution.  The next run of a cron expression is the first match after the
  reference, and the search ends.  The queue refines a waiting line, the locks exclude each other over any history.  Every statement of every service keeps the schema,
  and the handlers, pollers and executors are sequences of such statements, so the schema holds at every
  moment of any interleaving.  Handlers are specified on all answers; schedules fire once per due
  time; the gateway forwards authentic requests only, and an admitted one starts one execution, provided that
  the scheduler's routers are mounted as documented; alerts are raised once and when due; the
  health snapshot names the executors with a recent heartbeat.  Some theorems state behaviour that
  departs from the comments of the source, and their texts say so.

  \<^bold>\<open>Interfaces\<close> are locales: \<open>redis_lists\<close>, \<open>redis_keys\<close> and their union \<open>redis_server\<close> for the commands,
  \<open>work_queue\<close> for the queue on top of lists (a sublocale), \<open>hash_store\<close> and \<open>metrics_store\<close> for the hashes
  and the cached value, \<open>comparator\<close> for sorting, \<open>poller\<close> for periodic jobs.  Each is interpreted on the
  model's definitions or on the reference server of its theory.

  \<^bold>\<open>Parameters.\<close>  Code outside the repository is an argument of the definitions that use it: the Redis
  commands with the laws above; \<open>gen_random_uuid()\<close> as an injective sequence of ids; the time zone database;
  \<open>localeCompare\<close>; HMAC-SHA256; the answers of \<open>fetch\<close>, the ends of commands, and the values of expressions
  given to \<open>Function\<close>; whether a path pattern of Express matches a path and the length of the JSON text of a
  value; the text PostgreSQL makes of a JSON value and its average; the SQL text of a
  migration; and \<open>xe_sleep\<close>, what happens in the world while an executor waits.  Hypotheses about them are
  the laws of the locales, \<open>inj\<close> of the ids, \<open>advances\<close> (a timer takes time), \<open>undisturbed\<close> (nobody else
  touches the task while its lock is kept), \<open>exclusive\<close> (nobody else takes the lock either),
  \<open>orderly\<close> (others act by statements), \<open>express_paths\<close> (patterns match segment by segment) and \<open>plain_id\<close>
  (ids are one segment of a path).

  \<^bold>\<open>Loops and bounds.\<close>  Searches on graphs end by the number of unvisited tasks, the cron search by the
  distance to the end of its four years, the steps of a cron range by fuel computed from its bounds, with
  the lemma that it is enough.  The wait for a retry and the scan of heartbeat keys end only by
  the outside world: they are partial functions with value \<^const>\<open>None\<close>, and their return is proved.  The
  claimer's loop runs until it is stopped and is modelled with a number of passes.  The steps of a whole
  execution end by a measure: what the tasks, the ids in the two lists and the completions not yet looked at can
  still cause.  Passes that give a locked task back are not counted.

  \<^bold>\<open>Conventions.\<close>  Ids are the canonical texts of UUIDs; looking up a malformed one, which PostgreSQL
  rejects, is not modelled.  JSONB columns hold values.  The bodies of requests are values of JSON for
  workflows and of the declared types elsewhere; page numbers are below \<open>2^53\<close>.  A statement outside a
  transaction is one atomic step, and so are a transaction and a Lua script.  Dates are milliseconds.

  \<^bold>\<open>Not modelled.\<close>  Texts of messages and logs; Express itself, that is matching of paths and
  parsing of JSON; \<open>index.ts\<close> of the services, which only listens on a port; the call of \<open>evaluateDownstream\<close>,
  which no file makes: \<open>WorkflowRun\<close> assumes one after each completion; failures of connections to Redis and
  PostgreSQL; connection options; columns that no statement reads; the TypeScript interfaces that
  only restate a row; re-exports, test configuration, containers and deployment files.
\<close>

end
